(* ===== verification/Bcc_Prelude.thy ===== *)
theory Bcc_Prelude
  imports Main "HOL-Library.Word" "HOL-Library.AList" "HOL-Library.Multiset"
    "HOL-Library.List_Lexorder" "HOL-Library.Char_ord"
begin

text \<open>
  Shared vocabulary of the development: the machine integers of the Rust code, the parts of
  Rust's standard library the code calls (saturating and wrapping sums, byte views of integers,
  decimal rendering, hash maps as association lists) and the generic facts about them that the
  component theories use.  Arithmetic is that of a release build (the \<open>Dockerfile\<close> builds with
  \<open>--release\<close>): \<open>+\<close>, \<open>*\<close> and \<open>Iterator::sum\<close> wrap around.
\<close>

named_theorems bcc_abs \<open>how an operation acts on the abstraction of its state\<close>
named_theorems bcc_inv \<open>operations that keep an invariant\<close>

section \<open>Machine integers\<close>

type_synonym byte = "8 word"
type_synonym u32 = "32 word"
type_synonym u64 = "64 word"

text \<open>An \<open>i64\<close> is the same 64 bits, compared through \<open>sint\<close>.\<close>

type_synonym i64 = "64 word"

definition u64_max :: nat where
  "u64_max = 2 ^ 64 - 1"

definition saturating_add :: "u64 \<Rightarrow> u64 \<Rightarrow> u64" where
  "saturating_add a b = (if unat a + unat b \<le> u64_max then a + b else - 1)"

definition saturating_sub :: "u64 \<Rightarrow> u64 \<Rightarrow> u64" where
  "saturating_sub a b = (if b \<le> a then a - b else 0)"

lemma unat_lt_u64 [simp]: "unat (a :: u64) \<le> u64_max"
  using unsigned_less [of a, where ?'a = nat] by (simp add: u64_max_def)

lemma unat_minus_1 [simp]: "unat (- 1 :: u64) = u64_max"
  by (simp add: u64_max_def unsigned_minus_1_eq_mask mask_eq_exp_minus_1)

lemma unat_saturating_add: "unat (saturating_add a b) = min (unat a + unat b) u64_max"
  by (auto simp: saturating_add_def) (simp add: u64_max_def unat_word_ariths)

text \<open>The overflow test on the wrapped sum, for evaluation.\<close>

lemma saturating_add_code [code]:
  "saturating_add a b = (let c = a + b in if c < a then - 1 else c)"
proof -
  have "a + b < a \<longleftrightarrow> u64_max < unat a + unat b"
    using unat_lt_u64 [of a] unat_lt_u64 [of b]
    by (auto simp: word_less_nat_alt unat_word_ariths u64_max_def mod_if)
  then show ?thesis by (auto simp: saturating_add_def Let_def)
qed

lemma saturating_add_0 [simp]: "saturating_add 0 a = a"
  by (simp add: saturating_add_def)

lemma unat_sum_list_word:
  "unat (sum_list xs :: u64) = sum_list (map unat xs) mod 2 ^ 64"
  by (induction xs) (simp_all add: unat_word_ariths mod_simps)

lemma unat_sum_list_small:
  "sum_list (map unat xs) \<le> u64_max \<Longrightarrow> unat (sum_list xs :: u64) = sum_list (map unat xs)"
  by (simp add: unat_sum_list_word u64_max_def)

text \<open>A left-to-right accumulation with \<open>saturating_add\<close>.\<close>

lemma fold_saturating_add:
  "unat (fold (\<lambda>x acc. saturating_add acc x) xs a) = min (unat a + sum_list (map unat xs)) u64_max"
  by (induction xs arbitrary: a) (auto simp: unat_saturating_add)

section \<open>Integers as bytes\<close>

text \<open>\<open>u64::to_le_bytes\<close>, \<open>u64::to_be_bytes\<close> and their inverses.\<close>

definition to_le_bytes :: "u64 \<Rightarrow> byte list" where
  "to_le_bytes w = map (\<lambda>i. ucast (drop_bit (8 * i) w)) [0..<8]"

definition from_le_bytes :: "byte list \<Rightarrow> u64" where
  "from_le_bytes bs = foldr (\<lambda>b acc. ucast b + 256 * acc) bs 0"

definition to_be_bytes :: "u64 \<Rightarrow> byte list" where
  "to_be_bytes w = rev (to_le_bytes w)"

definition from_be_bytes :: "byte list \<Rightarrow> u64" where
  "from_be_bytes bs = from_le_bytes (rev bs)"

lemma length_to_le_bytes [simp]: "length (to_le_bytes w) = 8"
  by (simp add: to_le_bytes_def)

lemma length_to_be_bytes [simp]: "length (to_be_bytes w) = 8"
  by (simp add: to_be_bytes_def)

text \<open>
  The number a byte string denotes, least and most significant byte first.  Big-endian strings
  of one length are ordered as their numbers are, which is what makes \<open>height_key\<close> usable as a
  key of an ordered tree.
\<close>

fun le_value :: "byte list \<Rightarrow> nat" where
  "le_value [] = 0"
| "le_value (b # bs) = unat b + 256 * le_value bs"

fun be_value :: "byte list \<Rightarrow> nat" where
  "be_value [] = 0"
| "be_value (b # bs) = unat b * 256 ^ length bs + be_value bs"

lemma be_value_append: "be_value (xs @ [b]) = 256 * be_value xs + unat b"
  by (induction xs) (simp_all add: algebra_simps)

lemma be_value_rev: "be_value (rev bs) = le_value bs"
  by (induction bs) (simp_all add: be_value_append)

lemma unat_byte [simp]: "unat (b :: byte) < 256"
  using unsigned_less [of b, where ?'a = nat] by simp

lemma be_value_less: "be_value bs < 256 ^ length bs"
proof (induction bs)
  case (Cons b bs)
  have "unat b * 256 ^ length bs + be_value bs < (unat b + 1) * 256 ^ length bs"
    using Cons by simp
  also have "\<dots> \<le> 256 * 256 ^ length bs"
    using unat_byte [of b] by (intro mult_right_mono) linarith+
  finally show ?case by simp
qed simp

lemma be_value_less_iff:
  "length xs = length ys \<Longrightarrow> be_value xs < be_value ys \<longleftrightarrow> xs < ys"
proof (induction xs ys rule: list_induct2)
  case (Cons x xs y ys)
  let ?n = "256 ^ length ys :: nat"
  have bx: "be_value xs < ?n" and "be_value ys < ?n"
    using be_value_less [of xs] be_value_less [of ys] Cons.hyps by simp_all
  consider "x = y" | "x < y" | "y < x" by fastforce
  then show ?case
  proof cases
    case 1
    then show ?thesis using Cons by simp
  next
    case 2
    then have "(unat x + 1) * ?n \<le> unat y * ?n"
      by (intro mult_right_mono) (simp_all add: word_less_nat_alt)
    then show ?thesis using 2 bx Cons.hyps by simp
  next
    case 3
    then have "(unat y + 1) * ?n \<le> unat x * ?n"
      by (intro mult_right_mono) (simp_all add: word_less_nat_alt)
    then show ?thesis using 3 \<open>be_value ys < ?n\<close> Cons.hyps by auto
  qed
qed simp

lemma le_value_upt:
  "le_value (map (\<lambda>i. ucast (drop_bit (8 * i) (w :: u64))) [k..<k + n]) = (unat w div 256 ^ k) mod 256 ^ n"
proof (induction n arbitrary: k)
  case (Suc n)
  have "unat (ucast (drop_bit (8 * k) w) :: byte) = (unat w div 256 ^ k) mod 256"
    using unsigned_less [of w, where ?'a = nat]
    by (simp add: unsigned_ucast_eq unsigned_drop_bit_eq take_bit_eq_mod [where ?'a = nat]
        drop_bit_eq_div [where ?'a = nat] power_mult)
  moreover have "unat w div 256 ^ Suc k = unat w div 256 ^ k div 256"
    by (simp only: power_Suc2 div_mult2_eq)
  ultimately show ?case
    using Suc [of "Suc k"]
    by (simp add: upt_conv_Cons mod_mult2_eq del: upt_Suc power_Suc) (simp add: mod_mult2_eq)
qed simp

lemma le_value_to_le_bytes: "le_value (to_le_bytes w) = unat w"
  using le_value_upt [of w 0 8] unsigned_less [of w, where ?'a = nat]
  by (simp add: to_le_bytes_def del: upt_Suc)

lemma be_value_to_be_bytes: "be_value (to_be_bytes w) = unat w"
  by (simp add: to_be_bytes_def be_value_rev le_value_to_le_bytes)

lemma to_be_bytes_less_iff [simp]: "to_be_bytes a < to_be_bytes b \<longleftrightarrow> a < b"
  using be_value_less_iff [of "to_be_bytes a" "to_be_bytes b"]
  by (simp add: be_value_to_be_bytes word_less_nat_alt)

lemma to_be_bytes_le_iff [simp]: "to_be_bytes a \<le> to_be_bytes b \<longleftrightarrow> a \<le> b"
  by (metis linorder_not_less to_be_bytes_less_iff)

lemma to_be_bytes_inject [simp]: "to_be_bytes a = to_be_bytes b \<longleftrightarrow> a = b"
  by (metis be_value_to_be_bytes word_unat_eq_iff)

lemma from_le_bytes_value: "from_le_bytes bs = of_nat (le_value bs)"
  by (induction bs) (simp_all add: from_le_bytes_def unsigned_ucast_eq)

lemma from_le_to_le [simp]: "from_le_bytes (to_le_bytes w) = w"
  by (simp add: from_le_bytes_value le_value_to_le_bytes)

lemma from_be_to_be [simp]: "from_be_bytes (to_be_bytes w) = w"
  by (simp add: from_be_bytes_def to_be_bytes_def)

section \<open>Strings as bytes\<close>

text \<open>\<open>str::as_bytes\<close>: a string is its UTF-8 bytes, and bytes are ordered as characters are.\<close>

definition byte_of_char :: "char \<Rightarrow> byte" where
  "byte_of_char c = of_char c"

definition char_of_byte :: "byte \<Rightarrow> char" where
  "char_of_byte b = char_of (unat b)"

definition str_bytes :: "string \<Rightarrow> byte list" where
  "str_bytes s = map byte_of_char s"

lemma unat_byte_of_char: "unat (byte_of_char c) = of_char c"
proof -
  have "unat (of_nat (of_char c :: nat) :: byte) = of_char c"
    by (simp only: unat_of_nat) simp
  then show ?thesis by (simp add: byte_of_char_def of_nat_of_char)
qed

lemma char_of_byte_of_char [simp]: "char_of_byte (byte_of_char c) = c"
  by (simp add: char_of_byte_def unat_byte_of_char)

lemma byte_of_char_less [simp]: "byte_of_char c < byte_of_char d \<longleftrightarrow> c < d"
  by (simp add: word_less_nat_alt unat_byte_of_char less_char_def)

lemma byte_of_char_inject [simp]: "byte_of_char c = byte_of_char d \<longleftrightarrow> c = d"
  by (metis char_of_byte_of_char)

lemma str_bytes_inject [simp]: "str_bytes a = str_bytes b \<longleftrightarrow> a = b"
  by (auto simp: str_bytes_def inj_on_def intro: map_injective)

lemma str_bytes_less [simp]: "str_bytes a < str_bytes b \<longleftrightarrow> a < b"
proof (induction a arbitrary: b)
  case Nil
  then show ?case by (cases b) (simp_all add: str_bytes_def)
next
  case (Cons x a)
  then show ?case by (cases b) (simp_all add: str_bytes_def)
qed

section \<open>Decimal rendering\<close>

text \<open>What \<open>{}\<close> prints for an unsigned integer in \<open>format!\<close> and in the \<open>#[error(...)]\<close> texts.\<close>

definition digit_char :: "nat \<Rightarrow> char" where
  "digit_char d = char_of (48 + d)"

fun show_nat :: "nat \<Rightarrow> string" where
  "show_nat n = (if n < 10 then [digit_char n] else show_nat (n div 10) @ [digit_char (n mod 10)])"

declare show_nat.simps [simp del]

definition show_int :: "int \<Rightarrow> string" where
  "show_int i = (if i < 0 then CHR ''-'' # show_nat (nat (- i)) else show_nat (nat i))"

section \<open>Hash maps as association lists\<close>

text \<open>
  A \<open>HashMap\<close> or \<open>IndexMap\<close> is an association list with distinct keys; \<open>insert\<close> is
  \<open>AList.update\<close> (in place if the key is present, at the end otherwise, as \<open>IndexMap\<close> does) and
  \<open>remove\<close> is \<open>AList.delete\<close>.
\<close>

abbreviation alist_ok :: "('k \<times> 'v) list \<Rightarrow> bool" where
  "alist_ok m \<equiv> distinct (map fst m)"

lemmas alist_simps [simp] = update_conv' delete_conv' distinct_update distinct_delete

lemma alist_ext_mset:
  assumes "alist_ok xs" and "alist_ok ys" and "map_of xs = map_of ys"
  shows "mset xs = mset ys"
  using assms map_of_inject_set [of xs ys]
  by (simp add: distinct_map set_eq_iff_mset_eq_distinct)

lemma alist_sum_ext:
  assumes "alist_ok xs" and "alist_ok ys" and "map_of xs = map_of ys"
  shows "sum_list (map f xs) = (sum_list (map f ys) :: 'a :: comm_monoid_add)"
  using alist_ext_mset [OF assms] by (metis mset_map sum_mset_sum_list)

lemma alist_in_set_iff: "alist_ok xs \<Longrightarrow> (k, v) \<in> set xs \<longleftrightarrow> map_of xs k = Some v"
  by (simp add: map_of_eq_Some_iff)

lemma in_alist_updateD: "kv \<in> set (AList.update k v xs) \<Longrightarrow> kv = (k, v) \<or> kv \<in> set xs"
  by (induction xs) (auto split: if_splits)

lemma alist_update_new: "map_of xs k = None \<Longrightarrow> AList.update k v xs = xs @ [(k, v)]"
  by (induction xs) (auto split: if_splits)

text \<open>A list in strictly ascending order of a key is determined by its elements.\<close>

lemma strict_sorted_key_eq:
  fixes f :: "'a \<Rightarrow> 'k :: linorder"
  assumes "sorted_wrt (<) (map f xs)" and "sorted_wrt (<) (map f ys)" and "set xs = set ys"
  shows "xs = ys"
proof -
  have "map f xs = map f ys"
    using assms by (intro sorted_distinct_set_unique) (simp_all add: strict_sorted_iff)
  moreover have "inj_on f (set xs \<union> set ys)"
    using assms by (auto simp: strict_sorted_iff distinct_map)
  ultimately show ?thesis by (rule inj_on_map_eq_map [THEN iffD1, rotated])
qed

end
