(* ===== verification/Bcc_Types.thy ===== *)
theory Bcc_Types
  imports Bcc_Prelude
begin

text \<open>
  The domain types of \<open>bcc-core\<close> (the structs and enums of \<open>types/\<close> and \<open>error.rs\<close>).
  Functions of third-party crates (SHA-256, Ed25519, hex, serde\_json) are the fields of the record
  \<open>ext\<close>; what a theorem needs of them is a named hypothesis on that record.
\<close>

section \<open>Data\<close>

type_synonym block_hash = "byte list"
type_synonym tx_hash = block_hash

text \<open>Ed25519 values, by their byte representation.\<close>

type_synonym signature = "byte list"
type_synonym verifying_key = "byte list"
type_synonym signing_key = "byte list"

datatype address = Address (as_str: string)

datatype address_error = InvalidPrefix | InvalidLength | InvalidCharacter

datatype bcc_error =
    Crypto string
  | AddressErr string
  | BlockValidation string
  | TxValidation string
  | StoreErr string
  | Consensus string

record tx_out_ref =
  ref_tx_hash :: tx_hash
  ref_index :: u32

record tx_input =
  in_out_ref :: tx_out_ref
  in_signature :: signature
  in_pubkey :: verifying_key

record tx_output =
  out_amount :: u64
  out_address :: address

datatype txkind = Transfer | Stake u64 | Unstake u64

record transaction =
  tx_kind :: txkind
  tx_inputs :: "tx_input list"
  tx_outputs :: "tx_output list"

record block_header =
  prev_hash :: block_hash
  merkle_root :: block_hash
  timestamp :: i64
  height :: u64
  slot :: u64
  proposer :: address

record block =
  header :: block_header
  block_signature :: signature
  txs :: "transaction list"

record validator =
  v_address :: address
  v_pubkey :: verifying_key
  v_stake :: u64
  v_active_since :: u64

text \<open>The part of a transaction that a spender signs.\<close>

record tx_signing_data =
  sd_kind :: txkind
  sd_inputs :: "tx_out_ref list"
  sd_outputs :: "tx_output list"

text \<open>Addresses are compared as their strings (\<open>a.address.as_str().cmp(..)\<close>).\<close>

instantiation address :: linorder
begin

definition less_eq_address :: "address \<Rightarrow> address \<Rightarrow> bool" where
  "less_eq_address a b \<longleftrightarrow> as_str a \<le> as_str b"

definition less_address :: "address \<Rightarrow> address \<Rightarrow> bool" where
  "less_address a b \<longleftrightarrow> as_str a < as_str b"

instance
  by standard (auto simp: less_eq_address_def less_address_def intro: address.expand)

end

section \<open>Third-party functions\<close>

text \<open>
  \<^item> \<open>sha256_digest\<close>: \<open>sha2::Sha256::digest\<close>; \<open>hex_encode\<close>, \<open>hex_decode\<close>: crate \<open>hex\<close>;
  \<^item> \<open>vk_from_bytes\<close>, \<open>ed_public\<close>, \<open>ed_sign\<close>, \<open>ed_verify\<close>: crate \<open>ed25519-dalek\<close>;
  \<^item> \<open>json_*\<close> and \<open>unjson_*\<close>: \<open>serde_json::to_vec\<close> and \<open>from_slice\<close> at each type the code uses;
  \<^item> \<open>hash_iter\<close>: the order in which a \<open>HashMap\<close> yields its entries, and \<open>tie_*\<close>: the order
    in which \<open>sort_unstable\<close> meets elements of equal key, both left open by the standard library.
  \<^item> \<open>swap_remove\<close>: \<open>IndexMap::swap_remove\<close> on the entries of an index map (crate \<open>indexmap\<close>).
  An \<open>Inl\<close> carries the text of the error.
\<close>

record ext =
  sha256_digest :: "byte list \<Rightarrow> byte list"
  hex_encode :: "byte list \<Rightarrow> string"
  hex_decode :: "string \<Rightarrow> string + byte list"
  vk_from_bytes :: "byte list \<Rightarrow> string + verifying_key"
  ed_public :: "signing_key \<Rightarrow> verifying_key"
  ed_sign :: "signing_key \<Rightarrow> byte list \<Rightarrow> signature"
  ed_verify :: "verifying_key \<Rightarrow> byte list \<Rightarrow> signature \<Rightarrow> string + unit"
  json_header :: "block_header \<Rightarrow> byte list"
  json_tx :: "transaction \<Rightarrow> byte list"
  json_signing :: "tx_signing_data \<Rightarrow> byte list"
  json_out_ref :: "tx_out_ref \<Rightarrow> byte list"
  json_output :: "tx_output \<Rightarrow> byte list"
  json_block :: "block \<Rightarrow> byte list"
  json_validator :: "validator \<Rightarrow> byte list"
  json_tip :: "u64 \<times> block_hash \<Rightarrow> byte list"
  unjson_out_ref :: "byte list \<Rightarrow> string + tx_out_ref"
  unjson_output :: "byte list \<Rightarrow> string + tx_output"
  unjson_block :: "byte list \<Rightarrow> string + block"
  unjson_validator :: "byte list \<Rightarrow> string + validator"
  unjson_tip :: "byte list \<Rightarrow> string + u64 \<times> block_hash"
  hash_iter :: "(tx_hash \<times> u64) list \<Rightarrow> (tx_hash \<times> u64) list"
  tie_txs :: "(u64 \<times> transaction) list \<Rightarrow> (u64 \<times> transaction) list"
  swap_remove :: "tx_hash \<Rightarrow> (tx_hash \<times> transaction) list \<Rightarrow> (tx_hash \<times> transaction) list"

text \<open>Documented behaviour of those functions, used as hypotheses.\<close>

definition digest_32 :: "ext \<Rightarrow> bool" where
  "digest_32 E \<longleftrightarrow> (\<forall>d. length (sha256_digest E d) = 32)"

definition hex_digits :: "char set" where
  "hex_digits = set ''0123456789abcdef''"

definition hex_lower :: "ext \<Rightarrow> bool" where
  "hex_lower E \<longleftrightarrow>
     (\<forall>bs. length (hex_encode E bs) = 2 * length bs \<and> set (hex_encode E bs) \<subseteq> hex_digits)"

definition hex_roundtrip :: "ext \<Rightarrow> bool" where
  "hex_roundtrip E \<longleftrightarrow> (\<forall>bs. hex_decode E (hex_encode E bs) = Inr bs)"

definition sign_verifies :: "ext \<Rightarrow> bool" where
  "sign_verifies E \<longleftrightarrow> (\<forall>sk m. ed_verify E (ed_public E sk) m (ed_sign E sk m) = Inr ())"

definition orders_permute :: "ext \<Rightarrow> bool" where
  "orders_permute E \<longleftrightarrow>
     (\<forall>xs. mset (hash_iter E xs) = mset xs) \<and> (\<forall>xs. mset (tie_txs E xs) = mset xs)"

definition swap_remove_deletes :: "ext \<Rightarrow> bool" where
  "swap_remove_deletes E \<longleftrightarrow>
     (\<forall>k m. mset (swap_remove E k m) = mset (filter (\<lambda>kv. fst kv \<noteq> k) m))"

definition json_roundtrip :: "ext \<Rightarrow> bool" where
  "json_roundtrip E \<longleftrightarrow>
     (\<forall>x. unjson_out_ref E (json_out_ref E x) = Inr x) \<and>
     (\<forall>x. unjson_output E (json_output E x) = Inr x) \<and>
     (\<forall>x. unjson_block E (json_block E x) = Inr x) \<and>
     (\<forall>x. unjson_validator E (json_validator E x) = Inr x) \<and>
     (\<forall>x. unjson_tip E (json_tip E x) = Inr x)"

end
