(* ===== verification/Bcc_Codec.thy ===== *)
theory Bcc_Codec
  imports Bcc_Types
begin

text \<open>
  A concrete instance \<open>ref_ext\<close> of the third-party functions, used by the witnesses: a
  self-delimiting byte encoding in place of JSON with its decoders, lower-case hex, a polynomial
  checksum in place of SHA-256 and a trivially forgeable signature scheme.  It satisfies every
  hypothesis of \<open>Bcc_Types\<close>, so those hypotheses can hold together.
\<close>

section \<open>A self-delimiting encoding\<close>

type_synonym 'a parser = "byte list \<Rightarrow> ('a \<times> byte list) option"

definition parses :: "('a \<Rightarrow> byte list) \<Rightarrow> 'a parser \<Rightarrow> bool" where
  "parses enc dec \<longleftrightarrow> (\<forall>x rest. dec (enc x @ rest) = Some (x, rest))"

lemma parsesD [simp]: "parses enc dec \<Longrightarrow> dec (enc x @ rest) = Some (x, rest)"
  by (simp add: parses_def)

definition whole :: "'a parser \<Rightarrow> byte list \<Rightarrow> string + 'a" where
  "whole dec bs = (case dec bs of Some (x, []) \<Rightarrow> Inr x | _ \<Rightarrow> Inl ''decode error'')"

lemma whole_enc: "parses enc dec \<Longrightarrow> whole dec (enc x) = Inr x"
  using parsesD [of enc dec x "[]"] by (simp add: whole_def)

definition enc_u64 :: "u64 \<Rightarrow> byte list" where
  "enc_u64 w = to_be_bytes w"

definition dec_u64 :: "u64 parser" where
  "dec_u64 bs = (if length bs < 8 then None else Some (from_be_bytes (take 8 bs), drop 8 bs))"

definition enc_u32 :: "u32 \<Rightarrow> byte list" where
  "enc_u32 w = enc_u64 (ucast w)"

definition dec_u32 :: "u32 parser" where
  "dec_u32 bs = (case dec_u64 bs of None \<Rightarrow> None | Some (w, r) \<Rightarrow> Some (ucast w, r))"

definition enc_byte :: "byte \<Rightarrow> byte list" where
  "enc_byte b = [b]"

fun dec_byte :: "byte parser" where
  "dec_byte [] = None"
| "dec_byte (b # bs) = Some (b, bs)"

definition enc_list :: "('a \<Rightarrow> byte list) \<Rightarrow> 'a list \<Rightarrow> byte list" where
  "enc_list enc xs = concat (map (\<lambda>x. 1 # enc x) xs) @ [0]"

fun dec_list_fuel :: "'a parser \<Rightarrow> nat \<Rightarrow> 'a list parser" where
  "dec_list_fuel dec (Suc n) (t # bs) =
     (if t = 0 then Some ([], bs)
      else case dec bs of None \<Rightarrow> None
        | Some (x, r) \<Rightarrow> (case dec_list_fuel dec n r of None \<Rightarrow> None
            | Some (xs, q) \<Rightarrow> Some (x # xs, q)))"
| "dec_list_fuel dec _ _ = None"

definition dec_list :: "'a parser \<Rightarrow> 'a list parser" where
  "dec_list dec bs = dec_list_fuel dec (length bs) bs"

definition enc_pair :: "('a \<Rightarrow> byte list) \<Rightarrow> ('b \<Rightarrow> byte list) \<Rightarrow> 'a \<times> 'b \<Rightarrow> byte list" where
  "enc_pair f g p = f (fst p) @ g (snd p)"

definition dec_pair :: "'a parser \<Rightarrow> 'b parser \<Rightarrow> ('a \<times> 'b) parser" where
  "dec_pair f g bs = (case f bs of None \<Rightarrow> None
     | Some (x, r) \<Rightarrow> (case g r of None \<Rightarrow> None | Some (y, q) \<Rightarrow> Some ((x, y), q)))"

text \<open>Encoding through a representation: \<open>to\<close> and \<open>of\<close> are inverse.\<close>

definition dec_via :: "('b \<Rightarrow> 'a) \<Rightarrow> 'b parser \<Rightarrow> 'a parser" where
  "dec_via f dec bs = map_option (\<lambda>(x, r). (f x, r)) (dec bs)"

lemma parses_u64: "parses enc_u64 dec_u64"
  by (simp add: parses_def enc_u64_def dec_u64_def)

lemma parses_u32: "parses enc_u32 dec_u32"
  using parses_u64 by (simp add: parses_def enc_u32_def dec_u32_def ucast_up_ucast_id is_up)

lemma parses_byte: "parses enc_byte dec_byte"
  by (simp add: parses_def enc_byte_def)

lemma dec_list_fuel_enc:
  "parses enc dec \<Longrightarrow> length xs < n \<Longrightarrow> dec_list_fuel dec n (enc_list enc xs @ r) = Some (xs, r)"
proof (induction xs arbitrary: n)
  case Nil
  then show ?case by (cases n) (simp_all add: enc_list_def)
next
  case (Cons x xs)
  then obtain m where n: "n = Suc m" and "length xs < m" by (cases n) auto
  then have "dec_list_fuel dec m (enc_list enc xs @ r) = Some (xs, r)"
    using Cons by blast
  then show ?case using Cons.prems(1) by (simp add: n enc_list_def)
qed

lemma parses_list: "parses enc dec \<Longrightarrow> parses (enc_list enc) (dec_list dec)"
proof -
  have "length xs < length (enc_list enc xs @ rest)" for xs rest
    by (induction xs) (simp_all add: enc_list_def)
  then show "parses enc dec \<Longrightarrow> ?thesis"
    by (simp add: parses_def [of "enc_list enc"] dec_list_def dec_list_fuel_enc del: length_append)
qed

lemma parses_pair: "parses f f' \<Longrightarrow> parses g g' \<Longrightarrow> parses (enc_pair f g) (dec_pair f' g')"
  by (simp add: parses_def [of "enc_pair f g"] enc_pair_def dec_pair_def)

lemma parses_via: "(\<And>x. f (rep x) = x) \<Longrightarrow> parses enc dec \<Longrightarrow> parses (\<lambda>x. enc (rep x)) (dec_via f dec)"
  by (simp add: parses_def [of "\<lambda>x. enc (rep x)"] dec_via_def)

section \<open>Encodings of the model's types\<close>

definition enc_bytes :: "byte list \<Rightarrow> byte list" where
  "enc_bytes = enc_list enc_byte"

definition dec_bytes :: "byte list parser" where
  "dec_bytes = dec_list dec_byte"

definition enc_address :: "address \<Rightarrow> byte list" where
  "enc_address a = enc_bytes (str_bytes (as_str a))"

definition dec_address :: "address parser" where
  "dec_address = dec_via (\<lambda>bs. Address (map char_of_byte bs)) dec_bytes"

definition enc_kind :: "txkind \<Rightarrow> byte list" where
  "enc_kind k = enc_pair enc_byte enc_u64
     (case k of Transfer \<Rightarrow> (0, 0) | Stake a \<Rightarrow> (1, a) | Unstake a \<Rightarrow> (2, a))"

definition dec_kind :: "txkind parser" where
  "dec_kind = dec_via (\<lambda>(t, a). if t = 0 then Transfer else if t = 1 then Stake a else Unstake a)
     (dec_pair dec_byte dec_u64)"

definition enc_out_ref :: "tx_out_ref \<Rightarrow> byte list" where
  "enc_out_ref r = enc_pair enc_bytes enc_u32 (ref_tx_hash r, ref_index r)"

definition dec_out_ref :: "tx_out_ref parser" where
  "dec_out_ref = dec_via (\<lambda>(h, i). \<lparr>ref_tx_hash = h, ref_index = i\<rparr>) (dec_pair dec_bytes dec_u32)"

definition enc_output :: "tx_output \<Rightarrow> byte list" where
  "enc_output t = enc_pair enc_u64 enc_address (out_amount t, out_address t)"

definition dec_output :: "tx_output parser" where
  "dec_output = dec_via (\<lambda>(a, b). \<lparr>out_amount = a, out_address = b\<rparr>) (dec_pair dec_u64 dec_address)"

definition enc_input :: "tx_input \<Rightarrow> byte list" where
  "enc_input i = enc_pair enc_out_ref (enc_pair enc_bytes enc_bytes)
     (in_out_ref i, in_signature i, in_pubkey i)"

definition dec_input :: "tx_input parser" where
  "dec_input = dec_via (\<lambda>(r, s, p). \<lparr>in_out_ref = r, in_signature = s, in_pubkey = p\<rparr>)
     (dec_pair dec_out_ref (dec_pair dec_bytes dec_bytes))"

definition enc_tx :: "transaction \<Rightarrow> byte list" where
  "enc_tx t = enc_pair enc_kind (enc_pair (enc_list enc_input) (enc_list enc_output))
     (tx_kind t, tx_inputs t, tx_outputs t)"

definition dec_tx :: "transaction parser" where
  "dec_tx = dec_via (\<lambda>(k, i, t). \<lparr>tx_kind = k, tx_inputs = i, tx_outputs = t\<rparr>)
     (dec_pair dec_kind (dec_pair (dec_list dec_input) (dec_list dec_output)))"

definition enc_signing :: "tx_signing_data \<Rightarrow> byte list" where
  "enc_signing d = enc_pair enc_kind (enc_pair (enc_list enc_out_ref) (enc_list enc_output))
     (sd_kind d, sd_inputs d, sd_outputs d)"

definition enc_header :: "block_header \<Rightarrow> byte list" where
  "enc_header h = enc_pair enc_bytes (enc_pair enc_bytes (enc_pair enc_u64
       (enc_pair enc_u64 (enc_pair enc_u64 enc_address))))
     (prev_hash h, merkle_root h, timestamp h, height h, slot h, proposer h)"

definition dec_header :: "block_header parser" where
  "dec_header = dec_via (\<lambda>(p, m, t, h, s, a). \<lparr>prev_hash = p, merkle_root = m, timestamp = t,
       height = h, slot = s, proposer = a\<rparr>)
     (dec_pair dec_bytes (dec_pair dec_bytes (dec_pair dec_u64
       (dec_pair dec_u64 (dec_pair dec_u64 dec_address)))))"

definition enc_block :: "block \<Rightarrow> byte list" where
  "enc_block b = enc_pair enc_header (enc_pair enc_bytes (enc_list enc_tx))
     (header b, block_signature b, txs b)"

definition dec_block :: "block parser" where
  "dec_block = dec_via (\<lambda>(h, s, t). \<lparr>header = h, block_signature = s, txs = t\<rparr>)
     (dec_pair dec_header (dec_pair dec_bytes (dec_list dec_tx)))"

definition enc_validator :: "validator \<Rightarrow> byte list" where
  "enc_validator v = enc_pair enc_address (enc_pair enc_bytes (enc_pair enc_u64 enc_u64))
     (v_address v, v_pubkey v, v_stake v, v_active_since v)"

definition dec_validator :: "validator parser" where
  "dec_validator = dec_via (\<lambda>(a, p, s, t). \<lparr>v_address = a, v_pubkey = p, v_stake = s,
       v_active_since = t\<rparr>)
     (dec_pair dec_address (dec_pair dec_bytes (dec_pair dec_u64 dec_u64)))"

lemma parses_bytes: "parses enc_bytes dec_bytes"
  unfolding enc_bytes_def dec_bytes_def by (rule parses_list [OF parses_byte])

lemma parses_address: "parses enc_address dec_address"
  unfolding enc_address_def dec_address_def
  by (rule parses_via [OF _ parses_bytes]) (simp add: str_bytes_def comp_def)

lemma parses_kind: "parses enc_kind dec_kind"
  unfolding enc_kind_def dec_kind_def
  by (rule parses_via [OF _ parses_pair [OF parses_byte parses_u64]]) (simp split: txkind.splits)

lemma parses_out_ref: "parses enc_out_ref dec_out_ref"
  unfolding enc_out_ref_def dec_out_ref_def
  by (rule parses_via [OF _ parses_pair [OF parses_bytes parses_u32]]) simp

lemma parses_output: "parses enc_output dec_output"
  unfolding enc_output_def dec_output_def
  by (rule parses_via [OF _ parses_pair [OF parses_u64 parses_address]]) simp

lemma parses_input: "parses enc_input dec_input"
  unfolding enc_input_def dec_input_def
  by (rule parses_via [OF _ parses_pair [OF parses_out_ref parses_pair [OF parses_bytes parses_bytes]]])
    simp

lemma parses_tx: "parses enc_tx dec_tx"
  unfolding enc_tx_def dec_tx_def
  by (rule parses_via [OF _ parses_pair [OF parses_kind
        parses_pair [OF parses_list [OF parses_input] parses_list [OF parses_output]]]]) simp

lemma parses_header: "parses enc_header dec_header"
  unfolding enc_header_def dec_header_def
  by (rule parses_via [OF _ parses_pair [OF parses_bytes parses_pair [OF parses_bytes
        parses_pair [OF parses_u64 parses_pair [OF parses_u64
          parses_pair [OF parses_u64 parses_address]]]]]]) simp

lemma parses_block: "parses enc_block dec_block"
  unfolding enc_block_def dec_block_def
  by (rule parses_via [OF _ parses_pair [OF parses_header
        parses_pair [OF parses_bytes parses_list [OF parses_tx]]]]) simp

lemma parses_validator: "parses enc_validator dec_validator"
  unfolding enc_validator_def dec_validator_def
  by (rule parses_via [OF _ parses_pair [OF parses_address
        parses_pair [OF parses_bytes parses_pair [OF parses_u64 parses_u64]]]]) simp

section \<open>The reference instance\<close>

definition ref_digest :: "byte list \<Rightarrow> byte list" where
  "ref_digest d = (let h = fold (\<lambda>b h. 131 * h + ucast b) d (7 :: 16 word)
     in [ucast (drop_bit 8 h), ucast h] @ replicate 30 0)"

definition nibble_char :: "nat \<Rightarrow> char" where
  "nibble_char n = ''0123456789abcdef'' ! n"

definition ref_hex_encode :: "byte list \<Rightarrow> string" where
  "ref_hex_encode bs = concat (map (\<lambda>b. [nibble_char (unat b div 16), nibble_char (unat b mod 16)]) bs)"

definition hex_value :: "char \<Rightarrow> nat option" where
  "hex_value c =
     (let n = of_char c in
      if 48 \<le> n \<and> n \<le> 57 then Some (n - 48)
      else if 97 \<le> n \<and> n \<le> 102 then Some (n - 87)
      else if 65 \<le> n \<and> n \<le> 70 then Some (n - 55) else None)"

fun ref_hex_decode :: "string \<Rightarrow> string + byte list" where
  "ref_hex_decode [] = Inr []"
| "ref_hex_decode [c] = Inl ''Odd number of digits''"
| "ref_hex_decode (c # d # s) =
     (case (hex_value c, hex_value d) of
        (Some x, Some y) \<Rightarrow> (case ref_hex_decode s of Inl e \<Rightarrow> Inl e
           | Inr bs \<Rightarrow> Inr (of_nat (16 * x + y) # bs))
      | _ \<Rightarrow> Inl ''Invalid character'')"

definition ref_ext :: ext where
  "ref_ext = \<lparr>
     sha256_digest = ref_digest,
     hex_encode = ref_hex_encode,
     hex_decode = ref_hex_decode,
     vk_from_bytes = Inr,
     ed_public = (\<lambda>sk. sk),
     ed_sign = (\<lambda>sk m. sk @ take 2 (ref_digest m)),
     ed_verify = (\<lambda>pk m s. if s = pk @ take 2 (ref_digest m) then Inr () else Inl ''signature error''),
     json_header = enc_header,
     json_tx = enc_tx,
     json_signing = enc_signing,
     json_out_ref = enc_out_ref,
     json_output = enc_output,
     json_block = enc_block,
     json_validator = enc_validator,
     json_tip = enc_pair enc_u64 enc_bytes,
     unjson_out_ref = whole dec_out_ref,
     unjson_output = whole dec_output,
     unjson_block = whole dec_block,
     unjson_validator = whole dec_validator,
     unjson_tip = whole (dec_pair dec_u64 dec_bytes),
     hash_iter = (\<lambda>xs. xs),
     tie_txs = (\<lambda>xs. xs),
     swap_remove = (\<lambda>k m. filter (\<lambda>kv. fst kv \<noteq> k) m)\<rparr>"

lemma ref_digest_32: "digest_32 ref_ext"
  by (simp add: digest_32_def ref_ext_def ref_digest_def Let_def)

lemma ref_orders_permute: "orders_permute ref_ext"
  by (simp add: orders_permute_def ref_ext_def)

lemma ref_swap_remove: "swap_remove_deletes ref_ext"
  by (simp add: swap_remove_deletes_def ref_ext_def)

lemma ref_sign_verifies: "sign_verifies ref_ext"
  by (simp add: sign_verifies_def ref_ext_def)

lemma ref_json_roundtrip: "json_roundtrip ref_ext"
  by (simp add: json_roundtrip_def ref_ext_def whole_enc parses_out_ref parses_output parses_block
      parses_validator parses_pair [OF parses_u64 parses_bytes])

lemma nibble_char_cases: "n < 16 \<Longrightarrow> nibble_char n \<in> hex_digits \<and> hex_value (nibble_char n) = Some n"
  by (simp add: nibble_char_def hex_digits_def hex_value_def less_Suc_eq numeral_eq_Suc) (elim disjE; simp)

lemma nibbles [simp]:
  "nibble_char (unat (b :: byte) div 16) \<in> hex_digits" "nibble_char (unat b mod 16) \<in> hex_digits"
  "hex_value (nibble_char (unat b div 16)) = Some (unat b div 16)"
  "hex_value (nibble_char (unat b mod 16)) = Some (unat b mod 16)"
  using nibble_char_cases [of "unat b div 16"] nibble_char_cases [of "unat b mod 16"] unat_byte [of b]
  by (auto simp: less_mult_imp_div_less)

lemma ref_hex_lower: "hex_lower ref_ext"
  unfolding hex_lower_def
proof (intro allI)
  fix bs
  show "length (hex_encode ref_ext bs) = 2 * length bs \<and> set (hex_encode ref_ext bs) \<subseteq> hex_digits"
    by (induction bs) (simp_all add: ref_ext_def ref_hex_encode_def)
qed

lemma ref_hex_roundtrip: "hex_roundtrip ref_ext"
  unfolding hex_roundtrip_def
proof (intro allI)
  fix bs
  show "hex_decode ref_ext (hex_encode ref_ext bs) = Inr bs"
  proof (induction bs)
    case (Cons b bs)
    have "of_nat (16 * (unat b div 16) + unat b mod 16) = b"
      by (simp only: mult_div_mod_eq) simp
    then show ?case using Cons by (simp add: ref_ext_def ref_hex_encode_def)
  qed (simp add: ref_ext_def ref_hex_encode_def)
qed

text \<open>Sample values for the witnesses.\<close>

definition sample_output :: "u64 \<Rightarrow> tx_output" where
  "sample_output n = \<lparr>out_amount = n, out_address = Address ''bcs1sample''\<rparr>"

definition sample_tx :: "u64 \<Rightarrow> transaction" where
  "sample_tx n = \<lparr>tx_kind = Transfer, tx_inputs = [], tx_outputs = [sample_output n]\<rparr>"

end
