(* ===== verification/Bcc_Crypto.thy ===== *)
theory Bcc_Crypto
  imports Bcc_Codec "HOL-Library.Sublist"
begin

text \<open>
  \<open>bcc-core/src/crypto\<close> and the methods of \<open>bcc-core/src/types\<close>: SHA-256 wrappers, signature
  verification, \<open>Address\<close>, the hashes of transactions and blocks and \<open>Block::compute_merkle_root\<close>,
  with the facts that a derived address is well formed, that the Merkle loop ends in one hash and
  that the root binds the transaction list up to a hash collision and up to the duplication of the
  last leaf.
\<close>

section \<open>\<open>crypto\<close>\<close>

definition sha256 :: "ext \<Rightarrow> byte list \<Rightarrow> block_hash" where
  "sha256 E data = sha256_digest E data"

definition sha256d :: "ext \<Rightarrow> byte list \<Rightarrow> block_hash" where
  "sha256d E data = (let first = sha256_digest E data in sha256_digest E first)"

definition verify :: "ext \<Rightarrow> verifying_key \<Rightarrow> byte list \<Rightarrow> signature \<Rightarrow> bcc_error + unit" where
  "verify E pubkey msg sig =
     (case ed_verify E pubkey msg sig of Inl e \<Rightarrow> Inl (Crypto e) | Inr u \<Rightarrow> Inr u)"

lemma length_sha256d: "digest_32 E \<Longrightarrow> length (sha256d E d) = 32"
  by (simp add: digest_32_def sha256d_def)

lemma verify_sign: "sign_verifies E \<Longrightarrow> verify E (ed_public E sk) m (ed_sign E sk m) = Inr ()"
  by (simp add: sign_verifies_def verify_def)

section \<open>\<open>Address\<close>\<close>

definition PREFIX :: string where
  "PREFIX = ''bcs1''"

definition from_pubkey_bytes :: "ext \<Rightarrow> byte list \<Rightarrow> address" where
  "from_pubkey_bytes E pubkey_bytes =
     (let hash = sha256 E pubkey_bytes;
          payload = hex_encode E (take 20 hash)
      in Address (PREFIX @ payload))"

definition is_ascii_hexdigit :: "char \<Rightarrow> bool" where
  "is_ascii_hexdigit c \<longleftrightarrow>
     (CHR ''0'' \<le> c \<and> c \<le> CHR ''9'') \<or> (CHR ''a'' \<le> c \<and> c \<le> CHR ''f'') \<or>
     (CHR ''A'' \<le> c \<and> c \<le> CHR ''F'')"

definition validate_address :: "string \<Rightarrow> address_error + address" where
  "validate_address s =
     (if \<not> prefix PREFIX s then Inl InvalidPrefix
      else let payload = drop (length PREFIX) s
        in if length payload \<noteq> 40 then Inl InvalidLength
        else if list_ex (\<lambda>c. \<not> is_ascii_hexdigit c) payload then Inl InvalidCharacter
        else Inr (Address s))"

fun show_address_error :: "address_error \<Rightarrow> string" where
  "show_address_error InvalidPrefix = ''address must start with '' @ [CHR 0x27] @ PREFIX @ [CHR 0x27]"
| "show_address_error InvalidLength = ''address payload must be 40 hex characters''"
| "show_address_error InvalidCharacter = ''address contains non-hex character''"

lemma hex_digit_is_hexdigit: "c \<in> hex_digits \<Longrightarrow> is_ascii_hexdigit c"
  by (auto simp: hex_digits_def is_ascii_hexdigit_def less_eq_char_def)

section \<open>Transaction and block hashes\<close>

definition transaction_hash :: "ext \<Rightarrow> transaction \<Rightarrow> tx_hash" where
  "transaction_hash E tx = sha256d E (json_tx E tx)"

definition hash_of_block :: "ext \<Rightarrow> block \<Rightarrow> block_hash" where
  "hash_of_block E b = sha256d E (json_header E (header b))"

section \<open>Merkle root\<close>

text \<open>
  One round of the loop of \<open>compute_merkle_root\<close>: an odd layer is padded with its last leaf, then
  neighbours are hashed together.  A chunk of length one cannot occur after the padding.
\<close>

definition pad_layer :: "block_hash list \<Rightarrow> block_hash list" where
  "pad_layer layer = (if length layer mod 2 \<noteq> 0 then layer @ [last layer] else layer)"

fun hash_chunks :: "ext \<Rightarrow> block_hash list \<Rightarrow> block_hash list" where
  "hash_chunks E (a # b # rest) = sha256d E (a @ b) # hash_chunks E rest"
| "hash_chunks E _ = []"

lemma length_hash_chunks: "length (hash_chunks E layer) = length layer div 2"
  by (induction E layer rule: hash_chunks.induct) simp_all

lemma length_pad_layer: "length (pad_layer layer) = 2 * ((length layer + 1) div 2)"
  by (simp add: pad_layer_def) presburger

function merkle_loop :: "ext \<Rightarrow> block_hash list \<Rightarrow> block_hash list" where
  "merkle_loop E layer =
     (if length layer > 1 then merkle_loop E (hash_chunks E (pad_layer layer)) else layer)"
  by pat_completeness auto
termination
  by (relation "measure (\<lambda>(E, layer). length layer)")
    (auto simp: length_hash_chunks length_pad_layer)

declare merkle_loop.simps [simp del]

definition compute_merkle_root :: "ext \<Rightarrow> transaction list \<Rightarrow> block_hash" where
  "compute_merkle_root E ts =
     (if ts = [] then replicate 32 0
      else hd (merkle_loop E (map (transaction_hash E) ts)))"

lemma merkle_loop_single [simp]: "merkle_loop E [a] = [a]"
  by (subst merkle_loop.simps) simp

lemma merkle_loop_step:
  "length layer > 1 \<Longrightarrow> merkle_loop E layer = merkle_loop E (hash_chunks E (pad_layer layer))"
  by (simp add: merkle_loop.simps [of E layer])

lemma merkle_loop_length: "layer \<noteq> [] \<Longrightarrow> length (merkle_loop E layer) = 1"
proof (induction E layer rule: merkle_loop.induct)
  case (1 E layer)
  show ?case
  proof (cases "length layer > 1")
    case True
    then have "length (hash_chunks E (pad_layer layer)) > 0"
      by (simp add: length_hash_chunks length_pad_layer)
    then have "length (merkle_loop E (hash_chunks E (pad_layer layer))) = 1"
      using 1 True by blast
    then show ?thesis using True by (simp add: merkle_loop_step)
  next
    case False
    then show ?thesis using 1 by (cases layer) auto
  qed
qed

text \<open>The byte strings hashed on the way from a layer to its root.\<close>

fun chunk_inputs :: "block_hash list \<Rightarrow> byte list list" where
  "chunk_inputs (a # b # rest) = (a @ b) # chunk_inputs rest"
| "chunk_inputs _ = []"

function merkle_inputs :: "ext \<Rightarrow> block_hash list \<Rightarrow> byte list list" where
  "merkle_inputs E layer =
     (if length layer > 1
      then chunk_inputs (pad_layer layer) @ merkle_inputs E (hash_chunks E (pad_layer layer))
      else [])"
  by pat_completeness auto
termination
  by (relation "measure (\<lambda>(E, layer). length layer)")
    (auto simp: length_hash_chunks length_pad_layer)

declare merkle_inputs.simps [simp del]

lemma merkle_inputs_step:
  "length layer > 1 \<Longrightarrow> merkle_inputs E layer =
     chunk_inputs (pad_layer layer) @ merkle_inputs E (hash_chunks E (pad_layer layer))"
  by (simp add: merkle_inputs.simps [of E layer])

lemma hash_chunks_inject:
  assumes "length xs = length ys" and "even (length xs)"
    and "\<forall>h \<in> set xs \<union> set ys. length h = n"
    and "hash_chunks E xs = hash_chunks E ys"
    and "inj_on (sha256d E) (set (chunk_inputs xs) \<union> set (chunk_inputs ys))"
  shows "xs = ys"
  using assms
proof (induction E xs arbitrary: ys rule: hash_chunks.induct)
  case (1 E a b rest)
  from "1.prems"(1) obtain c d rest' where ys: "ys = c # d # rest'"
    by (cases ys; cases "tl ys") auto
  have "a @ b = c @ d"
    by (rule inj_onD [OF "1.prems"(5)]) (use "1.prems"(4) ys in simp_all)
  moreover have "inj_on (sha256d E) (set (chunk_inputs rest) \<union> set (chunk_inputs rest'))"
    by (rule inj_on_subset [OF "1.prems"(5)]) (auto simp: ys)
  then have "rest = rest'"
    by (rule "1.IH" [rotated -1]) (use "1.prems"(1-4) ys in simp_all)
  ultimately show ?case using "1.prems"(3) ys by simp
qed auto

lemma pad_layer_inject: "length xs = length ys \<Longrightarrow> pad_layer xs = pad_layer ys \<Longrightarrow> xs = ys"
  by (auto simp: pad_layer_def split: if_splits)

lemma set_pad_layer: "layer \<noteq> [] \<Longrightarrow> set (pad_layer layer) = set layer"
  by (auto simp: pad_layer_def)

lemma hash_chunks_32: "digest_32 E \<Longrightarrow> h \<in> set (hash_chunks E xs) \<Longrightarrow> length h = 32"
  by (induction E xs rule: hash_chunks.induct) (auto simp: length_sha256d)

lemma merkle_loop_inject:
  assumes "digest_32 E" and "length xs = length ys" and "xs \<noteq> []"
    and "\<forall>h \<in> set xs \<union> set ys. length h = 32"
    and "merkle_loop E xs = merkle_loop E ys"
    and "inj_on (sha256d E) (set (merkle_inputs E xs) \<union> set (merkle_inputs E ys))"
  shows "xs = ys"
  using assms
proof (induction E xs arbitrary: ys rule: merkle_loop.induct)
  case (1 E xs)
  show ?case
  proof (cases "length xs > 1")
    case False
    then obtain a b where "xs = [a]" and "ys = [b]"
      using "1.prems" by (cases xs; cases ys) auto
    then show ?thesis using "1.prems" by simp
  next
    case True
    let ?xs = "pad_layer xs" and ?ys = "pad_layer ys"
    have ne: "ys \<noteq> []" and len: "length ?xs = length ?ys" "even (length ?xs)"
      using True "1.prems" by (auto simp: length_pad_layer)
    have ly: "length ys > 1" using True "1.prems"(2) by simp
    note steps = merkle_loop_step [OF True] merkle_loop_step [OF ly]
      merkle_inputs_step [OF True] merkle_inputs_step [OF ly]
    have inj: "inj_on (sha256d E) (set (chunk_inputs ?xs) \<union> set (chunk_inputs ?ys))"
      "inj_on (sha256d E) (set (merkle_inputs E (hash_chunks E ?xs)) \<union>
         set (merkle_inputs E (hash_chunks E ?ys)))"
      by (rule inj_on_subset [OF "1.prems"(6)]; auto simp: steps)+
    have "hash_chunks E ?xs \<noteq> []"
      using True by (simp add: length_hash_chunks length_pad_layer flip: length_greater_0_conv)
    moreover have "\<forall>h \<in> set (hash_chunks E ?xs) \<union> set (hash_chunks E ?ys). length h = 32"
      using hash_chunks_32 [OF "1.prems"(1)] by blast
    ultimately have chunks: "hash_chunks E ?xs = hash_chunks E ?ys"
      by (intro "1.IH" [OF True "1.prems"(1) _ _ _ _ inj(2)])
        (use "1.prems"(5) len in \<open>simp_all add: steps length_hash_chunks\<close>)
    have "\<forall>h \<in> set ?xs \<union> set ?ys. length h = 32"
      using "1.prems"(3,4) ne by (simp add: set_pad_layer)
    then have "?xs = ?ys"
      using hash_chunks_inject [OF len _ chunks inj(1)] by blast
    then show ?thesis using "1.prems"(2) by (rule pad_layer_inject [rotated])
  qed
qed

section \<open>Properties\<close>

text \<open>
  An address derived from a public key is \<open>bcs1\<close> followed by 40 hex digits, and
  \<open>Address::validate\<close> accepts its string and gives the same address back.
\<close>

lemma derived_address_validates:
  assumes "digest_32 E" and "hex_lower E"
  shows "validate_address (as_str (from_pubkey_bytes E k)) = Inr (from_pubkey_bytes E k) \<and>
    length (as_str (from_pubkey_bytes E k)) = 44"
proof -
  let ?p = "hex_encode E (take 20 (sha256 E k))"
  have "length ?p = 40" and "set ?p \<subseteq> hex_digits"
    using assms by (auto simp: hex_lower_def digest_32_def sha256_def)
  moreover from this(2) have "\<forall>c \<in> set ?p. is_ascii_hexdigit c"
    by (blast intro: hex_digit_is_hexdigit)
  ultimately show ?thesis
    by (auto simp: from_pubkey_bytes_def validate_address_def PREFIX_def list_ex_iff Let_def)
qed



text \<open>
  The Bitcoin-style padding makes the root ambiguous: repeating the last transaction of
  a list of odd length greater than one does not change the root.
\<close>

lemma merkle_root_duplicate_last:
  assumes "odd (length ts)" and "length ts > 1"
  shows "compute_merkle_root E (ts @ [last ts]) = compute_merkle_root E ts"
proof -
  let ?l = "map (transaction_hash E) ts"
  have ne: "ts \<noteq> []" using assms(2) by auto
  have pad: "pad_layer ?l = ?l @ [last ?l]"
    using assms by (simp add: pad_layer_def odd_iff_mod_2_eq_one)
  have "pad_layer (?l @ [last ?l]) = ?l @ [last ?l]"
    using assms by (simp add: pad_layer_def)
  then have "merkle_loop E (?l @ [last ?l]) = merkle_loop E ?l"
    using assms ne pad by (simp add: merkle_loop_step)
  then show ?thesis using ne by (simp add: compute_merkle_root_def last_map)
qed

end
