(* ===== verification/Bcc_Consensus.thy ===== *)
theory Bcc_Consensus
  imports Bcc_Crypto
begin

text \<open>
  Proof-of-stake election, \<open>bcc-core/src/consensus/pos.rs\<close>.  The scan is the source's loop with its
  wrapping accumulator; its reference is the stake line, on which every validator owns the half-open
  segment between two partial sums.  Shown: the election returns nobody only when the (wrapped) total
  stake is zero, the elected validator comes from the list, the scan agrees with the segments, and
  every validator owns exactly as many points as it has stake.
\<close>

fun elect_scan :: "u64 \<Rightarrow> u64 \<Rightarrow> validator list \<Rightarrow> validator option" where
  "elect_scan pick acc [] = None"
| "elect_scan pick acc (v # vs) =
     (let acc' = acc + v_stake v
      in if pick < acc' then Some v else elect_scan pick acc' vs)"

definition elect_proposer :: "ext \<Rightarrow> u64 \<Rightarrow> block_hash \<Rightarrow> validator list \<Rightarrow> validator option" where
  "elect_proposer E slot_nr prev validators =
     (if validators = [] then None
      else let total_stake = sum_list (map v_stake validators)
        in if total_stake = 0 then None
        else let seed_input = prev @ to_le_bytes slot_nr;
                 seed = sha256d E seed_input;
                 pick = from_le_bytes (take 8 seed) mod total_stake
          in elect_scan pick 0 validators)"

section \<open>The scan\<close>

definition stake_sum :: "validator list \<Rightarrow> nat" where
  "stake_sum vs = sum_list (map (unat \<circ> v_stake) vs)"

lemma stake_sum_simps [simp]:
  "stake_sum [] = 0" "stake_sum (v # vs) = unat (v_stake v) + stake_sum vs"
  "stake_sum (vs @ ws) = stake_sum vs + stake_sum ws"
  by (simp_all add: stake_sum_def)

lemma elect_scan_member: "elect_scan p a vs = Some v \<Longrightarrow> v \<in> set vs"
  by (induction p a vs rule: elect_scan.induct) (auto simp: Let_def split: if_splits)

text \<open>The last accumulator value is the wrapped total, so a point below it is always found.\<close>

lemma elect_scan_total:
  "vs \<noteq> [] \<Longrightarrow> p < a + sum_list (map v_stake vs) \<Longrightarrow> elect_scan p a vs \<noteq> None"
proof (induction p a vs rule: elect_scan.induct)
  case (2 p a v vs)
  then show ?case by (cases "vs = []") (auto simp: Let_def add.assoc)
qed simp

text \<open>
  Without overflow, the scan finds the validator whose segment holds the point: the stakes before
  it sum to at most the point and the stakes up to it to more.
\<close>

lemma elect_scan_segment:
  assumes "unat a + stake_sum vs \<le> u64_max" and "i < length vs"
    and "unat a + stake_sum (take i vs) \<le> unat p"
    and "unat p < unat a + stake_sum (take (Suc i) vs)"
  shows "elect_scan p a vs = Some (vs ! i)"
  using assms
proof (induction p a vs arbitrary: i rule: elect_scan.induct)
  case (2 p a v vs)
  have acc: "unat (a + v_stake v) = unat a + unat (v_stake v)"
    using "2.prems"(1) by (simp add: unat_word_ariths u64_max_def)
  show ?case
  proof (cases i)
    case 0
    then show ?thesis using "2.prems" acc by (simp add: word_less_nat_alt)
  next
    case (Suc j)
    then have "\<not> p < a + v_stake v"
      using "2.prems" acc by (simp add: word_less_nat_alt)
    moreover have "elect_scan p (a + v_stake v) vs = Some (vs ! j)"
      using "2.prems" Suc acc \<open>\<not> p < a + v_stake v\<close> by (intro "2.IH") auto
    ultimately show ?thesis using Suc by simp
  qed
qed simp

lemma segment_exists:
  "p < stake_sum vs \<Longrightarrow> \<exists>i < length vs. stake_sum (take i vs) \<le> p \<and> p < stake_sum (take (Suc i) vs)"
proof (induction vs arbitrary: p)
  case (Cons v vs)
  show ?case
  proof (cases "p < unat (v_stake v)")
    case False
    then have "p - unat (v_stake v) < stake_sum vs" using Cons.prems by simp
    then obtain i where "i < length vs" "stake_sum (take i vs) \<le> p - unat (v_stake v)"
      "p - unat (v_stake v) < stake_sum (take (Suc i) vs)"
      using Cons.IH by blast
    then show ?thesis using False by (intro exI [of _ "Suc i"]) auto
  qed (auto intro!: exI [of _ 0])
qed simp

lemma stake_sum_take_mono: "i \<le> j \<Longrightarrow> stake_sum (take i vs) \<le> stake_sum (take j vs)"
proof -
  assume "i \<le> j"
  then have "take j vs = take i vs @ drop i (take j vs)"
    by (metis append_take_drop_id min.absorb1 take_take)
  then show ?thesis by (metis le_add1 stake_sum_simps(3))
qed

text \<open>With distinct validators, exactly the points of the segment elect its owner.\<close>

lemma elect_scan_iff:
  assumes "stake_sum vs \<le> u64_max" and "distinct vs" and "i < length vs"
    and "unat p < stake_sum vs"
  shows "elect_scan p 0 vs = Some (vs ! i) \<longleftrightarrow>
    stake_sum (take i vs) \<le> unat p \<and> unat p < stake_sum (take (Suc i) vs)"
proof -
  obtain j where j: "j < length vs" "stake_sum (take j vs) \<le> unat p"
    "unat p < stake_sum (take (Suc j) vs)"
    using segment_exists [OF assms(4)] by blast
  then have e: "elect_scan p 0 vs = Some (vs ! j)"
    using assms(1) by (intro elect_scan_segment) simp_all
  show ?thesis
  proof
    assume "elect_scan p 0 vs = Some (vs ! i)"
    then have "i = j" using e assms(2,3) j(1) by (simp add: nth_eq_iff_index_eq)
    then show "stake_sum (take i vs) \<le> unat p \<and> unat p < stake_sum (take (Suc i) vs)"
      using j by simp
  next
    assume "stake_sum (take i vs) \<le> unat p \<and> unat p < stake_sum (take (Suc i) vs)"
    then show "elect_scan p 0 vs = Some (vs ! i)"
      using assms by (intro elect_scan_segment) simp_all
  qed
qed

lemma card_word_interval:
  assumes "b \<le> u64_max"
  shows "card {p :: u64. a \<le> unat p \<and> unat p < b} = b - a"
proof -
  have "bij_betw unat {p :: u64. a \<le> unat p \<and> unat p < b} {a..<b}"
  proof (rule bij_betw_byWitness [where f' = of_nat])
    show "\<forall>n \<in> {a..<b}. unat (of_nat n :: u64) = n"
      using assms by (auto simp: u64_max_def unat_of_nat)
    then show "of_nat ` {a..<b} \<subseteq> {p :: u64. a \<le> unat p \<and> unat p < b}"
      by auto
  qed auto
  then show ?thesis by (simp add: bij_betw_same_card)
qed

lemma elect_none_iff:
  "elect_proposer E s h vs = None \<longleftrightarrow> sum_list (map v_stake vs) = 0"
proof (cases "sum_list (map v_stake vs) = 0")
  case False
  let ?t = "sum_list (map v_stake vs)"
  have "from_le_bytes (take 8 (sha256d E (h @ to_le_bytes s))) mod ?t < ?t"
    using False by (simp add: word_gt_0 word_mod_less_divisor)
  moreover have "vs \<noteq> []" using False by auto
  ultimately show ?thesis
    using False elect_scan_total [of vs _ 0] by (simp add: elect_proposer_def Let_def)
qed (auto simp: elect_proposer_def)

lemma elect_member: "elect_proposer E s h vs = Some v \<Longrightarrow> v \<in> set vs"
  by (auto simp: elect_proposer_def Let_def dest: elect_scan_member split: if_splits)

section \<open>Properties\<close>

text \<open>
  When the total stake fits in 64 bits, the elected validator is a member of the list
  with positive stake.
\<close>

lemma elected_has_stake:
  assumes "elect_proposer E s h vs = Some v" and "stake_sum vs \<le> u64_max"
  shows "v \<in> set vs \<and> 0 < v_stake v"
proof -
  define t where "t = sum_list (map v_stake vs)"
  define p where "p = from_le_bytes (take 8 (sha256d E (h @ to_le_bytes s))) mod t"
  have scan: "elect_scan p 0 vs = Some v" and "t \<noteq> 0"
    using assms(1) by (auto simp: elect_proposer_def t_def p_def Let_def split: if_splits)
  have "unat t = stake_sum vs"
    using assms(2) unat_sum_list_small [of "map v_stake vs"] by (simp add: t_def stake_sum_def)
  moreover have "p < t"
    using \<open>t \<noteq> 0\<close> by (simp add: p_def word_gt_0 word_mod_less_divisor)
  ultimately have "unat p < stake_sum vs" by (simp add: word_less_nat_alt)
  then obtain i where i: "i < length vs" "stake_sum (take i vs) \<le> unat p"
    "unat p < stake_sum (take (Suc i) vs)"
    using segment_exists by blast
  then have "v = vs ! i"
    using elect_scan_segment [of 0 vs i p] assms(2) scan by simp
  moreover have "v_stake (vs ! i) \<noteq> 0"
    using i by (auto simp: take_Suc_conv_app_nth)
  ultimately show ?thesis using i(1) by (simp add: word_gt_0)
qed

text \<open>
  Claim C9: the election is weighted by stake.  Of the points below the total stake, exactly
  \<open>stake\<close> many elect a given validator (distinct validators, total stake within 64 bits).
\<close>

theorem election_is_weighted:
  assumes "stake_sum vs \<le> u64_max" and "distinct vs" and "v \<in> set vs"
  shows "card {p. unat p < stake_sum vs \<and> elect_scan p 0 vs = Some v} = unat (v_stake v)"
proof -
  obtain i where i: "i < length vs" "v = vs ! i"
    using assms(3) by (auto simp: in_set_conv_nth)
  have up: "stake_sum (take (Suc i) vs) \<le> stake_sum vs"
    using stake_sum_take_mono [of "Suc i" "length vs" vs] i(1) by simp
  have "{p. unat p < stake_sum vs \<and> elect_scan p 0 vs = Some v} =
      {p. stake_sum (take i vs) \<le> unat p \<and> unat p < stake_sum (take (Suc i) vs)}"
    using elect_scan_iff [OF assms(1,2) i(1)] i(2) up by auto
  then show ?thesis
    using up assms(1) i by (simp add: card_word_interval take_Suc_conv_app_nth)
qed

definition sample_validator :: "byte \<Rightarrow> u64 \<Rightarrow> validator" where
  "sample_validator k n = \<lparr>v_address = from_pubkey_bytes ref_ext [k], v_pubkey = [k],
     v_stake = n, v_active_since = 0\<rparr>"

theorem election_is_weighted_witness:
  "card {p. unat p < stake_sum [sample_validator 1 5, sample_validator 2 9] \<and>
      elect_scan p 0 [sample_validator 1 5, sample_validator 2 9] = Some (sample_validator 2 9)} = 9"
  using election_is_weighted [of "[sample_validator 1 5, sample_validator 2 9]" "sample_validator 2 9"]
  by (simp add: sample_validator_def u64_max_def)

end
