(* ===== verification/Bcc_Store.thy ===== *)
theory Bcc_Store
  imports Bcc_Crypto
begin

text \<open>
  The storage traits of \<open>bcc-core/src/store/mod.rs\<close>.  A trait object is a record of its methods over
  a store type \<open>'s\<close>; a method that writes returns the new store beside its result, since a failing
  write may have changed part of the store.  The abstract UTXO set and the effect of a block on it
  are the specification, and the locales \<open>block_iface\<close>, \<open>utxo_iface\<close>, \<open>validator_iface\<close> and
  \<open>chain_store\<close> state what the traits promise; the in-memory store and the sled store both provide
  them.
\<close>

section \<open>Traits\<close>

datatype store_error = NotFound | Backend string

type_synonym 'a store_result = "store_error + 'a"

fun show_store_error :: "store_error \<Rightarrow> string" where
  "show_store_error NotFound = ''entry not found''"
| "show_store_error (Backend m) = ''storage backend error: '' @ m"

record 's block_store =
  bs_get_by_height :: "'s \<Rightarrow> u64 \<Rightarrow> block option store_result"
  bs_get_by_hash :: "'s \<Rightarrow> block_hash \<Rightarrow> block option store_result"
  bs_insert :: "'s \<Rightarrow> block \<Rightarrow> 's \<times> unit store_result"
  bs_tip :: "'s \<Rightarrow> (u64 \<times> block_hash) option store_result"
  bs_iter_from :: "'s \<Rightarrow> u64 \<Rightarrow> block list store_result"

record 's utxo_store =
  us_get :: "'s \<Rightarrow> tx_out_ref \<Rightarrow> tx_output option store_result"
  us_apply_block :: "'s \<Rightarrow> block \<Rightarrow> 's \<times> unit store_result"
  us_rollback_block :: "'s \<Rightarrow> block \<Rightarrow> 's \<times> unit store_result"
  us_balance :: "'s \<Rightarrow> address \<Rightarrow> u64 store_result"
  us_list_utxos :: "'s \<Rightarrow> address \<Rightarrow> (tx_out_ref \<times> tx_output) list store_result"

record 's validator_store =
  vs_get :: "'s \<Rightarrow> address \<Rightarrow> validator option store_result"
  vs_all_active :: "'s \<Rightarrow> u64 \<Rightarrow> validator list store_result"
  vs_upsert :: "'s \<Rightarrow> validator \<Rightarrow> 's \<times> unit store_result"

text \<open>
  The text both implementations of \<open>upsert\<close> put into their error, and the check it reports.
\<close>

definition upsert_mismatch :: "validator \<Rightarrow> address \<Rightarrow> string" where
  "upsert_mismatch v expected = ''validator address '' @ as_str (v_address v) @
     '' does not match pubkey (expected '' @ as_str expected @ '')''"

section \<open>The abstract UTXO set\<close>

type_synonym utxo_map = "tx_out_ref \<rightharpoonup> tx_output"

definition out_ref_at :: "ext \<Rightarrow> transaction \<Rightarrow> nat \<Rightarrow> tx_out_ref" where
  "out_ref_at E tx i = \<lparr>ref_tx_hash = transaction_hash E tx, ref_index = of_nat i\<rparr>"

definition tx_refs :: "transaction \<Rightarrow> tx_out_ref list" where
  "tx_refs tx = map in_out_ref (tx_inputs tx)"

definition block_refs :: "block \<Rightarrow> tx_out_ref list" where
  "block_refs b = concat (map tx_refs (txs b))"

definition tx_created :: "ext \<Rightarrow> transaction \<Rightarrow> (tx_out_ref \<times> tx_output) list" where
  "tx_created E tx = map (\<lambda>(i, t). (out_ref_at E tx i, t)) (enumerate 0 (tx_outputs tx))"

definition block_created :: "ext \<Rightarrow> block \<Rightarrow> (tx_out_ref \<times> tx_output) list" where
  "block_created E b = concat (map (tx_created E) (txs b))"

definition map_insert_all :: "('k \<times> 'v) list \<Rightarrow> ('k \<rightharpoonup> 'v) \<Rightarrow> ('k \<rightharpoonup> 'v)" where
  "map_insert_all kvs m = fold (\<lambda>(k, v) m. m(k \<mapsto> v)) kvs m"

definition map_remove_all :: "'k list \<Rightarrow> ('k \<rightharpoonup> 'v) \<Rightarrow> ('k \<rightharpoonup> 'v)" where
  "map_remove_all ks m = fold (\<lambda>k m. m(k := None)) ks m"

definition utxo_apply_tx :: "ext \<Rightarrow> transaction \<Rightarrow> utxo_map \<Rightarrow> utxo_map" where
  "utxo_apply_tx E tx U = map_insert_all (tx_created E tx) (map_remove_all (tx_refs tx) U)"

definition utxo_apply :: "ext \<Rightarrow> block \<Rightarrow> utxo_map \<Rightarrow> utxo_map" where
  "utxo_apply E b U = fold (utxo_apply_tx E) (txs b) U"

text \<open>
  What a block needs for its effect to be invertible: it spends outputs of the set it is applied
  to and creates references that are new to it (no transaction hash repeats an earlier one).
\<close>

definition block_applicable :: "ext \<Rightarrow> utxo_map \<Rightarrow> block \<Rightarrow> bool" where
  "block_applicable E U b \<longleftrightarrow>
     set (block_refs b) \<subseteq> dom U \<and> fst ` set (block_created E b) \<inter> dom U = {}"

lemma map_remove_all_apply: "map_remove_all ks m k = (if k \<in> set ks then None else m k)"
  by (induction ks arbitrary: m) (auto simp: map_remove_all_def)

lemma map_remove_all_simps [simp]:
  "map_remove_all [] m = m" "map_remove_all (k # ks) m = map_remove_all ks (m(k := None))"
  by (simp_all add: map_remove_all_def)

lemma map_insert_all_simps [simp]:
  "map_insert_all [] m = m" "map_insert_all ((k, v) # kvs) m = map_insert_all kvs (m(k \<mapsto> v))"
  "map_insert_all (kvs @ kvs') m = map_insert_all kvs' (map_insert_all kvs m)"
  by (simp_all add: map_insert_all_def)

lemma map_insert_all_notin: "k \<notin> fst ` set kvs \<Longrightarrow> map_insert_all kvs m k = m k"
  by (induction kvs arbitrary: m) auto

lemma map_insert_all_conv: "map_insert_all kvs m = m ++ map_of (rev kvs)"
  by (induction kvs arbitrary: m) (auto simp: map_add_upd_left map_of_append fun_eq_iff map_add_def
      split: option.splits)

lemma dom_map_insert_all: "dom (map_insert_all kvs m) = dom m \<union> fst ` set kvs"
  by (simp add: map_insert_all_conv dom_map_of_conv_image_fst Un_commute)

lemma map_insert_all_functional:
  assumes "\<forall>(k, v) \<in> set kvs. f k = Some v"
  shows "map_insert_all kvs m k = (if k \<in> fst ` set kvs then f k else m k)"
  using assms
proof (induction kvs rule: rev_induct)
  case (snoc kv kvs)
  then show ?case by (cases kv) auto
qed simp

lemma map_remove_insert_commute:
  "set ks \<inter> fst ` set kvs = {} \<Longrightarrow>
   map_remove_all ks (map_insert_all kvs m) = map_insert_all kvs (map_remove_all ks m)"
proof
  fix k
  assume "set ks \<inter> fst ` set kvs = {}"
  then have "k \<in> set ks \<Longrightarrow> map_of (rev kvs) k = None"
    by (auto simp: map_of_eq_None_iff)
  then show "map_remove_all ks (map_insert_all kvs m) k = map_insert_all kvs (map_remove_all ks m) k"
    by (auto simp: map_insert_all_conv map_add_def map_remove_all_apply split: option.splits)
qed

lemma map_remove_all_append: "map_remove_all (ks @ ks') m = map_remove_all ks' (map_remove_all ks m)"
  by (simp add: map_remove_all_def)

lemma utxo_apply_txs_closed:
  assumes "set (concat (map tx_refs ts)) \<inter> fst ` set (concat (map (tx_created E) ts)) = {}"
  shows "fold (utxo_apply_tx E) ts U =
    map_insert_all (concat (map (tx_created E) ts)) (map_remove_all (concat (map tx_refs ts)) U)"
  using assms
proof (induction ts arbitrary: U)
  case (Cons t ts)
  let ?R = "concat (map tx_refs ts)" and ?C = "concat (map (tx_created E) ts)"
  have "set ?R \<inter> fst ` set ?C = {}" using Cons.prems by auto
  then have "fold (utxo_apply_tx E) (t # ts) U = map_insert_all ?C (map_remove_all ?R (utxo_apply_tx E t U))"
    by (simp only: fold_simps Cons.IH)
  also have "map_remove_all ?R (utxo_apply_tx E t U) =
      map_insert_all (tx_created E t) (map_remove_all ?R (map_remove_all (tx_refs t) U))"
    unfolding utxo_apply_tx_def using Cons.prems by (intro map_remove_insert_commute) auto
  finally show ?case by (simp add: map_remove_all_append)
qed simp

lemma block_applicable_disjoint:
  "block_applicable E U b \<Longrightarrow>
   set (concat (map tx_refs (txs b))) \<inter> fst ` set (concat (map (tx_created E) (txs b))) = {}"
  unfolding block_applicable_def block_refs_def block_created_def by blast

lemma map_fst_tx_created:
  "map fst (tx_created E tx) = map (out_ref_at E tx) [0..<length (tx_outputs tx)]"
  by (rule nth_equalityI) (simp_all add: tx_created_def nth_enumerate_eq)

text \<open>An applicable block removes what it spends and adds what it creates, in any order.\<close>

lemma utxo_apply_closed:
  assumes "block_applicable E U b"
  shows "utxo_apply E b U = map_insert_all (block_created E b) (map_remove_all (block_refs b) U)"
  using utxo_apply_txs_closed [OF block_applicable_disjoint [OF assms]]
  by (simp add: utxo_apply_def block_created_def block_refs_def)

lemma image_fst_lookup:
  assumes "A \<subseteq> dom U"
  shows "fst ` {(r, t). r \<in> A \<and> U r = Some t} = A"
proof (intro equalityI subsetI)
  fix r assume "r \<in> A"
  then obtain t where "U r = Some t" using assms by blast
  then show "r \<in> fst ` {(r, t). r \<in> A \<and> U r = Some t}"
    using \<open>r \<in> A\<close> by (intro image_eqI [of _ _ "(r, t)"]) simp_all
qed auto

text \<open>
  Taking the created references away and putting the spent outputs back gives the old set: what
  \<open>rollback_block\<close> has to do.
\<close>

lemma utxo_rollback_restores:
  assumes "block_applicable E U b" and "set spent = {(r, t). r \<in> set (block_refs b) \<and> U r = Some t}"
    and "set gone = fst ` set (block_created E b)"
  shows "map_insert_all spent (map_remove_all gone (utxo_apply E b U)) = U"
proof
  fix r
  have "fst ` set spent = set (block_refs b)"
    using image_fst_lookup [of "set (block_refs b)" U] assms(1,2) by (simp add: block_applicable_def)
  moreover have "\<forall>(k, v) \<in> set spent. U k = Some v" using assms(2) by auto
  ultimately have "map_insert_all spent m r = (if r \<in> set (block_refs b) then U r else m r)" for m
    by (simp add: map_insert_all_functional)
  moreover have "r \<notin> set (block_refs b) \<Longrightarrow> map_remove_all gone (utxo_apply E b U) r = U r"
  proof (cases "r \<in> set gone")
    case True
    then have "U r = None" using assms(1,3) by (auto simp: block_applicable_def)
    then show ?thesis using True by (simp add: map_remove_all_apply)
  next
    case False
    then show "r \<notin> set (block_refs b) \<Longrightarrow> ?thesis"
      using utxo_apply_closed [OF assms(1)] assms(3)
      by (simp add: map_insert_all_notin map_remove_all_apply)
  qed
  ultimately show "map_insert_all spent (map_remove_all gone (utxo_apply E b U)) r = U r"
    by simp
qed

section \<open>What the traits promise\<close>

text \<open>Blocks: a map from heights, with the tip at the last insertion that extended it.\<close>

locale block_iface =
  fixes E :: ext and B :: "'s block_store" and babs :: "'s \<Rightarrow> u64 \<rightharpoonup> block" and inv :: "'s \<Rightarrow> bool"
  assumes get_by_height: "inv s \<Longrightarrow> bs_get_by_height B s h = Inr (babs s h)"
    and insert_ok: "inv s \<Longrightarrow> \<exists>s'. bs_insert B s b = (s', Inr ()) \<and> inv s' \<and>
      babs s' = (babs s)(height (header b) \<mapsto> b) \<and> bs_get_by_hash B s' (hash_of_block E b) = Inr (Some b)"
    and tip_insert: "inv s \<Longrightarrow> bs_insert B s b = (s', Inr ()) \<Longrightarrow>
      \<forall>h \<in> dom (babs s). h \<le> height (header b) \<Longrightarrow>
      bs_tip B s' = Inr (Some (height (header b), hash_of_block E b))"
    and reads_ok: "inv s \<Longrightarrow> (\<exists>t. bs_tip B s = Inr t) \<and> (\<exists>x. bs_get_by_hash B s g = Inr x)"
    and babs_height: "inv s \<Longrightarrow> babs s h = Some b \<Longrightarrow> height (header b) = h"
    and iter_from: "inv s \<Longrightarrow> \<exists>bs. bs_iter_from B s h = Inr bs \<and>
      sorted_wrt (<) (map (height \<circ> header) bs) \<and> set bs = {b. \<exists>k \<ge> h. babs s k = Some b}"

text \<open>Unspent outputs.\<close>

locale utxo_iface =
  fixes E :: ext and U :: "'s utxo_store" and uabs :: "'s \<Rightarrow> utxo_map" and inv :: "'s \<Rightarrow> bool"
  assumes utxo_get: "inv s \<Longrightarrow> us_get U s r = Inr (uabs s r)"
    and apply_ok: "inv s \<Longrightarrow> \<exists>s'. us_apply_block U s b = (s', Inr ()) \<and> inv s' \<and>
      uabs s' = utxo_apply E b (uabs s)"
    and rollback_ok: "inv s \<Longrightarrow> block_applicable E (uabs s) b \<Longrightarrow>
      us_apply_block U s b = (s', Inr ()) \<Longrightarrow>
      \<exists>s''. us_rollback_block U s' b = (s'', Inr ()) \<and> inv s'' \<and> uabs s'' = uabs s"
    and list_utxos: "inv s \<Longrightarrow> \<exists>xs. us_list_utxos U s a = Inr xs \<and> distinct (map fst xs) \<and>
      set xs = {(r, t). uabs s r = Some t \<and> out_address t = a}"
    and balance: "inv s \<Longrightarrow> us_list_utxos U s a = Inr xs \<Longrightarrow>
      sum_list (map (unat \<circ> out_amount \<circ> snd) xs) \<le> u64_max \<Longrightarrow>
      us_balance U s a = Inr (sum_list (map (out_amount \<circ> snd) xs))"

text \<open>The validator registry, listed in address order.\<close>

locale validator_iface =
  fixes E :: ext and V :: "'s validator_store" and vabs :: "'s \<Rightarrow> address \<rightharpoonup> validator"
    and inv :: "'s \<Rightarrow> bool"
  assumes validator_get: "inv s \<Longrightarrow> vs_get V s a = Inr (vabs s a)"
    and upsert_ok: "inv s \<Longrightarrow> v_address v = from_pubkey_bytes E (v_pubkey v) \<Longrightarrow>
      \<exists>s'. vs_upsert V s v = (s', Inr ()) \<and> inv s' \<and> vabs s' = (vabs s)(v_address v \<mapsto> v)"
    and upsert_mismatch: "v_address v \<noteq> from_pubkey_bytes E (v_pubkey v) \<Longrightarrow>
      vs_upsert V s v = (s, Inl (Backend (upsert_mismatch v (from_pubkey_bytes E (v_pubkey v)))))"
    and vabs_address: "inv s \<Longrightarrow> vabs s a = Some v \<Longrightarrow>
      v_address v = a \<and> a = from_pubkey_bytes E (v_pubkey v)"
    and all_active: "inv s \<Longrightarrow> \<exists>vs. vs_all_active V s n = Inr vs \<and>
      sorted_wrt (<) (map v_address vs) \<and>
      set vs = {v. vabs s (v_address v) = Some v \<and> v_active_since v \<le> n \<and> 0 < v_stake v}"

text \<open>
  One store behind the three traits, as \<open>main.rs\<close> sets it up: the traits do not disturb each
  other, except that \<open>rollback_block\<close> may forget blocks at the height it reverts.
\<close>

locale chain_store =
  block_iface E B babs inv + utxo_iface E U uabs inv + validator_iface E V vabs inv
  for E :: ext and B :: "'s block_store" and babs and U :: "'s utxo_store" and uabs
    and V :: "'s validator_store" and vabs and inv +
  assumes insert_frame: "inv s \<Longrightarrow> bs_insert B s b = (s', r) \<Longrightarrow> uabs s' = uabs s \<and> vabs s' = vabs s"
    and apply_frame: "inv s \<Longrightarrow> us_apply_block U s b = (s', r) \<Longrightarrow> babs s' = babs s \<and> vabs s' = vabs s"
    and apply_tip: "inv s \<Longrightarrow> us_apply_block U s b = (s', r) \<Longrightarrow> bs_tip B s' = bs_tip B s \<and>
      (\<forall>h. bs_get_by_hash B s' h = bs_get_by_hash B s h)"
    and rollback_frame: "inv s \<Longrightarrow> us_rollback_block U s b = (s', r) \<Longrightarrow> vabs s' = vabs s \<and>
      (\<forall>h. h \<noteq> height (header b) \<longrightarrow> babs s' h = babs s h) \<and>
      dom (babs s') \<subseteq> dom (babs s)"
    and upsert_frame: "inv s \<Longrightarrow> vs_upsert V s v = (s', r) \<Longrightarrow> babs s' = babs s \<and> uabs s' = uabs s \<and>
      bs_tip B s' = bs_tip B s \<and> (\<forall>h. bs_get_by_hash B s' h = bs_get_by_hash B s h)"
    and rollback_total: "inv s \<Longrightarrow> us_rollback_block U s b = (s', r) \<Longrightarrow> r = Inr () \<and> inv s'"

text \<open>Sample blocks for the witnesses: one creates an output, the next spends it.\<close>

definition sample_spend :: "u64 \<Rightarrow> u64 \<Rightarrow> transaction" where
  "sample_spend n m = \<lparr>tx_kind = Transfer,
     tx_inputs = [\<lparr>in_out_ref = out_ref_at ref_ext (sample_tx n) 0, in_signature = [], in_pubkey = []\<rparr>],
     tx_outputs = [sample_output m]\<rparr>"

definition sample_block :: "u64 \<Rightarrow> transaction list \<Rightarrow> block" where
  "sample_block h ts = \<lparr>header = \<lparr>prev_hash = [], merkle_root = [], timestamp = 0, height = h, slot = 0,
     proposer = Address ''bcs1sample''\<rparr>, block_signature = [], txs = ts\<rparr>"

lemma sample_block_simps [simp]:
  "height (header (sample_block h ts)) = h" "txs (sample_block h ts) = ts"
  by (simp_all add: sample_block_def)

lemma sample_hashes_differ:
  "transaction_hash ref_ext (sample_spend 5 4) \<noteq> transaction_hash ref_ext (sample_tx 5)"
  by code_simp

lemma sample_applicable:
  "block_applicable ref_ext (utxo_apply ref_ext (sample_block 0 [sample_tx 5]) Map.empty)
     (sample_block 1 [sample_spend 5 4])"
  using sample_hashes_differ
  by (auto simp: block_applicable_def utxo_apply_def utxo_apply_tx_def block_refs_def tx_refs_def
      block_created_def tx_created_def sample_block_def out_ref_at_def)
    (auto simp: sample_spend_def sample_tx_def out_ref_at_def split: if_splits)

end
