(* ===== verification/Bcc_Memory_Store.thy ===== *)
theory Bcc_Memory_Store
  imports Bcc_Store
begin

text \<open>
  \<open>bcc-core/src/store/memory.rs\<close>: the in-memory store, five maps each behind an \<open>RwLock\<close>.  A
  poisoned lock makes an operation fail with \<open>StoreError::Backend\<close>, possibly after an earlier write.
  The theory ends with the proof that the store provides \<open>chain_store\<close>.
\<close>

section \<open>State\<close>

datatype 'a rwlock = RwLock (poisoned: bool) (guarded: 'a)

definition lock_err :: store_error where
  "lock_err = Backend ''poisoned lock: another task failed inside''"

definition rw_lock :: "'a rwlock \<Rightarrow> 'a store_result" where
  "rw_lock l = (if poisoned l then Inl lock_err else Inr (guarded l))"

abbreviation rw_set :: "'a rwlock \<Rightarrow> 'a \<Rightarrow> 'a rwlock" where
  "rw_set l x \<equiv> RwLock (poisoned l) x"

record memory_store =
  ms_blocks :: "(u64 \<times> block) list rwlock"
  ms_index :: "(block_hash \<times> u64) list rwlock"
  ms_utxo :: "(tx_out_ref \<times> tx_output) list rwlock"
  ms_spent :: "(u64 \<times> (tx_out_ref \<times> tx_output) list) list rwlock"
  ms_validators :: "(address \<times> validator) list rwlock"

definition memory_store_new :: memory_store where
  "memory_store_new = \<lparr>ms_blocks = RwLock False [], ms_index = RwLock False [],
     ms_utxo = RwLock False [], ms_spent = RwLock False [], ms_validators = RwLock False []\<rparr>"

section \<open>\<open>BlockStore\<close>\<close>

definition mem_get_by_height :: "memory_store \<Rightarrow> u64 \<Rightarrow> block option store_result" where
  "mem_get_by_height s h =
     (case rw_lock (ms_blocks s) of Inl e \<Rightarrow> Inl e | Inr blocks \<Rightarrow> Inr (map_of blocks h))"

definition mem_get_by_hash :: "memory_store \<Rightarrow> block_hash \<Rightarrow> block option store_result" where
  "mem_get_by_hash s hash =
     (case rw_lock (ms_index s) of Inl e \<Rightarrow> Inl e
      | Inr index \<Rightarrow> (case rw_lock (ms_blocks s) of Inl e \<Rightarrow> Inl e
        | Inr blocks \<Rightarrow> Inr (case map_of index hash of None \<Rightarrow> None | Some h \<Rightarrow> map_of blocks h)))"

definition mem_insert :: "ext \<Rightarrow> memory_store \<Rightarrow> block \<Rightarrow> memory_store \<times> unit store_result" where
  "mem_insert E s b =
     (let hash = hash_of_block E b; h = height (header b)
      in case rw_lock (ms_blocks s) of Inl e \<Rightarrow> (s, Inl e)
      | Inr blocks \<Rightarrow>
        (let s1 = s\<lparr>ms_blocks := rw_set (ms_blocks s) (AList.update h b blocks)\<rparr>
         in case rw_lock (ms_index s1) of Inl e \<Rightarrow> (s1, Inl e)
         | Inr index \<Rightarrow> (s1\<lparr>ms_index := rw_set (ms_index s1) (AList.update hash h index)\<rparr>, Inr ())))"

definition mem_tip :: "ext \<Rightarrow> memory_store \<Rightarrow> (u64 \<times> block_hash) option store_result" where
  "mem_tip E s =
     (case rw_lock (ms_blocks s) of Inl e \<Rightarrow> Inl e
      | Inr blocks \<Rightarrow> Inr (case rev (sort_key fst blocks) of [] \<Rightarrow> None
          | (h, b) # _ \<Rightarrow> Some (h, hash_of_block E b)))"

definition mem_iter_from :: "memory_store \<Rightarrow> u64 \<Rightarrow> block list store_result" where
  "mem_iter_from s h =
     (case rw_lock (ms_blocks s) of Inl e \<Rightarrow> Inl e
      | Inr blocks \<Rightarrow> Inr (map snd (filter (\<lambda>(k, _). h \<le> k) (sort_key fst blocks))))"

section \<open>\<open>UtxoStore\<close>\<close>

definition mem_utxo_get :: "memory_store \<Rightarrow> tx_out_ref \<Rightarrow> tx_output option store_result" where
  "mem_utxo_get s r = (case rw_lock (ms_utxo s) of Inl e \<Rightarrow> Inl e | Inr utxo \<Rightarrow> Inr (map_of utxo r))"

type_synonym mem_apply_state = "(tx_out_ref \<times> tx_output) list \<times> (tx_out_ref \<times> tx_output) list"

fun mem_spend_input :: "tx_input \<Rightarrow> mem_apply_state \<Rightarrow> mem_apply_state" where
  "mem_spend_input i (utxo, block_spent) =
     (case map_of utxo (in_out_ref i) of
        Some prev_out \<Rightarrow> (AList.delete (in_out_ref i) utxo, block_spent @ [(in_out_ref i, prev_out)])
      | None \<Rightarrow> (utxo, block_spent))"

definition mem_create_outputs ::
  "ext \<Rightarrow> transaction \<Rightarrow> (tx_out_ref \<times> tx_output) list \<Rightarrow> (tx_out_ref \<times> tx_output) list" where
  "mem_create_outputs E tx utxo =
     fold (\<lambda>(i, output) u. AList.update (out_ref_at E tx i) output u)
       (enumerate 0 (tx_outputs tx)) utxo"

definition mem_apply_tx :: "ext \<Rightarrow> transaction \<Rightarrow> mem_apply_state \<Rightarrow> mem_apply_state" where
  "mem_apply_tx E tx st =
     (let (utxo, block_spent) = fold mem_spend_input (tx_inputs tx) st
      in (mem_create_outputs E tx utxo, block_spent))"

definition mem_apply_block :: "ext \<Rightarrow> memory_store \<Rightarrow> block \<Rightarrow> memory_store \<times> unit store_result" where
  "mem_apply_block E s b =
     (case rw_lock (ms_utxo s) of Inl e \<Rightarrow> (s, Inl e)
      | Inr utxo \<Rightarrow> (case rw_lock (ms_spent s) of Inl e \<Rightarrow> (s, Inl e)
        | Inr spent \<Rightarrow>
          (let (utxo', block_spent) = fold (mem_apply_tx E) (txs b) (utxo, [])
           in (s\<lparr>ms_utxo := rw_set (ms_utxo s) utxo',
                 ms_spent := rw_set (ms_spent s) (AList.update (height (header b)) block_spent spent)\<rparr>,
               Inr ()))))"

definition mem_remove_outputs ::
  "ext \<Rightarrow> transaction \<Rightarrow> (tx_out_ref \<times> tx_output) list \<Rightarrow> (tx_out_ref \<times> tx_output) list" where
  "mem_remove_outputs E tx utxo =
     fold (\<lambda>i u. AList.delete (out_ref_at E tx i) u) [0..<length (tx_outputs tx)] utxo"

definition mem_rollback_block :: "ext \<Rightarrow> memory_store \<Rightarrow> block \<Rightarrow> memory_store \<times> unit store_result" where
  "mem_rollback_block E s b =
     (case rw_lock (ms_utxo s) of Inl e \<Rightarrow> (s, Inl e)
      | Inr utxo \<Rightarrow> (case rw_lock (ms_spent s) of Inl e \<Rightarrow> (s, Inl e)
        | Inr spent \<Rightarrow>
          (let utxo1 = fold (mem_remove_outputs E) (rev (txs b)) utxo;
               h = height (header b);
               (utxo2, spent') = (case map_of spent h of
                  Some restored \<Rightarrow>
                    (fold (\<lambda>(r, output) u. AList.update r output u) restored utxo1, AList.delete h spent)
                | None \<Rightarrow> (utxo1, spent))
           in (s\<lparr>ms_utxo := rw_set (ms_utxo s) utxo2, ms_spent := rw_set (ms_spent s) spent'\<rparr>,
               Inr ()))))"

definition mem_balance :: "memory_store \<Rightarrow> address \<Rightarrow> u64 store_result" where
  "mem_balance s a =
     (case rw_lock (ms_utxo s) of Inl e \<Rightarrow> Inl e
      | Inr utxo \<Rightarrow> Inr (sum_list (map out_amount (filter (\<lambda>t. out_address t = a) (map snd utxo)))))"

definition mem_list_utxos ::
  "memory_store \<Rightarrow> address \<Rightarrow> (tx_out_ref \<times> tx_output) list store_result" where
  "mem_list_utxos s a =
     (case rw_lock (ms_utxo s) of Inl e \<Rightarrow> Inl e
      | Inr utxo \<Rightarrow> Inr (filter (\<lambda>(_, output). out_address output = a) utxo))"

section \<open>\<open>ValidatorStore\<close>\<close>

definition mem_validator_get :: "memory_store \<Rightarrow> address \<Rightarrow> validator option store_result" where
  "mem_validator_get s a =
     (case rw_lock (ms_validators s) of Inl e \<Rightarrow> Inl e | Inr vs \<Rightarrow> Inr (map_of vs a))"

definition mem_all_active :: "memory_store \<Rightarrow> u64 \<Rightarrow> validator list store_result" where
  "mem_all_active s n =
     (case rw_lock (ms_validators s) of Inl e \<Rightarrow> Inl e
      | Inr vs \<Rightarrow> Inr (sort_key v_address
          (filter (\<lambda>v. v_active_since v \<le> n \<and> 0 < v_stake v) (map snd vs))))"

definition mem_upsert :: "ext \<Rightarrow> memory_store \<Rightarrow> validator \<Rightarrow> memory_store \<times> unit store_result" where
  "mem_upsert E s v =
     (let expected = from_pubkey_bytes E (v_pubkey v)
      in if v_address v \<noteq> expected then (s, Inl (Backend (upsert_mismatch v expected)))
      else case rw_lock (ms_validators s) of Inl e \<Rightarrow> (s, Inl e)
        | Inr vs \<Rightarrow> (s\<lparr>ms_validators := rw_set (ms_validators s) (AList.update (v_address v) v vs)\<rparr>,
            Inr ()))"

section \<open>The trait objects\<close>

definition mem_block_store :: "ext \<Rightarrow> memory_store block_store" where
  "mem_block_store E = \<lparr>bs_get_by_height = mem_get_by_height, bs_get_by_hash = mem_get_by_hash,
     bs_insert = mem_insert E, bs_tip = mem_tip E, bs_iter_from = mem_iter_from\<rparr>"

definition mem_utxo_store :: "ext \<Rightarrow> memory_store utxo_store" where
  "mem_utxo_store E = \<lparr>us_get = mem_utxo_get, us_apply_block = mem_apply_block E,
     us_rollback_block = mem_rollback_block E, us_balance = mem_balance,
     us_list_utxos = mem_list_utxos\<rparr>"

definition mem_validator_store :: "ext \<Rightarrow> memory_store validator_store" where
  "mem_validator_store E = \<lparr>vs_get = mem_validator_get, vs_all_active = mem_all_active,
     vs_upsert = mem_upsert E\<rparr>"

section \<open>Abstraction and invariant\<close>

definition mem_babs :: "memory_store \<Rightarrow> u64 \<rightharpoonup> block" where
  "mem_babs s = map_of (guarded (ms_blocks s))"

definition mem_uabs :: "memory_store \<Rightarrow> utxo_map" where
  "mem_uabs s = map_of (guarded (ms_utxo s))"

definition mem_vabs :: "memory_store \<Rightarrow> address \<rightharpoonup> validator" where
  "mem_vabs s = map_of (guarded (ms_validators s))"

definition mem_inv :: "ext \<Rightarrow> memory_store \<Rightarrow> bool" where
  "mem_inv E s \<longleftrightarrow>
     \<not> poisoned (ms_blocks s) \<and> \<not> poisoned (ms_index s) \<and> \<not> poisoned (ms_utxo s) \<and>
     \<not> poisoned (ms_spent s) \<and> \<not> poisoned (ms_validators s) \<and>
     alist_ok (guarded (ms_blocks s)) \<and> alist_ok (guarded (ms_utxo s)) \<and>
     alist_ok (guarded (ms_validators s)) \<and>
     (\<forall>(h, b) \<in> set (guarded (ms_blocks s)). height (header b) = h) \<and>
     (\<forall>(a, v) \<in> set (guarded (ms_validators s)). v_address v = a \<and> a = from_pubkey_bytes E (v_pubkey v))"

lemmas mem_abs_defs = mem_babs_def mem_uabs_def mem_vabs_def

lemma rw_lock_ok [simp]: "\<not> poisoned l \<Longrightarrow> rw_lock l = Inr (guarded l)"
  by (simp add: rw_lock_def)

section \<open>Applying and rolling back\<close>

lemma mem_spend_inputs:
  "fold mem_spend_input is (u, sp) = (u', sp') \<Longrightarrow>
   map_of u' = map_remove_all (map in_out_ref is) (map_of u) \<and> (alist_ok u \<longrightarrow> alist_ok u') \<and>
   set sp' = set sp \<union> {(r, t). r \<in> in_out_ref ` set is \<and> map_of u r = Some t}"
proof (induction "is" arbitrary: u sp)
  case (Cons i "is")
  show ?case
  proof (cases "map_of u (in_out_ref i)")
    case None
    then have "(map_of u)(in_out_ref i := None) = map_of u" by auto
    then show ?thesis using Cons.IH [of u sp] Cons.prems None by auto
  next
    case (Some t)
    then show ?thesis
      using Cons.IH [of "AList.delete (in_out_ref i) u" "sp @ [(in_out_ref i, t)]"] Cons.prems
      by (auto simp: fun_upd_def split: if_splits)
  qed
qed auto

lemma mem_create_outputs_abs:
  "map_of (mem_create_outputs E tx u) = map_insert_all (tx_created E tx) (map_of u) \<and>
   (alist_ok u \<longrightarrow> alist_ok (mem_create_outputs E tx u))"
proof -
  have "map_of (fold (\<lambda>(i, output) u. AList.update (f i) output u) xs u) =
      map_insert_all (map (\<lambda>(i, t). (f i, t)) xs) (map_of u) \<and>
      (alist_ok u \<longrightarrow> alist_ok (fold (\<lambda>(i, output) u. AList.update (f i) output u) xs u))"
    for f :: "nat \<Rightarrow> tx_out_ref" and xs
    by (induction xs arbitrary: u) auto
  then show ?thesis by (simp add: mem_create_outputs_def tx_created_def)
qed

lemma mem_apply_tx_abs:
  "mem_apply_tx E tx (u, sp) = (u', sp') \<Longrightarrow>
   map_of u' = utxo_apply_tx E tx (map_of u) \<and> (alist_ok u \<longrightarrow> alist_ok u') \<and>
   set sp' = set sp \<union> {(r, t). r \<in> set (tx_refs tx) \<and> map_of u r = Some t}"
  using mem_spend_inputs [of "tx_inputs tx" u sp] mem_create_outputs_abs [of E tx]
  by (auto simp: mem_apply_tx_def utxo_apply_tx_def tx_refs_def split: prod.splits)

lemma mem_apply_txs_abs:
  "fold (mem_apply_tx E) ts (u, sp) = (u', sp') \<Longrightarrow>
   map_of u' = fold (utxo_apply_tx E) ts (map_of u) \<and> (alist_ok u \<longrightarrow> alist_ok u')"
proof (induction ts arbitrary: u sp)
  case (Cons t ts)
  obtain u1 sp1 where "mem_apply_tx E t (u, sp) = (u1, sp1)" by (cases "mem_apply_tx E t (u, sp)")
  then show ?case using Cons mem_apply_tx_abs [of E t u sp u1 sp1] by auto
qed simp

lemma mem_apply_txs_spent:
  "fold (mem_apply_tx E) ts (u, sp) = (u', sp') \<Longrightarrow>
   set (concat (map tx_refs ts)) \<inter> fst ` set (concat (map (tx_created E) ts)) = {} \<Longrightarrow>
   set sp' = set sp \<union> {(r, t). r \<in> set (concat (map tx_refs ts)) \<and> map_of u r = Some t}"
proof (induction ts arbitrary: u sp)
  case (Cons x ts)
  obtain u1 sp1 where x: "mem_apply_tx E x (u, sp) = (u1, sp1)" by (cases "mem_apply_tx E x (u, sp)")
  note one = mem_apply_tx_abs [OF x]
  define R where "R = set (concat (map tx_refs ts))"
  have "set sp' = set sp1 \<union> {(r, t). r \<in> R \<and> map_of u1 r = Some t}"
    unfolding R_def using Cons.prems x by (intro Cons.IH) auto
  moreover have "map_of u1 r = (if r \<in> set (tx_refs x) then None else map_of u r)" if "r \<in> R" for r
  proof -
    have "r \<notin> fst ` set (tx_created E x)" using Cons.prems(2) that by (auto simp: R_def)
    then show ?thesis
      by (simp add: one utxo_apply_tx_def map_insert_all_notin map_remove_all_apply)
  qed
  then have "{(r, t). r \<in> R \<and> map_of u1 r = Some t} =
      {(r, t). r \<in> R \<and> r \<notin> set (tx_refs x) \<and> map_of u r = Some t}"
    by (auto split: if_splits)
  moreover have "set (concat (map tx_refs (x # ts))) = set (tx_refs x) \<union> R" by (simp add: R_def)
  ultimately show ?case using one by (simp only:) blast
qed simp

lemma mem_remove_outputs_abs:
  "map_of (mem_remove_outputs E tx u) = map_remove_all (map fst (tx_created E tx)) (map_of u) \<and>
   (alist_ok u \<longrightarrow> alist_ok (mem_remove_outputs E tx u))"
proof -
  have "map_of (fold (\<lambda>i u. AList.delete (f i) u) xs u) = map_remove_all (map f xs) (map_of u) \<and>
      (alist_ok u \<longrightarrow> alist_ok (fold (\<lambda>i u. AList.delete (f i) u) xs u))"
    for f :: "nat \<Rightarrow> tx_out_ref" and xs
    by (induction xs arbitrary: u) auto
  then show ?thesis by (simp add: mem_remove_outputs_def map_fst_tx_created)
qed

lemma mem_remove_txs_abs:
  "map_of (fold (mem_remove_outputs E) ts u) =
     map_remove_all (map fst (concat (map (tx_created E) ts))) (map_of u) \<and>
   (alist_ok u \<longrightarrow> alist_ok (fold (mem_remove_outputs E) ts u))"
  by (induction ts arbitrary: u) (auto simp: mem_remove_outputs_abs map_remove_all_append)

lemma mem_restore_abs:
  "map_of (fold (\<lambda>(r, output) u. AList.update r output u) sp u) = map_insert_all sp (map_of u) \<and>
   (alist_ok u \<longrightarrow> alist_ok (fold (\<lambda>(r, output) u. AList.update r output u) sp u))"
  by (induction sp arbitrary: u) auto

section \<open>The store provides the interface\<close>

lemma mem_apply_block_abs:
  assumes "mem_inv E s" and "mem_apply_block E s b = (s', r)"
  shows "r = Inr () \<and> mem_inv E s' \<and> mem_uabs s' = utxo_apply E b (mem_uabs s) \<and>
    mem_babs s' = mem_babs s \<and> mem_vabs s' = mem_vabs s \<and>
    ms_blocks s' = ms_blocks s \<and> ms_index s' = ms_index s"
proof -
  obtain u sp where f: "fold (mem_apply_tx E) (txs b) (guarded (ms_utxo s), []) = (u, sp)" by fastforce
  show ?thesis
    using assms mem_apply_txs_abs [OF f]
    by (auto simp: mem_apply_block_def f mem_inv_def mem_abs_defs utxo_apply_def)
qed

lemma mem_rollback_block_abs:
  assumes "mem_inv E s" and "mem_rollback_block E s b = (s', r)"
  shows "r = Inr () \<and> mem_inv E s' \<and> mem_babs s' = mem_babs s \<and> mem_vabs s' = mem_vabs s \<and>
    mem_uabs s' = map_insert_all (case map_of (guarded (ms_spent s)) (height (header b)) of
        None \<Rightarrow> [] | Some sp \<Rightarrow> sp)
      (map_remove_all (map fst (concat (map (tx_created E) (rev (txs b))))) (mem_uabs s))"
  using assms mem_remove_txs_abs [of E "rev (txs b)" "guarded (ms_utxo s)"]
    mem_restore_abs [of _ "fold (mem_remove_outputs E) (rev (txs b)) (guarded (ms_utxo s))"]
  by (auto simp: mem_rollback_block_def mem_inv_def mem_abs_defs Let_def split: option.splits)

lemma mem_rollback_apply:
  assumes inv: "mem_inv E s" and ok: "block_applicable E (mem_uabs s) b"
    and ap: "mem_apply_block E s b = (s', Inr ())" and rb: "mem_rollback_block E s' b = (s'', r)"
  shows "r = Inr () \<and> mem_inv E s'' \<and> mem_uabs s'' = mem_uabs s"
proof -
  obtain u sp where f: "fold (mem_apply_tx E) (txs b) (guarded (ms_utxo s), []) = (u, sp)" by fastforce
  have "map_of (guarded (ms_spent s')) (height (header b)) = Some sp"
    using ap inv by (auto simp: mem_apply_block_def f mem_inv_def)
  moreover have "set sp = {(r, t). r \<in> set (block_refs b) \<and> mem_uabs s r = Some t}"
    using mem_apply_txs_spent [OF f block_applicable_disjoint [OF ok]]
    by (simp add: block_refs_def mem_uabs_def)
  moreover have "mem_inv E s'" "mem_uabs s' = utxo_apply E b (mem_uabs s)"
    using mem_apply_block_abs [OF inv ap] by simp_all
  ultimately show ?thesis
    using mem_rollback_block_abs [OF _ rb] utxo_rollback_restores [OF ok]
    by (simp add: block_created_def)
qed

lemma mem_tip_last:
  assumes "alist_ok xs" and "map_of xs h = Some b" and "\<forall>k \<in> dom (map_of xs). k \<le> (h :: u64)"
  shows "\<exists>ys. rev (sort_key fst xs) = (h, b) # ys"
proof -
  have mem: "(h, b) \<in> set (sort_key fst xs)" using assms by (simp add: map_of_eq_Some_iff)
  then have "rev (sort_key fst xs) \<noteq> []" by (metis empty_iff list.set(1) rev_is_Nil_conv)
  then obtain k c ys where ys: "rev (sort_key fst xs) = (k, c) # ys"
    by (metis list.exhaust surj_pair)
  then have srt: "sort_key fst xs = rev ys @ [(k, c)]" by (simp add: rev_swap)
  have "sorted (map fst (sort_key fst xs))" by simp
  then have "h \<le> k" using mem by (auto simp: srt sorted_append)
  moreover have kc: "map_of xs k = Some c"
    using srt assms(1) by (metis in_set_conv_decomp map_of_eq_Some_iff set_sort)
  moreover have "k \<le> h" using assms(3) kc by blast
  ultimately have "k = h" "c = b" using assms(2) by auto
  then show ?thesis using ys by blast
qed

lemma strict_sorted_map_filter:
  "sorted_wrt (<) (map f xs) \<Longrightarrow> sorted_wrt (<) (map f (filter P xs))"
  by (induction xs) auto

lemma strict_sorted_sort_key: "distinct (map f xs) \<Longrightarrow> sorted_wrt (<) (map f (sort_key f xs))"
  for f :: "'a \<Rightarrow> 'b :: linorder"
  by (simp add: strict_sorted_iff distinct_map)

lemma mem_insert_abs:
  assumes "mem_inv E s" and "mem_insert E s b = (s', r)"
  shows "r = Inr () \<and> mem_inv E s' \<and> mem_babs s' = (mem_babs s)(height (header b) \<mapsto> b) \<and>
    mem_uabs s' = mem_uabs s \<and> mem_vabs s' = mem_vabs s \<and>
    mem_get_by_hash s' (hash_of_block E b) = Inr (Some b)"
  using assms
  by (auto simp: mem_insert_def mem_inv_def mem_abs_defs mem_get_by_hash_def Let_def
      dest!: in_alist_updateD)

lemma mem_tip_insert:
  assumes "mem_inv E s" and "mem_insert E s b = (s', r)"
    and "\<forall>h \<in> dom (mem_babs s). h \<le> height (header b)"
  shows "mem_tip E s' = Inr (Some (height (header b), hash_of_block E b))"
proof -
  have "mem_inv E s'" and "mem_babs s' = (mem_babs s)(height (header b) \<mapsto> b)"
    using mem_insert_abs [OF assms(1,2)] by simp_all
  then show ?thesis
    using mem_tip_last [of "guarded (ms_blocks s')" "height (header b)" b] assms(3)
    by (auto simp: mem_tip_def mem_inv_def mem_babs_def)
qed

lemma mem_iter_from_abs:
  assumes "mem_inv E s"
  shows "\<exists>bs. mem_iter_from s h = Inr bs \<and> sorted_wrt (<) (map (height \<circ> header) bs) \<and>
    set bs = {b. \<exists>k \<ge> h. mem_babs s k = Some b}"
proof -
  let ?bs = "filter (\<lambda>(k, _). h \<le> k) (sort_key fst (guarded (ms_blocks s)))"
  have ok: "alist_ok (guarded (ms_blocks s))"
    and "\<forall>(k, b) \<in> set ?bs. height (header b) = k"
    using assms by (auto simp: mem_inv_def)
  then have "map (height \<circ> header) (map snd ?bs) = map fst ?bs" by auto
  moreover have "sorted_wrt (<) (map fst ?bs)"
    using ok by (intro strict_sorted_map_filter strict_sorted_sort_key)
  ultimately have "sorted_wrt (<) (map (height \<circ> header) (map snd ?bs))" by (simp only:)
  moreover have "set (map snd ?bs) = {b. \<exists>k \<ge> h. mem_babs s k = Some b}"
    using ok by (force simp: mem_babs_def map_of_eq_Some_iff)
  ultimately show ?thesis using assms by (auto simp: mem_iter_from_def mem_inv_def)
qed

lemma mem_all_active_abs:
  assumes "mem_inv E s"
  shows "\<exists>vs. mem_all_active s n = Inr vs \<and> sorted_wrt (<) (map v_address vs) \<and>
    set vs = {v. mem_vabs s (v_address v) = Some v \<and> v_active_since v \<le> n \<and> 0 < v_stake v}"
proof -
  let ?m = "guarded (ms_validators s)"
  let ?P = "\<lambda>v. v_active_since v \<le> n \<and> 0 < v_stake v"
  have ok: "alist_ok ?m" and addr: "\<forall>(a, v) \<in> set ?m. v_address v = a"
    using assms by (auto simp: mem_inv_def)
  then have "map v_address (map snd ?m) = map fst ?m" by auto
  then have "distinct (map v_address (map snd ?m))" using ok by (simp only:)
  then have "distinct (map v_address (filter ?P (map snd ?m)))" by (rule distinct_map_filter)
  moreover have "set (filter ?P (map snd ?m)) = {v. mem_vabs s (v_address v) = Some v \<and> ?P v}"
    using ok addr by (force simp: mem_vabs_def map_of_eq_Some_iff)
  ultimately show ?thesis
    using assms strict_sorted_sort_key by (auto simp: mem_all_active_def mem_inv_def)
qed

lemma mem_list_utxos_abs:
  assumes "mem_inv E s"
  shows "\<exists>xs. mem_list_utxos s a = Inr xs \<and> distinct (map fst xs) \<and>
    set xs = {(r, t). mem_uabs s r = Some t \<and> out_address t = a}"
proof -
  have ok: "alist_ok (guarded (ms_utxo s))" and np: "\<not> poisoned (ms_utxo s)"
    using assms by (simp_all add: mem_inv_def)
  have "set (filter (\<lambda>(_, t). out_address t = a) (guarded (ms_utxo s))) =
      {(r, t). mem_uabs s r = Some t \<and> out_address t = a}"
    using ok by (auto simp: mem_uabs_def map_of_eq_Some_iff)
  then show ?thesis
    using np distinct_map_filter [OF ok] by (simp add: mem_list_utxos_def)
qed

lemma mem_balance_list:
  "mem_inv E s \<Longrightarrow> mem_list_utxos s a = Inr xs \<Longrightarrow>
   mem_balance s a = Inr (sum_list (map (out_amount \<circ> snd) xs))"
  by (auto simp: mem_balance_def mem_list_utxos_def mem_inv_def filter_map comp_def case_prod_unfold)

interpretation mem: chain_store E "mem_block_store E" mem_babs "mem_utxo_store E" mem_uabs
  "mem_validator_store E" mem_vabs "mem_inv E" for E
proof (unfold_locales, goal_cases)
  case (1 s h)
  then show ?case by (simp add: mem_block_store_def mem_get_by_height_def mem_inv_def mem_abs_defs)
next
  case (2 s b)
  then show ?case
    using mem_insert_abs [of E s b] by (cases "mem_insert E s b") (auto simp: mem_block_store_def)
next
  case (3 s b s')
  then show ?case using mem_tip_insert [of E s b s'] by (simp add: mem_block_store_def)
next
  case (4 s g)
  then show ?case
    by (auto simp: mem_block_store_def mem_tip_def mem_get_by_hash_def mem_inv_def)
next
  case (5 s h b)
  then show ?case by (auto simp: mem_inv_def mem_abs_defs dest: map_of_SomeD)
next
  case (6 s h)
  then show ?case using mem_iter_from_abs [of E s h] by (simp add: mem_block_store_def)
next
  case (7 s r)
  then show ?case by (simp add: mem_utxo_store_def mem_utxo_get_def mem_inv_def mem_abs_defs)
next
  case (8 s b)
  then show ?case
    using mem_apply_block_abs [of E s b] by (cases "mem_apply_block E s b") (auto simp: mem_utxo_store_def)
next
  case (9 s b s')
  then show ?case
    using mem_rollback_apply [of E s b s']
    by (cases "mem_rollback_block E s' b") (simp add: mem_utxo_store_def)
next
  case (10 s a)
  then show ?case using mem_list_utxos_abs [of E s a] by (simp add: mem_utxo_store_def)
next
  case (11 s a xs)
  then show ?case using mem_balance_list by (simp add: mem_utxo_store_def)
next
  case (12 s a)
  then show ?case by (simp add: mem_validator_store_def mem_validator_get_def mem_inv_def mem_abs_defs)
next
  case (13 s v)
  then show ?case
    by (auto simp: mem_validator_store_def mem_upsert_def mem_inv_def mem_abs_defs Let_def
        dest!: in_alist_updateD)
next
  case (14 v s)
  then show ?case by (simp add: mem_validator_store_def mem_upsert_def Let_def)
next
  case (15 s a v)
  then show ?case by (auto simp: mem_inv_def mem_abs_defs dest: map_of_SomeD)
next
  case (16 s n)
  then show ?case using mem_all_active_abs [of E s n] by (simp add: mem_validator_store_def)
next
  case (17 s b s' r)
  then show ?case using mem_insert_abs [of E s b] by (simp add: mem_block_store_def)
next
  case (18 s b s' r)
  then show ?case using mem_apply_block_abs [of E s b] by (simp add: mem_utxo_store_def)
next
  case (19 s b s' r)
  then show ?case using mem_apply_block_abs [of E s b]
    by (auto simp: mem_utxo_store_def mem_block_store_def mem_tip_def mem_get_by_hash_def
        cong: sum.case_cong)
next
  case (20 s b s' r)
  then show ?case using mem_rollback_block_abs [of E s b] by (simp add: mem_utxo_store_def)
next
  case (21 s v s' r)
  then show ?case
    by (auto simp: mem_validator_store_def mem_block_store_def mem_upsert_def mem_abs_defs mem_inv_def
        mem_tip_def mem_get_by_hash_def Let_def split: if_splits)
next
  case (22 s b s' r)
  then show ?case using mem_rollback_block_abs [of E s b] by (simp add: mem_utxo_store_def)
qed

end
