(* ===== verification/Bcc_Sled_Store.thy ===== *)
theory Bcc_Sled_Store
  imports Bcc_Store "HOL-Library.RBT"
begin

text \<open>
  \<open>bcc-node/src/storage/sled_store.rs\<close>: the persistent store of the node.  sled itself is a
  parameter: \<open>sled_env\<close> holds the operations of a \<open>sled::Tree\<close> (an ordered map of byte strings) and
  says which calls fail with an I/O error; \<open>sled_tree\<close> states sled's documented behaviour.  Every
  value is stored encoded, so the abstraction functions decode.  Under the laws of the trees, the
  round trip of the encoding and in the absence of I/O errors the store provides \<open>chain_store\<close>
  (\<open>sled_backend\<close>); library red-black trees are one instance.
\<close>

section \<open>sled\<close>

datatype sled_call =
    BlocksGet | IndexGet | InsertTxn | TipGet | BlocksIter
  | UtxoGet | SentinelInsert | ApplyTxn | SentinelRemove | RollbackTxn | RollbackBlocksTxn | UtxoIter
  | SentinelGet | ValidatorGet | ValidatorsIter | ValidatorInsert

record 't sled_env =
  t_empty :: 't
  t_get :: "'t \<Rightarrow> byte list \<Rightarrow> byte list option"
  t_insert :: "byte list \<Rightarrow> byte list \<Rightarrow> 't \<Rightarrow> 't"
  t_remove :: "byte list \<Rightarrow> 't \<Rightarrow> 't"
  t_iter :: "'t \<Rightarrow> (byte list \<times> byte list) list"
  sled_io :: "sled_call \<Rightarrow> string option"

text \<open>
  \<open>iter()\<close> and \<open>range(k..)\<close> yield a result per entry; an I/O error ends the consumer of the
  iterator at the entry where it occurs, here the first.
\<close>

definition tree_items ::
  "'t sled_env \<Rightarrow> sled_call \<Rightarrow> 't \<Rightarrow> (byte list \<times> byte list) list store_result" where
  "tree_items T c t = (case sled_io T c of Some e \<Rightarrow> Inl (Backend e) | None \<Rightarrow> Inr (t_iter T t))"

locale sled_tree =
  fixes T :: "'t sled_env"
  assumes get_empty: "t_get T (t_empty T) = Map.empty"
    and get_insert: "t_get T (t_insert T k v t) = (t_get T t)(k \<mapsto> v)"
    and get_remove: "t_get T (t_remove T k t) = (t_get T t)(k := None)"
    and iter_lookup: "map_of (t_iter T t) = t_get T t"
    and iter_sorted: "sorted_wrt (<) (map fst (t_iter T t))"

section \<open>State and encoding helpers\<close>

record 't sled_store =
  sl_blocks_h :: 't
  sl_blocks_idx :: 't
  sl_utxo :: 't
  sl_validators :: 't
  sl_meta :: 't
  sl_spent_h :: 't

definition META_TIP :: "byte list" where
  "META_TIP = str_bytes ''tip''"

definition META_APPLY_IN_PROGRESS :: "byte list" where
  "META_APPLY_IN_PROGRESS = str_bytes ''apply_in_progress''"

definition sled_new_temporary :: "'t sled_env \<Rightarrow> 't sled_store" where
  "sled_new_temporary T = \<lparr>sl_blocks_h = t_empty T, sl_blocks_idx = t_empty T, sl_utxo = t_empty T,
     sl_validators = t_empty T, sl_meta = t_empty T, sl_spent_h = t_empty T\<rparr>"

definition apply_in_progress_flag :: "'t sled_env \<Rightarrow> 't sled_store \<Rightarrow> bool" where
  "apply_in_progress_flag T s =
     (case sled_io T SentinelGet of Some _ \<Rightarrow> False
      | None \<Rightarrow> t_get T (sl_meta s) META_APPLY_IN_PROGRESS \<noteq> None)"

definition height_key :: "u64 \<Rightarrow> byte list" where
  "height_key h = to_be_bytes h"

definition decode :: "(byte list \<Rightarrow> string + 'a) \<Rightarrow> byte list \<Rightarrow> 'a store_result" where
  "decode un bytes = (case un bytes of Inl e \<Rightarrow> Inl (Backend e) | Inr x \<Rightarrow> Inr x)"

definition spent_key :: "ext \<Rightarrow> u64 \<Rightarrow> tx_out_ref \<Rightarrow> byte list" where
  "spent_key E h r = to_be_bytes h @ json_out_ref E r"

section \<open>\<open>BlockStore\<close>\<close>

definition sled_get_by_height ::
  "'t sled_env \<Rightarrow> ext \<Rightarrow> 't sled_store \<Rightarrow> u64 \<Rightarrow> block option store_result" where
  "sled_get_by_height T E s h =
     (case sled_io T BlocksGet of Some e \<Rightarrow> Inl (Backend e)
      | None \<Rightarrow> (case t_get T (sl_blocks_h s) (height_key h) of
          Some bytes \<Rightarrow> (case decode (unjson_block E) bytes of Inl e \<Rightarrow> Inl e | Inr b \<Rightarrow> Inr (Some b))
        | None \<Rightarrow> Inr None))"

definition sled_get_by_hash ::
  "'t sled_env \<Rightarrow> ext \<Rightarrow> 't sled_store \<Rightarrow> block_hash \<Rightarrow> block option store_result" where
  "sled_get_by_hash T E s hash =
     (case sled_io T IndexGet of Some e \<Rightarrow> Inl (Backend e)
      | None \<Rightarrow> (case t_get T (sl_blocks_idx s) hash of
          None \<Rightarrow> Inr None
        | Some height_bytes \<Rightarrow>
            if length height_bytes \<noteq> 8 then Inl (Backend ''corrupt height index'')
            else sled_get_by_height T E s (from_be_bytes height_bytes)))"

definition sled_insert ::
  "'t sled_env \<Rightarrow> ext \<Rightarrow> 't sled_store \<Rightarrow> block \<Rightarrow> 't sled_store \<times> unit store_result" where
  "sled_insert T E s b =
     (let height_be = height_key (height (header b)); hash = hash_of_block E b; encoded = json_block E b
      in case sled_io T InsertTxn of Some e \<Rightarrow> (s, Inl (Backend e))
      | None \<Rightarrow>
        (s\<lparr>sl_blocks_h := t_insert T height_be encoded (sl_blocks_h s),
           sl_blocks_idx := t_insert T hash height_be (sl_blocks_idx s),
           sl_meta := t_insert T META_TIP (json_tip E (height (header b), hash)) (sl_meta s)\<rparr>, Inr ()))"

definition sled_tip ::
  "'t sled_env \<Rightarrow> ext \<Rightarrow> 't sled_store \<Rightarrow> (u64 \<times> block_hash) option store_result" where
  "sled_tip T E s =
     (case sled_io T TipGet of Some e \<Rightarrow> Inl (Backend e)
      | None \<Rightarrow> (case t_get T (sl_meta s) META_TIP of
          Some bytes \<Rightarrow> (case decode (unjson_tip E) bytes of Inl e \<Rightarrow> Inl e | Inr t \<Rightarrow> Inr (Some t))
        | None \<Rightarrow> Inr None))"

text \<open>\<open>collect\<close> into a \<open>Result\<close>: the first error, or all values.\<close>

fun collect_results :: "'a store_result list \<Rightarrow> 'a list store_result" where
  "collect_results [] = Inr []"
| "collect_results (Inl e # _) = Inl e"
| "collect_results (Inr x # rs) =
     (case collect_results rs of Inl e \<Rightarrow> Inl e | Inr xs \<Rightarrow> Inr (x # xs))"

definition sled_iter_from ::
  "'t sled_env \<Rightarrow> ext \<Rightarrow> 't sled_store \<Rightarrow> u64 \<Rightarrow> block list store_result" where
  "sled_iter_from T E s h =
     (case tree_items T BlocksIter (sl_blocks_h s) of Inl e \<Rightarrow> Inl e
      | Inr items \<Rightarrow> collect_results
          (map (\<lambda>(_, v). decode (unjson_block E) v) (filter (\<lambda>(k, _). height_key h \<le> k) items)))"

section \<open>\<open>UtxoStore\<close>\<close>

definition sled_utxo_get ::
  "'t sled_env \<Rightarrow> ext \<Rightarrow> 't sled_store \<Rightarrow> tx_out_ref \<Rightarrow> tx_output option store_result" where
  "sled_utxo_get T E s r =
     (case sled_io T UtxoGet of Some e \<Rightarrow> Inl (Backend e)
      | None \<Rightarrow> (case t_get T (sl_utxo s) (json_out_ref E r) of
          Some bytes \<Rightarrow> (case decode (unjson_output E) bytes of Inl e \<Rightarrow> Inl e | Inr t \<Rightarrow> Inr (Some t))
        | None \<Rightarrow> Inr None))"

text \<open>The body of the \<open>apply_block\<close> transaction over the trees \<open>(utxo, spent_h)\<close>.\<close>

fun sled_spend_input :: "'t sled_env \<Rightarrow> ext \<Rightarrow> u64 \<Rightarrow> tx_input \<Rightarrow> 't \<times> 't \<Rightarrow> 't \<times> 't" where
  "sled_spend_input T E h i (utxo, spent) =
     (let key = json_out_ref E (in_out_ref i);
          spent' = (case t_get T utxo key of
             Some prev_out \<Rightarrow> t_insert T (spent_key E h (in_out_ref i)) prev_out spent
           | None \<Rightarrow> spent)
      in (t_remove T key utxo, spent'))"

definition sled_create_outputs :: "'t sled_env \<Rightarrow> ext \<Rightarrow> transaction \<Rightarrow> 't \<Rightarrow> 't" where
  "sled_create_outputs T E tx utxo =
     fold (\<lambda>(i, output) u. t_insert T (json_out_ref E (out_ref_at E tx i)) (json_output E output) u)
       (enumerate 0 (tx_outputs tx)) utxo"

definition sled_apply_tx :: "'t sled_env \<Rightarrow> ext \<Rightarrow> u64 \<Rightarrow> transaction \<Rightarrow> 't \<times> 't \<Rightarrow> 't \<times> 't" where
  "sled_apply_tx T E h tx st =
     (let (utxo, spent) = fold (sled_spend_input T E h) (tx_inputs tx) st
      in (sled_create_outputs T E tx utxo, spent))"

definition sled_apply_block ::
  "'t sled_env \<Rightarrow> ext \<Rightarrow> 't sled_store \<Rightarrow> block \<Rightarrow> 't sled_store \<times> unit store_result" where
  "sled_apply_block T E s b =
     (let h = height (header b); height_be = height_key h
      in case sled_io T SentinelInsert of Some e \<Rightarrow> (s, Inl (Backend e))
      | None \<Rightarrow>
        (let s1 = s\<lparr>sl_meta := t_insert T META_APPLY_IN_PROGRESS height_be (sl_meta s)\<rparr>
         in case sled_io T ApplyTxn of Some e \<Rightarrow> (s1, Inl (Backend e))
         | None \<Rightarrow>
           (let (utxo, spent) = fold (sled_apply_tx T E h) (txs b) (sl_utxo s1, sl_spent_h s1);
                s2 = s1\<lparr>sl_utxo := utxo, sl_spent_h := spent\<rparr>
            in case sled_io T SentinelRemove of Some e \<Rightarrow> (s2, Inl (Backend e))
            | None \<Rightarrow> (s2\<lparr>sl_meta := t_remove T META_APPLY_IN_PROGRESS (sl_meta s2)\<rparr>, Inr ()))))"

text \<open>The body of the first \<open>rollback_block\<close> transaction.\<close>

definition sled_remove_outputs :: "'t sled_env \<Rightarrow> ext \<Rightarrow> transaction \<Rightarrow> 't \<Rightarrow> 't" where
  "sled_remove_outputs T E tx utxo =
     fold (\<lambda>i u. t_remove T (json_out_ref E (out_ref_at E tx i)) u) [0..<length (tx_outputs tx)] utxo"

fun sled_restore_input :: "'t sled_env \<Rightarrow> ext \<Rightarrow> u64 \<Rightarrow> tx_input \<Rightarrow> 't \<times> 't \<Rightarrow> 't \<times> 't" where
  "sled_restore_input T E h i (utxo, spent) =
     (let skey = spent_key E h (in_out_ref i)
      in case t_get T spent skey of
        Some prev_bytes \<Rightarrow>
          (t_insert T (json_out_ref E (in_out_ref i)) prev_bytes utxo, t_remove T skey spent)
      | None \<Rightarrow> (utxo, spent))"

definition sled_rollback_tx :: "'t sled_env \<Rightarrow> ext \<Rightarrow> u64 \<Rightarrow> transaction \<Rightarrow> 't \<times> 't \<Rightarrow> 't \<times> 't" where
  "sled_rollback_tx T E h tx st =
     (let (utxo, spent) = st
      in fold (sled_restore_input T E h) (tx_inputs tx) (sled_remove_outputs T E tx utxo, spent))"

definition sled_rollback_block ::
  "'t sled_env \<Rightarrow> ext \<Rightarrow> 't sled_store \<Rightarrow> block \<Rightarrow> 't sled_store \<times> unit store_result" where
  "sled_rollback_block T E s b =
     (let h = height (header b)
      in case sled_io T RollbackTxn of Some e \<Rightarrow> (s, Inl (Backend e))
      | None \<Rightarrow>
        (let (utxo, spent) = fold (sled_rollback_tx T E h) (rev (txs b)) (sl_utxo s, sl_spent_h s);
             s1 = s\<lparr>sl_utxo := utxo, sl_spent_h := spent\<rparr>;
             new_tip = (if h = 0 then Inr None
               else case sled_get_by_height T E s1 (h - 1) of Inl e \<Rightarrow> Inl e
                 | Inr None \<Rightarrow> Inr None
                 | Inr (Some parent) \<Rightarrow> Inr (Some (json_tip E (h - 1, hash_of_block E parent))))
         in case new_tip of Inl e \<Rightarrow> (s1, Inl e)
         | Inr tip \<Rightarrow> (case sled_io T RollbackBlocksTxn of Some e \<Rightarrow> (s1, Inl (Backend e))
           | None \<Rightarrow>
             (s1\<lparr>sl_blocks_h := t_remove T (height_key h) (sl_blocks_h s1),
                 sl_blocks_idx := t_remove T (hash_of_block E b) (sl_blocks_idx s1),
                 sl_meta := (case tip of Some bytes \<Rightarrow> t_insert T META_TIP bytes (sl_meta s1)
                   | None \<Rightarrow> t_remove T META_TIP (sl_meta s1))\<rparr>, Inr ()))))"

fun sled_balance_fold :: "ext \<Rightarrow> address \<Rightarrow> u64 \<Rightarrow> (byte list \<times> byte list) list \<Rightarrow> u64 store_result" where
  "sled_balance_fold E a acc [] = Inr acc"
| "sled_balance_fold E a acc ((_, v) # items) =
     (case decode (unjson_output E) v of Inl e \<Rightarrow> Inl e
      | Inr output \<Rightarrow> sled_balance_fold E a
          (if out_address output = a then saturating_add acc (out_amount output) else acc) items)"

definition sled_balance :: "'t sled_env \<Rightarrow> ext \<Rightarrow> 't sled_store \<Rightarrow> address \<Rightarrow> u64 store_result" where
  "sled_balance T E s a =
     (case tree_items T UtxoIter (sl_utxo s) of Inl e \<Rightarrow> Inl e
      | Inr items \<Rightarrow> sled_balance_fold E a 0 items)"

definition sled_utxo_item ::
  "ext \<Rightarrow> address \<Rightarrow> byte list \<times> byte list \<Rightarrow> (tx_out_ref \<times> tx_output) store_result option" where
  "sled_utxo_item E a kv =
     (case decode (unjson_out_ref E) (fst kv) of Inl e \<Rightarrow> Some (Inl e)
      | Inr r \<Rightarrow> (case decode (unjson_output E) (snd kv) of Inl e \<Rightarrow> Some (Inl e)
        | Inr output \<Rightarrow> if out_address output = a then Some (Inr (r, output)) else None))"

definition sled_list_utxos ::
  "'t sled_env \<Rightarrow> ext \<Rightarrow> 't sled_store \<Rightarrow> address \<Rightarrow> (tx_out_ref \<times> tx_output) list store_result" where
  "sled_list_utxos T E s a =
     (case tree_items T UtxoIter (sl_utxo s) of Inl e \<Rightarrow> Inl e
      | Inr items \<Rightarrow> collect_results (List.map_filter (sled_utxo_item E a) items))"

section \<open>\<open>ValidatorStore\<close>\<close>

definition sled_validator_get ::
  "'t sled_env \<Rightarrow> ext \<Rightarrow> 't sled_store \<Rightarrow> address \<Rightarrow> validator option store_result" where
  "sled_validator_get T E s a =
     (case sled_io T ValidatorGet of Some e \<Rightarrow> Inl (Backend e)
      | None \<Rightarrow> (case t_get T (sl_validators s) (str_bytes (as_str a)) of
          Some bytes \<Rightarrow> (case decode (unjson_validator E) bytes of Inl e \<Rightarrow> Inl e | Inr v \<Rightarrow> Inr (Some v))
        | None \<Rightarrow> Inr None))"

definition sled_active_item ::
  "ext \<Rightarrow> u64 \<Rightarrow> byte list \<times> byte list \<Rightarrow> validator store_result option" where
  "sled_active_item E n kv =
     (case decode (unjson_validator E) (snd kv) of
        Inr v \<Rightarrow> if v_active_since v \<le> n \<and> 0 < v_stake v then Some (Inr v) else None
      | Inl e \<Rightarrow> Some (Inl e))"

definition sled_all_active ::
  "'t sled_env \<Rightarrow> ext \<Rightarrow> 't sled_store \<Rightarrow> u64 \<Rightarrow> validator list store_result" where
  "sled_all_active T E s n =
     (case tree_items T ValidatorsIter (sl_validators s) of Inl e \<Rightarrow> Inl e
      | Inr items \<Rightarrow> collect_results (List.map_filter (sled_active_item E n) items))"

definition sled_upsert ::
  "'t sled_env \<Rightarrow> ext \<Rightarrow> 't sled_store \<Rightarrow> validator \<Rightarrow> 't sled_store \<times> unit store_result" where
  "sled_upsert T E s v =
     (let expected = from_pubkey_bytes E (v_pubkey v)
      in if v_address v \<noteq> expected then (s, Inl (Backend (upsert_mismatch v expected)))
      else let key = str_bytes (as_str (v_address v)); value = json_validator E v
        in case sled_io T ValidatorInsert of Some e \<Rightarrow> (s, Inl (Backend e))
        | None \<Rightarrow> (s\<lparr>sl_validators := t_insert T key value (sl_validators s)\<rparr>, Inr ()))"

section \<open>The trait objects\<close>

definition sled_block_store :: "'t sled_env \<Rightarrow> ext \<Rightarrow> 't sled_store block_store" where
  "sled_block_store T E = \<lparr>bs_get_by_height = sled_get_by_height T E,
     bs_get_by_hash = sled_get_by_hash T E, bs_insert = sled_insert T E, bs_tip = sled_tip T E,
     bs_iter_from = sled_iter_from T E\<rparr>"

definition sled_utxo_store :: "'t sled_env \<Rightarrow> ext \<Rightarrow> 't sled_store utxo_store" where
  "sled_utxo_store T E = \<lparr>us_get = sled_utxo_get T E, us_apply_block = sled_apply_block T E,
     us_rollback_block = sled_rollback_block T E, us_balance = sled_balance T E,
     us_list_utxos = sled_list_utxos T E\<rparr>"

definition sled_validator_store :: "'t sled_env \<Rightarrow> ext \<Rightarrow> 't sled_store validator_store" where
  "sled_validator_store T E = \<lparr>vs_get = sled_validator_get T E, vs_all_active = sled_all_active T E,
     vs_upsert = sled_upsert T E\<rparr>"

section \<open>Abstraction and invariant\<close>

definition decoded :: "(byte list \<Rightarrow> string + 'a) \<Rightarrow> byte list option \<Rightarrow> 'a option" where
  "decoded un v = (case v of None \<Rightarrow> None | Some bs \<Rightarrow> (case un bs of Inl _ \<Rightarrow> None | Inr x \<Rightarrow> Some x))"

definition tree_uabs :: "'t sled_env \<Rightarrow> ext \<Rightarrow> 't \<Rightarrow> utxo_map" where
  "tree_uabs T E t r = decoded (unjson_output E) (t_get T t (json_out_ref E r))"

definition tree_sabs :: "'t sled_env \<Rightarrow> ext \<Rightarrow> u64 \<Rightarrow> 't \<Rightarrow> utxo_map" where
  "tree_sabs T E h t r = decoded (unjson_output E) (t_get T t (spent_key E h r))"

definition sled_uabs :: "'t sled_env \<Rightarrow> ext \<Rightarrow> 't sled_store \<Rightarrow> utxo_map" where
  "sled_uabs T E s = tree_uabs T E (sl_utxo s)"

definition sled_babs :: "'t sled_env \<Rightarrow> ext \<Rightarrow> 't sled_store \<Rightarrow> u64 \<rightharpoonup> block" where
  "sled_babs T E s h = decoded (unjson_block E) (t_get T (sl_blocks_h s) (height_key h))"

definition sled_vabs :: "'t sled_env \<Rightarrow> ext \<Rightarrow> 't sled_store \<Rightarrow> address \<rightharpoonup> validator" where
  "sled_vabs T E s a = decoded (unjson_validator E) (t_get T (sl_validators s) (str_bytes (as_str a)))"

text \<open>Every entry of a tree is the encoding of a key and a value of the right type.\<close>

definition tree_all :: "'t sled_env \<Rightarrow> (byte list \<Rightarrow> byte list \<Rightarrow> bool) \<Rightarrow> 't \<Rightarrow> bool" where
  "tree_all T P t \<longleftrightarrow> (\<forall>k v. t_get T t k = Some v \<longrightarrow> P k v)"

definition utxo_entry :: "ext \<Rightarrow> byte list \<Rightarrow> byte list \<Rightarrow> bool" where
  "utxo_entry E k v \<longleftrightarrow> (\<exists>r t. k = json_out_ref E r \<and> v = json_output E t)"

definition spent_entry :: "ext \<Rightarrow> byte list \<Rightarrow> byte list \<Rightarrow> bool" where
  "spent_entry E k v \<longleftrightarrow> (\<exists>t. v = json_output E t)"

definition block_entry :: "ext \<Rightarrow> byte list \<Rightarrow> byte list \<Rightarrow> bool" where
  "block_entry E k v \<longleftrightarrow> (\<exists>b. k = height_key (height (header b)) \<and> v = json_block E b)"

definition index_entry :: "byte list \<Rightarrow> byte list \<Rightarrow> bool" where
  "index_entry k v \<longleftrightarrow> length v = 8"

definition meta_entry :: "ext \<Rightarrow> byte list \<Rightarrow> byte list \<Rightarrow> bool" where
  "meta_entry E k v \<longleftrightarrow> (k = META_TIP \<longrightarrow> v \<in> range (json_tip E))"

definition validator_entry :: "ext \<Rightarrow> byte list \<Rightarrow> byte list \<Rightarrow> bool" where
  "validator_entry E k v \<longleftrightarrow> (\<exists>w. k = str_bytes (as_str (v_address w)) \<and> v = json_validator E w \<and>
     v_address w = from_pubkey_bytes E (v_pubkey w))"

definition sled_inv :: "'t sled_env \<Rightarrow> ext \<Rightarrow> 't sled_store \<Rightarrow> bool" where
  "sled_inv T E s \<longleftrightarrow>
     tree_all T (utxo_entry E) (sl_utxo s) \<and> tree_all T (spent_entry E) (sl_spent_h s) \<and>
     tree_all T (block_entry E) (sl_blocks_h s) \<and> tree_all T index_entry (sl_blocks_idx s) \<and>
     tree_all T (meta_entry E) (sl_meta s) \<and> tree_all T (validator_entry E) (sl_validators s)"

lemma tree_allD: "tree_all T P t \<Longrightarrow> t_get T t k = Some v \<Longrightarrow> P k v"
  by (simp add: tree_all_def)

lemmas sled_entry_defs = utxo_entry_def spent_entry_def block_entry_def index_entry_def meta_entry_def
  validator_entry_def

lemma meta_keys_distinct [simp]: "META_APPLY_IN_PROGRESS \<noteq> META_TIP" "META_TIP \<noteq> META_APPLY_IN_PROGRESS"
  by (simp_all add: META_TIP_def META_APPLY_IN_PROGRESS_def)

section \<open>The store provides the interface\<close>

locale sled_backend = sled_tree T for T :: "'t sled_env" +
  fixes E :: ext
  assumes roundtrip: "json_roundtrip E" and no_io_error: "sled_io T c = None"
begin

lemma unjson [simp]:
  "unjson_out_ref E (json_out_ref E r) = Inr r" "unjson_output E (json_output E t) = Inr t"
  "unjson_block E (json_block E b) = Inr b" "unjson_validator E (json_validator E v) = Inr v"
  "unjson_tip E (json_tip E x) = Inr x"
  using roundtrip unfolding json_roundtrip_def by blast+

lemma json_inject [simp]:
  "json_out_ref E r = json_out_ref E r' \<longleftrightarrow> r = r'"
  "json_output E t = json_output E t' \<longleftrightarrow> t = t'"
  "spent_key E h r = spent_key E h r' \<longleftrightarrow> r = r'"
  by (metis unjson sum.inject(2))+ (auto simp: spent_key_def dest: arg_cong [of _ _ "unjson_out_ref E"])

lemma tree_all_insert: "tree_all T P t \<Longrightarrow> P k v \<Longrightarrow> tree_all T P (t_insert T k v t)"
  by (simp add: tree_all_def get_insert)

lemma tree_all_remove: "tree_all T P t \<Longrightarrow> tree_all T P (t_remove T k t)"
  by (simp add: tree_all_def get_remove)

lemmas tree_simps = get_insert get_remove tree_all_insert tree_all_remove

lemma tree_uabs_insert: "tree_uabs T E (t_insert T (json_out_ref E r) (json_output E t) u) = (tree_uabs T E u)(r \<mapsto> t)"
  by (auto simp: tree_uabs_def decoded_def get_insert fun_eq_iff)

lemma tree_uabs_remove: "tree_uabs T E (t_remove T (json_out_ref E r) u) = (tree_uabs T E u)(r := None)"
  by (auto simp: tree_uabs_def decoded_def get_remove fun_eq_iff)

lemma utxo_lookup:
  assumes "tree_all T (utxo_entry E) u"
  shows "t_get T u (json_out_ref E r) = map_option (json_output E) (tree_uabs T E u r)"
proof (cases "t_get T u (json_out_ref E r)")
  case (Some v)
  then obtain t where "v = json_output E t"
    using tree_allD [OF assms] by (auto simp: utxo_entry_def)
  then show ?thesis using Some by (simp add: tree_uabs_def decoded_def)
qed (simp add: tree_uabs_def decoded_def)

lemma spent_lookup:
  assumes "tree_all T (spent_entry E) sp"
  shows "t_get T sp (spent_key E h r) = map_option (json_output E) (tree_sabs T E h sp r)"
proof (cases "t_get T sp (spent_key E h r)")
  case (Some v)
  then obtain t where "v = json_output E t"
    using tree_allD [OF assms] by (auto simp: spent_entry_def)
  then show ?thesis using Some by (simp add: tree_sabs_def decoded_def)
qed (simp add: tree_sabs_def decoded_def)

definition trees_ok :: "'t \<times> 't \<Rightarrow> bool" where
  "trees_ok st \<longleftrightarrow> tree_all T (utxo_entry E) (fst st) \<and> tree_all T (spent_entry E) (snd st)"

lemma spend_input_abs:
  assumes "trees_ok (u, sp)" and "sled_spend_input T E h i (u, sp) = (u', sp')"
  shows "trees_ok (u', sp') \<and> tree_uabs T E u' = (tree_uabs T E u)(in_out_ref i := None) \<and>
    tree_sabs T E h sp' = (case tree_uabs T E u (in_out_ref i) of
      None \<Rightarrow> tree_sabs T E h sp | Some t \<Rightarrow> (tree_sabs T E h sp)(in_out_ref i \<mapsto> t))"
  using assms utxo_lookup [of u "in_out_ref i"]
  by (auto simp: trees_ok_def tree_simps tree_uabs_remove spent_entry_def tree_sabs_def decoded_def
      fun_eq_iff split: option.splits)

lemma spend_inputs_abs:
  "trees_ok (u, sp) \<Longrightarrow> fold (sled_spend_input T E h) is (u, sp) = (u', sp') \<Longrightarrow>
   trees_ok (u', sp') \<and> tree_uabs T E u' = map_remove_all (map in_out_ref is) (tree_uabs T E u) \<and>
   (\<forall>r. tree_sabs T E h sp' r = (if r \<in> in_out_ref ` set is \<and> tree_uabs T E u r \<noteq> None
      then tree_uabs T E u r else tree_sabs T E h sp r))"
proof (induction "is" arbitrary: u sp)
  case (Cons i "is")
  obtain u1 sp1 where i: "sled_spend_input T E h i (u, sp) = (u1, sp1)"
    by (cases "sled_spend_input T E h i (u, sp)")
  note one = spend_input_abs [OF Cons.prems(1) i]
  have f: "fold (sled_spend_input T E h) is (u1, sp1) = (u', sp')" using Cons.prems(2) i by simp
  have ih: "trees_ok (u', sp')"
    "tree_uabs T E u' = map_remove_all (map in_out_ref is) (tree_uabs T E u1)"
    "tree_sabs T E h sp' r = (if r \<in> in_out_ref ` set is \<and> tree_uabs T E u1 r \<noteq> None
      then tree_uabs T E u1 r else tree_sabs T E h sp1 r)" for r
    using Cons.IH [OF conjunct1 [OF one] f] by blast+
  show ?case
  proof (intro conjI allI)
    show "tree_uabs T E u' = map_remove_all (map in_out_ref (i # is)) (tree_uabs T E u)"
      by (simp only: ih(2) one list.map map_remove_all_simps)
    show "tree_sabs T E h sp' r = (if r \<in> in_out_ref ` set (i # is) \<and> tree_uabs T E u r \<noteq> None
      then tree_uabs T E u r else tree_sabs T E h sp r)" for r
      using one by (auto simp: ih(3) split: option.splits)
  qed (rule ih(1))
qed simp

lemma create_outputs_abs:
  "tree_all T (utxo_entry E) u \<Longrightarrow> tree_all T (utxo_entry E) (sled_create_outputs T E tx u) \<and>
   tree_uabs T E (sled_create_outputs T E tx u) = map_insert_all (tx_created E tx) (tree_uabs T E u)"
proof -
  have "tree_all T (utxo_entry E) u \<Longrightarrow>
      tree_all T (utxo_entry E)
        (fold (\<lambda>(i, output) u. t_insert T (json_out_ref E (f i)) (json_output E output) u) xs u) \<and>
      tree_uabs T E (fold (\<lambda>(i, output) u. t_insert T (json_out_ref E (f i)) (json_output E output) u) xs u) =
        map_insert_all (map (\<lambda>(i, t). (f i, t)) xs) (tree_uabs T E u)" for f :: "nat \<Rightarrow> tx_out_ref" and xs
  proof (induction xs arbitrary: u)
    case (Cons x xs)
    obtain i t where x: "x = (i, t)" by (cases x)
    have "tree_all T (utxo_entry E) (t_insert T (json_out_ref E (f i)) (json_output E t) u)"
      using Cons.prems by (rule tree_all_insert) (auto simp: utxo_entry_def)
    from Cons.IH [OF this] show ?case by (simp add: x tree_uabs_insert del: fun_upd_apply)
  qed simp
  then show "tree_all T (utxo_entry E) u \<Longrightarrow> ?thesis"
    by (simp add: sled_create_outputs_def tx_created_def)
qed

lemma apply_tx_abs:
  assumes "trees_ok (u, sp)" and "sled_apply_tx T E h tx (u, sp) = (u', sp')"
  shows "trees_ok (u', sp') \<and> tree_uabs T E u' = utxo_apply_tx E tx (tree_uabs T E u) \<and>
   (\<forall>r. tree_sabs T E h sp' r = (if r \<in> set (tx_refs tx) \<and> tree_uabs T E u r \<noteq> None
      then tree_uabs T E u r else tree_sabs T E h sp r))"
proof -
  obtain v where v: "fold (sled_spend_input T E h) (tx_inputs tx) (u, sp) = (v, sp')"
    and u': "u' = sled_create_outputs T E tx v"
    using assms(2) by (auto simp: sled_apply_tx_def split: prod.splits)
  show ?thesis
    using spend_inputs_abs [OF assms(1) v] create_outputs_abs [of v tx]
    by (simp add: u' trees_ok_def utxo_apply_tx_def tx_refs_def)
qed

lemma apply_txs_abs:
  "trees_ok (u, sp) \<Longrightarrow> fold (sled_apply_tx T E h) ts (u, sp) = (u', sp') \<Longrightarrow>
   trees_ok (u', sp') \<and> tree_uabs T E u' = fold (utxo_apply_tx E) ts (tree_uabs T E u)"
proof (induction ts arbitrary: u sp)
  case (Cons t ts)
  obtain u1 sp1 where t: "sled_apply_tx T E h t (u, sp) = (u1, sp1)"
    by (cases "sled_apply_tx T E h t (u, sp)")
  then show ?case
    using Cons.IH [of u1 sp1] Cons.prems(2) apply_tx_abs [OF Cons.prems(1) t] by simp
qed simp

lemma apply_txs_spent:
  "trees_ok (u, sp) \<Longrightarrow> fold (sled_apply_tx T E h) ts (u, sp) = (u', sp') \<Longrightarrow>
   set (concat (map tx_refs ts)) \<inter> fst ` set (concat (map (tx_created E) ts)) = {} \<Longrightarrow>
   r \<in> set (concat (map tx_refs ts)) \<Longrightarrow> tree_uabs T E u r = Some x \<Longrightarrow> tree_sabs T E h sp' r = Some x"
proof (induction ts arbitrary: u' sp' rule: rev_induct)
  case (snoc t ts)
  obtain u1 sp1 where f: "fold (sled_apply_tx T E h) ts (u, sp) = (u1, sp1)" by fastforce
  then have t: "sled_apply_tx T E h t (u1, sp1) = (u', sp')" using snoc.prems(2) by simp
  define R C where "R = set (concat (map tx_refs ts))" and "C = fst ` set (concat (map (tx_created E) ts))"
  have disj: "set (concat (map tx_refs ts)) \<inter> fst ` set (concat (map (tx_created E) ts)) = {}"
    using snoc.prems(3) by auto
  note before = apply_txs_abs [OF snoc.prems(1) f]
  note last = apply_tx_abs [OF conjunct1 [OF before] t]
  have "r \<notin> C" using snoc.prems(3,4) by (auto simp: C_def)
  then have u1: "tree_uabs T E u1 r = (if r \<in> R then None else Some x)"
    using before utxo_apply_txs_closed [OF disj, of "tree_uabs T E u"] snoc.prems(5)
    by (simp add: map_insert_all_notin map_remove_all_apply R_def C_def)
  show ?case
  proof (cases "r \<in> R")
    case True
    then have "tree_sabs T E h sp1 r = Some x"
      using snoc.IH [OF snoc.prems(1) f disj _ snoc.prems(5)] by (simp add: R_def)
    then show ?thesis using last u1 True by simp
  next
    case False
    then have "r \<in> set (tx_refs t)" using snoc.prems(4) by (auto simp: R_def)
    then show ?thesis using last u1 False by simp
  qed
qed simp

lemma remove_outputs_abs:
  "tree_all T (utxo_entry E) u \<Longrightarrow> tree_all T (utxo_entry E) (sled_remove_outputs T E tx u) \<and>
   tree_uabs T E (sled_remove_outputs T E tx u) = map_remove_all (map fst (tx_created E tx)) (tree_uabs T E u)"
proof -
  have "tree_all T (utxo_entry E) u \<Longrightarrow>
      tree_all T (utxo_entry E) (fold (\<lambda>i u. t_remove T (json_out_ref E (f i)) u) xs u) \<and>
      tree_uabs T E (fold (\<lambda>i u. t_remove T (json_out_ref E (f i)) u) xs u) =
        map_remove_all (map f xs) (tree_uabs T E u)" for f :: "nat \<Rightarrow> tx_out_ref" and xs
    by (induction xs arbitrary: u) (simp_all add: tree_uabs_remove tree_all_remove)
  then show "tree_all T (utxo_entry E) u \<Longrightarrow> ?thesis"
    by (simp add: sled_remove_outputs_def map_fst_tx_created)
qed

lemma restore_input_abs:
  assumes "trees_ok (u, sp)" and "sled_restore_input T E h i (u, sp) = (u', sp')"
  shows "trees_ok (u', sp') \<and> tree_sabs T E h sp' = (tree_sabs T E h sp)(in_out_ref i := None) \<and>
    tree_uabs T E u' = (case tree_sabs T E h sp (in_out_ref i) of
      None \<Rightarrow> tree_uabs T E u | Some t \<Rightarrow> (tree_uabs T E u)(in_out_ref i \<mapsto> t))"
proof (cases "tree_sabs T E h sp (in_out_ref i)")
  case None
  then show ?thesis
    using assms spent_lookup [of sp h "in_out_ref i"] by (auto simp: trees_ok_def)
next
  case (Some t)
  have "tree_sabs T E h (t_remove T (spent_key E h r) sp) = (tree_sabs T E h sp)(r := None)" for r
    by (auto simp: tree_sabs_def decoded_def get_remove fun_eq_iff)
  then show ?thesis
    using assms spent_lookup [of sp h "in_out_ref i"] Some
    by (auto simp: trees_ok_def tree_uabs_insert tree_all_remove utxo_entry_def intro!: tree_all_insert)
qed

lemma restore_inputs_abs:
  "trees_ok (u, sp) \<Longrightarrow> fold (sled_restore_input T E h) is (u, sp) = (u', sp') \<Longrightarrow>
   trees_ok (u', sp') \<and>
   (\<forall>r. tree_sabs T E h sp' r = (if r \<in> in_out_ref ` set is then None else tree_sabs T E h sp r)) \<and>
   (\<forall>r. tree_uabs T E u' r = (if r \<in> in_out_ref ` set is \<and> tree_sabs T E h sp r \<noteq> None
      then tree_sabs T E h sp r else tree_uabs T E u r))"
proof (induction "is" arbitrary: u sp)
  case (Cons i "is")
  obtain u1 sp1 where i: "sled_restore_input T E h i (u, sp) = (u1, sp1)"
    by (cases "sled_restore_input T E h i (u, sp)")
  note one = restore_input_abs [OF Cons.prems(1) i]
  have "fold (sled_restore_input T E h) is (u1, sp1) = (u', sp')" using Cons.prems(2) i by simp
  with Cons.IH [of u1 sp1] one show ?case by (auto split: option.splits)
qed simp

lemma rollback_tx_abs:
  assumes "trees_ok (u, sp)" and "sled_rollback_tx T E h tx (u, sp) = (u', sp')"
  shows "trees_ok (u', sp') \<and>
   (\<forall>r. tree_sabs T E h sp' r = (if r \<in> set (tx_refs tx) then None else tree_sabs T E h sp r)) \<and>
   (\<forall>r. tree_uabs T E u' r = (if r \<in> set (tx_refs tx) \<and> tree_sabs T E h sp r \<noteq> None
      then tree_sabs T E h sp r else if r \<in> fst ` set (tx_created E tx) then None else tree_uabs T E u r))"
  using assms restore_inputs_abs [of "sled_remove_outputs T E tx u" sp h "tx_inputs tx" u' sp']
    remove_outputs_abs [of u tx]
  by (auto simp: sled_rollback_tx_def trees_ok_def map_remove_all_apply tx_refs_def)

lemma rollback_txs_abs:
  "trees_ok (u, sp) \<Longrightarrow> fold (sled_rollback_tx T E h) ts (u, sp) = (u', sp') \<Longrightarrow>
   set (concat (map tx_refs ts)) \<inter> fst ` set (concat (map (tx_created E) ts)) = {} \<Longrightarrow>
   trees_ok (u', sp') \<and>
   (\<forall>r. tree_uabs T E u' r = (if r \<in> set (concat (map tx_refs ts)) \<and> tree_sabs T E h sp r \<noteq> None
      then tree_sabs T E h sp r
      else if r \<in> fst ` set (concat (map (tx_created E) ts)) then None else tree_uabs T E u r))"
proof (induction ts arbitrary: u sp)
  case (Cons t ts)
  obtain u1 sp1 where t: "sled_rollback_tx T E h t (u, sp) = (u1, sp1)"
    by (cases "sled_rollback_tx T E h t (u, sp)")
  note one = rollback_tx_abs [OF Cons.prems(1) t]
  define R C where "R = set (concat (map tx_refs ts))" and "C = fst ` set (concat (map (tx_created E) ts))"
  have RC: "set (concat (map tx_refs (t # ts))) = set (tx_refs t) \<union> R"
    "fst ` set (concat (map (tx_created E) (t # ts))) = fst ` set (tx_created E t) \<union> C"
    by (auto simp: R_def C_def)
  have disj: "(set (tx_refs t) \<union> R) \<inter> (fst ` set (tx_created E t) \<union> C) = {}"
    using Cons.prems(3) by (simp only: RC)
  have f: "fold (sled_rollback_tx T E h) ts (u1, sp1) = (u', sp')" using Cons.prems(2) t by simp
  have "trees_ok (u', sp') \<and> (\<forall>r. tree_uabs T E u' r = (if r \<in> R \<and> tree_sabs T E h sp1 r \<noteq> None
      then tree_sabs T E h sp1 r else if r \<in> C then None else tree_uabs T E u1 r))"
    unfolding R_def C_def by (rule Cons.IH [OF _ f]) (use one disj in \<open>auto simp: R_def C_def\<close>)
  then show ?case unfolding RC using one disj by auto
qed simp

lemma any_rollback_txs_ok:
  "trees_ok (u, sp) \<Longrightarrow> fold (sled_rollback_tx T E h) ts (u, sp) = (u', sp') \<Longrightarrow> trees_ok (u', sp')"
proof (induction ts arbitrary: u sp)
  case (Cons t ts)
  then show ?case using rollback_tx_abs [of u sp h t] by (cases "sled_rollback_tx T E h t (u, sp)") auto
qed simp

text \<open>The entries of a tree, decoded.\<close>

lemma iter_distinct: "distinct (map fst (t_iter T t))"
  using iter_sorted strict_sorted_iff by blast

lemma iter_set: "(k, v) \<in> set (t_iter T t) \<longleftrightarrow> t_get T t k = Some v"
  using iter_distinct by (simp flip: iter_lookup add: map_of_eq_Some_iff)

lemma items_encode:
  assumes "tree_all T P t" and "\<And>k v. P k v \<Longrightarrow> \<exists>x. (k, v) = enc x"
  shows "\<exists>xs. t_iter T t = map enc xs"
proof -
  have "\<forall>kv \<in> set (t_iter T t). \<exists>x. kv = enc x"
    using assms iter_set tree_allD by fastforce
  then show ?thesis by (auto simp: ex_map_conv)
qed

lemma utxo_items:
  assumes "tree_all T (utxo_entry E) u"
  obtains xs where "t_iter T u = map (\<lambda>(r, t). (json_out_ref E r, json_output E t)) xs"
    "distinct (map fst xs)" "set xs = {(r, t). tree_uabs T E u r = Some t}"
proof -
  let ?enc = "\<lambda>(r, t). (json_out_ref E r, json_output E t)"
  obtain xs where xs: "t_iter T u = map ?enc xs"
    using items_encode [OF assms, of ?enc] by (auto simp: utxo_entry_def)
  have "map fst (t_iter T u) = map (json_out_ref E) (map fst xs)" by (auto simp: xs)
  then have "distinct (map (json_out_ref E) (map fst xs))" using iter_distinct [of u] by (simp only:)
  then have d: "distinct (map fst xs)" by (metis distinct_map)
  have "(r, t) \<in> set xs \<longleftrightarrow> tree_uabs T E u r = Some t" for r t
    using iter_set [of "json_out_ref E r" "json_output E t" u] utxo_lookup [OF assms, of r]
    by (force simp: xs)
  then have "set xs = {(r, t). tree_uabs T E u r = Some t}" by auto
  then show thesis using that xs d by blast
qed

lemma list_utxos_items:
  "collect_results (List.map_filter (sled_utxo_item E a)
     (map (\<lambda>(r, t). (json_out_ref E r, json_output E t)) xs)) =
   Inr (filter (\<lambda>(_, t). out_address t = a) xs)"
  by (induction xs) (auto simp: List.map_filter_def sled_utxo_item_def decode_def)

lemma balance_items:
  "sled_balance_fold E a acc (map (\<lambda>(r, t). (json_out_ref E r, json_output E t)) xs) =
   Inr (fold (\<lambda>x acc. saturating_add acc x)
     (map (out_amount \<circ> snd) (filter (\<lambda>(_, t). out_address t = a) xs)) acc)"
  by (induction xs arbitrary: acc) (auto simp: decode_def)

lemma tree_items_ok [simp]: "tree_items T c t = Inr (t_iter T t)"
  by (simp add: tree_items_def no_io_error)

lemma block_items:
  assumes "sled_inv T E s"
  obtains bs where "t_iter T (sl_blocks_h s) = map (\<lambda>b. (height_key (height (header b)), json_block E b)) bs"
    "sorted_wrt (<) (map (height \<circ> header) bs)" "\<forall>b h. b \<in> set bs \<and> height (header b) = h \<longleftrightarrow> sled_babs T E s h = Some b"
proof -
  let ?enc = "\<lambda>b. (height_key (height (header b)), json_block E b)"
  have ok: "tree_all T (block_entry E) (sl_blocks_h s)" using assms by (simp add: sled_inv_def)
  obtain bs where bs: "t_iter T (sl_blocks_h s) = map ?enc bs"
    using items_encode [OF ok, of ?enc] by (auto simp: block_entry_def)
  have "sorted_wrt (<) (map (height \<circ> header) bs)"
    using iter_sorted [of "sl_blocks_h s"] by (simp add: bs sorted_wrt_map comp_def height_key_def)
  moreover have "b \<in> set bs \<and> height (header b) = h \<longleftrightarrow> sled_babs T E s h = Some b" for b h
  proof
    assume "b \<in> set bs \<and> height (header b) = h"
    then have "(height_key h, json_block E b) \<in> set (t_iter T (sl_blocks_h s))" by (auto simp: bs)
    then show "sled_babs T E s h = Some b" by (simp add: iter_set sled_babs_def decoded_def)
  next
    assume "sled_babs T E s h = Some b"
    then obtain v where v: "t_get T (sl_blocks_h s) (height_key h) = Some v" "unjson_block E v = Inr b"
      by (auto simp: sled_babs_def decoded_def split: option.splits sum.splits)
    then have "(height_key h, v) \<in> set (map ?enc bs)" by (simp flip: bs add: iter_set)
    then show "b \<in> set bs \<and> height (header b) = h"
      using v(2) by (auto simp: height_key_def)
  qed
  ultimately show thesis using that bs by blast
qed

lemma validator_items:
  assumes "sled_inv T E s"
  obtains vs where "t_iter T (sl_validators s) = map (\<lambda>v. (str_bytes (as_str (v_address v)), json_validator E v)) vs"
    "sorted_wrt (<) (map v_address vs)" "\<forall>v a. v \<in> set vs \<and> v_address v = a \<longleftrightarrow> sled_vabs T E s a = Some v"
    "\<forall>v \<in> set vs. v_address v = from_pubkey_bytes E (v_pubkey v)"
proof -
  let ?enc = "\<lambda>v. (str_bytes (as_str (v_address v)), json_validator E v)"
  have ok: "tree_all T (validator_entry E) (sl_validators s)" using assms by (simp add: sled_inv_def)
  obtain vs where vs: "t_iter T (sl_validators s) = map ?enc vs"
    using items_encode [OF ok, of ?enc] by (auto simp: validator_entry_def)
  have "sorted_wrt (<) (map v_address vs)"
    using iter_sorted [of "sl_validators s"] by (simp add: vs sorted_wrt_map comp_def less_address_def)
  moreover have "v \<in> set vs \<and> v_address v = a \<longleftrightarrow> sled_vabs T E s a = Some v" for v a
  proof
    assume "v \<in> set vs \<and> v_address v = a"
    then have "(str_bytes (as_str a), json_validator E v) \<in> set (t_iter T (sl_validators s))"
      by (auto simp: vs)
    then show "sled_vabs T E s a = Some v" by (simp add: iter_set sled_vabs_def decoded_def)
  next
    assume "sled_vabs T E s a = Some v"
    then obtain w where w: "t_get T (sl_validators s) (str_bytes (as_str a)) = Some w"
      "unjson_validator E w = Inr v"
      by (auto simp: sled_vabs_def decoded_def split: option.splits sum.splits)
    then have "(str_bytes (as_str a), w) \<in> set (map ?enc vs)" by (simp flip: vs add: iter_set)
    then show "v \<in> set vs \<and> v_address v = a" using w(2) by (auto intro: address.expand)
  qed
  moreover have "v_address v = from_pubkey_bytes E (v_pubkey v)" if "v \<in> set vs" for v
  proof -
    have "(str_bytes (as_str (v_address v)), json_validator E v) \<in> set (t_iter T (sl_validators s))"
      using that by (auto simp: vs)
    then obtain w where "json_validator E v = json_validator E w" "v_address w = from_pubkey_bytes E (v_pubkey w)"
      using tree_allD [OF ok] by (auto simp: iter_set validator_entry_def)
    then show ?thesis by (metis unjson(4) sum.inject(2))
  qed
  ultimately show thesis using that vs by blast
qed

section \<open>Operations on the abstraction\<close>

lemma sled_get_by_height_abs: "sled_inv T E s \<Longrightarrow> sled_get_by_height T E s h = Inr (sled_babs T E s h)"
  by (cases "t_get T (sl_blocks_h s) (height_key h)")
    (auto simp: sled_get_by_height_def sled_babs_def decoded_def no_io_error decode_def sled_inv_def
      block_entry_def dest!: tree_allD)

lemma sled_insert_abs:
  assumes "sled_inv T E s" and "sled_insert T E s b = (s', r)"
  shows "r = Inr () \<and> sled_inv T E s' \<and> sled_babs T E s' = (sled_babs T E s)(height (header b) \<mapsto> b) \<and>
    sled_uabs T E s' = sled_uabs T E s \<and> sled_vabs T E s' = sled_vabs T E s \<and>
    sled_tip T E s' = Inr (Some (height (header b), hash_of_block E b)) \<and>
    sled_get_by_hash T E s' (hash_of_block E b) = Inr (Some b)"
proof -
  have s': "s' = s\<lparr>sl_blocks_h := t_insert T (height_key (height (header b))) (json_block E b) (sl_blocks_h s),
      sl_blocks_idx := t_insert T (hash_of_block E b) (height_key (height (header b))) (sl_blocks_idx s),
      sl_meta := t_insert T META_TIP (json_tip E (height (header b), hash_of_block E b)) (sl_meta s)\<rparr>"
    and r: "r = Inr ()"
    using assms(2) by (simp_all add: sled_insert_def no_io_error Let_def)
  have inv: "sled_inv T E s'"
    using assms(1) by (auto simp: s' sled_inv_def sled_entry_defs height_key_def intro!: tree_all_insert)
  moreover have babs: "sled_babs T E s' = (sled_babs T E s)(height (header b) \<mapsto> b)"
    by (auto simp: s' sled_babs_def decoded_def get_insert height_key_def fun_eq_iff)
  moreover have "sled_get_by_hash T E s' (hash_of_block E b) = Inr (sled_babs T E s' (height (header b)))"
    using sled_get_by_height_abs [OF inv]
    by (simp add: sled_get_by_hash_def no_io_error s' get_insert height_key_def)
  ultimately show ?thesis
    using r by (simp add: s' sled_uabs_def sled_vabs_def fun_eq_iff sled_tip_def no_io_error get_insert decode_def)
qed

lemma sled_apply_block_abs:
  assumes "sled_inv T E s" and "sled_apply_block T E s b = (s', r)"
  shows "r = Inr () \<and> sled_inv T E s' \<and> sled_uabs T E s' = utxo_apply E b (sled_uabs T E s) \<and>
    sled_babs T E s' = sled_babs T E s \<and> sled_vabs T E s' = sled_vabs T E s \<and>
    sled_tip T E s' = sled_tip T E s \<and> sled_get_by_hash T E s' = sled_get_by_hash T E s \<and>
    \<not> apply_in_progress_flag T s'"
proof -
  obtain u sp where f: "fold (sled_apply_tx T E (height (header b))) (txs b) (sl_utxo s, sl_spent_h s) = (u, sp)"
    by fastforce
  have s': "s' = s\<lparr>sl_utxo := u, sl_spent_h := sp, sl_meta := t_remove T META_APPLY_IN_PROGRESS
      (t_insert T META_APPLY_IN_PROGRESS (height_key (height (header b))) (sl_meta s))\<rparr>" and r: "r = Inr ()"
    using assms(2) by (simp_all add: sled_apply_block_def no_io_error Let_def f)
  have "trees_ok (sl_utxo s, sl_spent_h s)" using assms(1) by (simp add: sled_inv_def trees_ok_def)
  note abs = apply_txs_abs [OF this f]
  have "sled_inv T E s'"
    using assms(1) abs
    by (auto simp: s' sled_inv_def trees_ok_def meta_entry_def intro!: tree_all_insert tree_all_remove)
  moreover have "sled_uabs T E s' = utxo_apply E b (sled_uabs T E s)"
    using abs by (simp add: s' sled_uabs_def utxo_apply_def)
  moreover have gh: "sled_get_by_height T E s' = sled_get_by_height T E s"
    by (simp add: s' sled_get_by_height_def fun_eq_iff no_io_error)
  have "sled_get_by_hash T E s' = sled_get_by_hash T E s"
    unfolding sled_get_by_hash_def fun_eq_iff gh by (simp add: s' no_io_error)
  ultimately show ?thesis
    using r by (simp add: s' sled_babs_def sled_vabs_def fun_eq_iff sled_tip_def
        get_insert get_remove apply_in_progress_flag_def no_io_error)
qed

lemma sled_rollback_block_abs:
  assumes "sled_inv T E s" and "sled_rollback_block T E s b = (s', r)"
  shows "r = Inr () \<and> sled_inv T E s' \<and> sled_vabs T E s' = sled_vabs T E s \<and>
    sled_babs T E s' = (sled_babs T E s)(height (header b) := None) \<and>
    sled_uabs T E s' = tree_uabs T E (fst (fold (sled_rollback_tx T E (height (header b))) (rev (txs b))
      (sl_utxo s, sl_spent_h s)))"
proof -
  let ?h = "height (header b)"
  obtain u sp where f: "fold (sled_rollback_tx T E ?h) (rev (txs b)) (sl_utxo s, sl_spent_h s) = (u, sp)"
    by fastforce
  have "trees_ok (sl_utxo s, sl_spent_h s)" using assms(1) by (simp add: sled_inv_def trees_ok_def)
  then have uok: "tree_all T (utxo_entry E) u" "tree_all T (spent_entry E) sp"
    using any_rollback_txs_ok [OF _ f] by (simp_all add: trees_ok_def)
  define s1 where "s1 = s\<lparr>sl_utxo := u, sl_spent_h := sp\<rparr>"
  have inv1: "sled_inv T E s1" using assms(1) uok by (simp add: s1_def sled_inv_def)
  define tip where "tip = (if ?h = 0 then None
    else map_option (\<lambda>p. json_tip E (?h - 1, hash_of_block E p)) (sled_babs T E s1 (?h - 1)))"
  have s': "s' = s1\<lparr>sl_blocks_h := t_remove T (height_key ?h) (sl_blocks_h s1),
      sl_blocks_idx := t_remove T (hash_of_block E b) (sl_blocks_idx s1),
      sl_meta := (case tip of Some bytes \<Rightarrow> t_insert T META_TIP bytes (sl_meta s1)
        | None \<Rightarrow> t_remove T META_TIP (sl_meta s1))\<rparr>" and r: "r = Inr ()"
    using assms(2) sled_get_by_height_abs [OF inv1, of "?h - 1"]
    by (auto simp: sled_rollback_block_def no_io_error Let_def f tip_def simp flip: s1_def
        split: if_splits option.splits)
  have "sled_inv T E s'"
    using inv1 by (auto simp: s' sled_inv_def meta_entry_def tip_def split: option.splits if_splits
        intro!: tree_all_insert tree_all_remove)
  moreover have "sled_babs T E s' = (sled_babs T E s)(?h := None)"
    by (auto simp: s' s1_def sled_babs_def decoded_def get_remove height_key_def fun_eq_iff)
  ultimately show ?thesis
    using r by (simp add: s' s1_def sled_vabs_def fun_eq_iff sled_uabs_def f)
qed

lemma sled_rollback_tip:
  assumes inv: "sled_inv T E s" and rb: "sled_rollback_block T E s b = (s', r)"
  shows "sled_get_by_height T E s' (height (header b)) = Inr None \<and>
    sled_get_by_hash T E s' (hash_of_block E b) = Inr None \<and>
    sled_tip T E s' = Inr (if height (header b) = 0 then None
      else map_option (\<lambda>p. (height (header b) - 1, hash_of_block E p))
        (sled_babs T E s (height (header b) - 1)))"
proof -
  let ?h = "height (header b)"
  obtain u sp where f: "fold (sled_rollback_tx T E ?h) (rev (txs b)) (sl_utxo s, sl_spent_h s) = (u, sp)"
    by fastforce
  have babs: "sled_babs T E (s\<lparr>sl_utxo := u, sl_spent_h := sp\<rparr>) = sled_babs T E s"
    by (simp add: sled_babs_def fun_eq_iff)
  have "sled_get_by_height T E (s\<lparr>sl_utxo := u, sl_spent_h := sp\<rparr>) h = Inr (sled_babs T E s h)" for h
    using sled_get_by_height_abs [OF inv] by (simp add: sled_get_by_height_def no_io_error)
  then show ?thesis using rb
    by (auto simp: sled_rollback_block_def no_io_error Let_def f babs get_remove get_insert decode_def
        sled_get_by_height_def sled_get_by_hash_def sled_tip_def split: if_splits option.splits)
qed

lemma sled_rollback_apply:
  assumes inv: "sled_inv T E s" and ok: "block_applicable E (sled_uabs T E s) b"
    and ap: "sled_apply_block T E s b = (s', Inr ())" and rb: "sled_rollback_block T E s' b = (s'', r)"
  shows "r = Inr () \<and> sled_inv T E s'' \<and> sled_uabs T E s'' = sled_uabs T E s"
proof -
  let ?h = "height (header b)" and ?U = "sled_uabs T E s"
  define R C where "R = set (concat (map tx_refs (txs b)))"
    and "C = fst ` set (concat (map (tx_created E) (txs b)))"
  obtain u sp where f: "fold (sled_apply_tx T E ?h) (txs b) (sl_utxo s, sl_spent_h s) = (u, sp)" by fastforce
  have s': "sl_utxo s' = u" "sl_spent_h s' = sp"
    using ap by (auto simp: sled_apply_block_def no_io_error Let_def f)
  note after = sled_apply_block_abs [OF inv ap]
  have tok: "trees_ok (sl_utxo s, sl_spent_h s)" using inv by (simp add: sled_inv_def trees_ok_def)
  note disj = block_applicable_disjoint [OF ok]
  have dom: "R \<subseteq> dom ?U" "C \<inter> dom ?U = {}"
    using ok by (auto simp: block_applicable_def block_refs_def block_created_def R_def C_def)
  obtain u2 sp2 where g: "fold (sled_rollback_tx T E ?h) (rev (txs b)) (u, sp) = (u2, sp2)" by fastforce
  have "trees_ok (u, sp)" using apply_txs_abs [OF tok f] by blast
  from rollback_txs_abs [OF this g] disj
  have u2: "tree_uabs T E u2 r = (if r \<in> R \<and> tree_sabs T E ?h sp r \<noteq> None
      then tree_sabs T E ?h sp r else if r \<in> C then None else tree_uabs T E u r)" for r
    by (simp add: R_def C_def)
  have "tree_uabs T E u2 r = ?U r" for r
  proof (cases "r \<in> R")
    case True
    then obtain x where "?U r = Some x" using dom(1) by blast
    then have "tree_sabs T E ?h sp r = Some x"
      using apply_txs_spent [OF tok f disj] True by (simp add: R_def sled_uabs_def)
    then show ?thesis using True \<open>?U r = Some x\<close> by (simp add: u2)
  next
    case False
    have "tree_uabs T E u r = utxo_apply E b ?U r" using after s' by (simp add: sled_uabs_def)
    moreover have "utxo_apply E b ?U r = ?U r" if "r \<notin> C"
      using False that utxo_apply_closed [OF ok]
      by (simp add: map_insert_all_notin map_remove_all_apply R_def C_def block_created_def block_refs_def)
    moreover have "?U r = None" if "r \<in> C" using dom(2) that by blast
    ultimately show ?thesis using False by (simp add: u2)
  qed
  then show ?thesis
    using sled_rollback_block_abs [OF _ rb] after by (auto simp: s' g)
qed

lemma sled_utxo_get_abs: "sled_inv T E s \<Longrightarrow> sled_utxo_get T E s r = Inr (sled_uabs T E s r)"
  using utxo_lookup [of "sl_utxo s" r]
  by (cases "sled_uabs T E s r")
    (auto simp: sled_utxo_get_def no_io_error sled_inv_def sled_uabs_def decode_def)

lemma finite_uabs: "sled_inv T E s \<Longrightarrow> finite (dom (sled_uabs T E s))"
proof -
  assume "sled_inv T E s"
  then have ok: "tree_all T (utxo_entry E) (sl_utxo s)" by (simp add: sled_inv_def)
  obtain xs where "set xs = {(r, t). tree_uabs T E (sl_utxo s) r = Some t}" by (rule utxo_items [OF ok])
  then have "dom (sled_uabs T E s) = fst ` set xs" by (force simp: sled_uabs_def)
  then show ?thesis by simp
qed

lemma sled_iter_from_abs:
  assumes "sled_inv T E s"
  shows "\<exists>bs. sled_iter_from T E s h = Inr bs \<and> sorted_wrt (<) (map (height \<circ> header) bs) \<and>
    set bs = {b. \<exists>k \<ge> h. sled_babs T E s k = Some b}"
proof -
  obtain bs where bs: "t_iter T (sl_blocks_h s) = map (\<lambda>b. (height_key (height (header b)), json_block E b)) bs"
    "sorted_wrt (<) (map (height \<circ> header) bs)"
    "\<forall>b h. b \<in> set bs \<and> height (header b) = h \<longleftrightarrow> sled_babs T E s h = Some b"
    by (rule block_items [OF assms])
  let ?P = "\<lambda>b. h \<le> height (header b)"
  have "collect_results (map (\<lambda>(_, v). decode (unjson_block E) v)
      (filter (\<lambda>(k, _). height_key h \<le> k)
        (map (\<lambda>b. (height_key (height (header b)), json_block E b)) xs))) = Inr (filter ?P xs)" for xs
    by (induction xs) (simp_all add: decode_def height_key_def)
  then have "sled_iter_from T E s h = Inr (filter ?P bs)" by (simp add: sled_iter_from_def bs(1))
  moreover have "sorted_wrt (<) (map (height \<circ> header) (filter ?P bs))"
    using bs(2) by (simp add: sorted_wrt_map sorted_wrt_filter)
  moreover have "set (filter ?P bs) = {b. \<exists>k \<ge> h. sled_babs T E s k = Some b}"
  proof (rule set_eqI)
    fix b
    show "b \<in> set (filter ?P bs) \<longleftrightarrow> b \<in> {b. \<exists>k \<ge> h. sled_babs T E s k = Some b}"
      using bs(3) by (simp only: set_filter mem_Collect_eq) metis
  qed
  ultimately show ?thesis by blast
qed

lemma sled_all_active_abs:
  assumes "sled_inv T E s"
  shows "\<exists>vs. sled_all_active T E s n = Inr vs \<and> sorted_wrt (<) (map v_address vs) \<and>
    set vs = {v. sled_vabs T E s (v_address v) = Some v \<and> v_active_since v \<le> n \<and> 0 < v_stake v}"
proof -
  obtain vs where vs: "t_iter T (sl_validators s) = map (\<lambda>v. (str_bytes (as_str (v_address v)), json_validator E v)) vs"
    "sorted_wrt (<) (map v_address vs)"
    "\<forall>v a. v \<in> set vs \<and> v_address v = a \<longleftrightarrow> sled_vabs T E s a = Some v"
    by (rule validator_items [OF assms])
  let ?P = "\<lambda>v. v_active_since v \<le> n \<and> 0 < v_stake v"
  have "collect_results (List.map_filter (sled_active_item E n)
      (map (\<lambda>v. (str_bytes (as_str (v_address v)), json_validator E v)) xs)) = Inr (filter ?P xs)" for xs
    by (induction xs) (simp_all add: decode_def sled_active_item_def List.map_filter_def)
  then have "sled_all_active T E s n = Inr (filter ?P vs)" by (simp add: sled_all_active_def vs(1))
  moreover have "sorted_wrt (<) (map v_address (filter ?P vs))"
    using vs(2) by (simp add: sorted_wrt_map sorted_wrt_filter)
  moreover have "set (filter ?P vs) = {v. sled_vabs T E s (v_address v) = Some v \<and> ?P v}"
    using vs(3) by auto
  ultimately show ?thesis by blast
qed

lemma sled_list_utxos_abs:
  assumes "sled_inv T E s"
  obtains xs where "sled_list_utxos T E s a = Inr xs" "distinct (map fst xs)"
    "set xs = {(r, t). sled_uabs T E s r = Some t \<and> out_address t = a}"
    "sled_balance T E s a = Inr (fold (\<lambda>x acc. saturating_add acc x) (map (out_amount \<circ> snd) xs) 0)"
proof -
  have ok: "tree_all T (utxo_entry E) (sl_utxo s)" using assms by (simp add: sled_inv_def)
  obtain xs where xs: "t_iter T (sl_utxo s) = map (\<lambda>(r, t). (json_out_ref E r, json_output E t)) xs"
    "distinct (map fst xs)" "set xs = {(r, t). tree_uabs T E (sl_utxo s) r = Some t}"
    by (rule utxo_items [OF ok])
  let ?ys = "filter (\<lambda>(_, t). out_address t = a) xs"
  have "sled_list_utxos T E s a = Inr ?ys"
    by (simp add: sled_list_utxos_def xs(1) list_utxos_items)
  moreover have "sled_balance T E s a = Inr (fold (\<lambda>x acc. saturating_add acc x) (map (out_amount \<circ> snd) ?ys) 0)"
    by (simp add: sled_balance_def xs(1) balance_items)
  moreover have "set ?ys = {(r, t). sled_uabs T E s r = Some t \<and> out_address t = a}"
    using xs(3) by (auto simp: sled_uabs_def)
  ultimately show thesis using that [of ?ys] distinct_map_filter [OF xs(2)] by blast
qed

lemma saturating_sum_small:
  assumes "sum_list (map unat ws) \<le> u64_max"
  shows "fold (\<lambda>x acc. saturating_add acc x) ws 0 = sum_list ws"
  using assms fold_saturating_add [of ws 0] unat_sum_list_small [of ws]
  by (simp add: word_unat_eq_iff)

lemma sled_reads_ok:
  assumes "sled_inv T E s"
  shows "(\<exists>t. sled_tip T E s = Inr t) \<and> (\<exists>x. sled_get_by_hash T E s g = Inr x)"
proof -
  have "\<exists>t. sled_tip T E s = Inr t"
  proof (cases "t_get T (sl_meta s) META_TIP")
    case (Some v)
    have "meta_entry E META_TIP v"
      using assms Some by (intro tree_allD [of T "meta_entry E" "sl_meta s"]) (simp_all add: sled_inv_def)
    then obtain x where "v = json_tip E x" unfolding meta_entry_def by blast
    then show ?thesis using Some by (simp add: sled_tip_def no_io_error decode_def)
  qed (simp add: sled_tip_def no_io_error)
  moreover have "\<exists>x. sled_get_by_hash T E s g = Inr x"
  proof (cases "t_get T (sl_blocks_idx s) g")
    case (Some v)
    then have "length v = 8"
      using tree_allD [of T index_entry "sl_blocks_idx s"] assms by (auto simp: sled_inv_def index_entry_def)
    then show ?thesis using Some sled_get_by_height_abs [OF assms]
      by (simp add: sled_get_by_hash_def no_io_error)
  qed (simp add: sled_get_by_hash_def no_io_error)
  ultimately show ?thesis by blast
qed

lemma sled_validator_get_abs: "sled_inv T E s \<Longrightarrow> sled_validator_get T E s a = Inr (sled_vabs T E s a)"
  by (cases "t_get T (sl_validators s) (str_bytes (as_str a))")
    (auto simp: sled_validator_get_def sled_vabs_def decoded_def no_io_error decode_def sled_inv_def
      validator_entry_def dest!: tree_allD)

lemma sled_upsert_abs:
  assumes "sled_inv T E s" and "v_address v = from_pubkey_bytes E (v_pubkey v)"
  shows "\<exists>s'. sled_upsert T E s v = (s', Inr ()) \<and> sled_inv T E s' \<and>
    sled_vabs T E s' = (sled_vabs T E s)(v_address v \<mapsto> v)"
proof -
  let ?t = "t_insert T (str_bytes (as_str (v_address v))) (json_validator E v) (sl_validators s)"
  have "validator_entry E (str_bytes (as_str (v_address v))) (json_validator E v)"
    unfolding validator_entry_def using assms(2) by blast
  then have "tree_all T (validator_entry E) ?t"
    using assms(1) by (intro tree_all_insert) (simp_all add: sled_inv_def)
  then have "sled_inv T E (s\<lparr>sl_validators := ?t\<rparr>)" using assms(1) by (simp add: sled_inv_def)
  moreover have "sled_vabs T E (s\<lparr>sl_validators := ?t\<rparr>) = (sled_vabs T E s)(v_address v \<mapsto> v)"
    by (auto simp: sled_vabs_def decoded_def get_insert fun_eq_iff address.expand)
  ultimately show ?thesis using assms(2) by (simp add: sled_upsert_def no_io_error Let_def)
qed

end

sublocale sled_backend \<subseteq> chain_store E "sled_block_store T E" "sled_babs T E" "sled_utxo_store T E"
  "sled_uabs T E" "sled_validator_store T E" "sled_vabs T E" "sled_inv T E"
proof (unfold_locales, goal_cases)
  case (1 s h)
  then show ?case by (simp add: sled_block_store_def sled_get_by_height_abs)
next
  case (2 s b)
  then show ?case using sled_insert_abs [of s b]
    by (cases "sled_insert T E s b") (simp add: sled_block_store_def)
next
  case (3 s b s')
  then show ?case using sled_insert_abs [of s b s'] by (simp add: sled_block_store_def)
next
  case (4 s g)
  then show ?case by (simp add: sled_block_store_def sled_reads_ok)
next
  case (5 s h b)
  obtain bs where "\<forall>b h. b \<in> set bs \<and> height (header b) = h \<longleftrightarrow> sled_babs T E s h = Some b"
    by (rule block_items [OF 5(1)])
  then show ?case using 5(2) by blast
next
  case (6 s h)
  then show ?case using sled_iter_from_abs [of s h] by (simp add: sled_block_store_def)
next
  case (7 s r)
  then show ?case by (simp add: sled_utxo_store_def sled_utxo_get_abs)
next
  case (8 s b)
  then show ?case using sled_apply_block_abs [of s b]
    by (cases "sled_apply_block T E s b") (simp add: sled_utxo_store_def)
next
  case (9 s b s')
  then show ?case using sled_rollback_apply [of s b s']
    by (cases "sled_rollback_block T E s' b") (simp add: sled_utxo_store_def)
next
  case (10 s a)
  obtain xs where "sled_list_utxos T E s a = Inr xs" "distinct (map fst xs)"
    "set xs = {(r, t). sled_uabs T E s r = Some t \<and> out_address t = a}"
    by (rule sled_list_utxos_abs [OF 10, of a])
  then show ?case by (auto simp: sled_utxo_store_def)
next
  case (11 s a xs)
  obtain ys where "sled_list_utxos T E s a = Inr ys"
    "sled_balance T E s a = Inr (fold (\<lambda>x acc. saturating_add acc x) (map (out_amount \<circ> snd) ys) 0)"
    by (rule sled_list_utxos_abs [OF 11(1), of a])
  then show ?case using 11(2,3) saturating_sum_small [of "map (out_amount \<circ> snd) xs"]
    by (simp add: sled_utxo_store_def comp_assoc)
next
  case (12 s a)
  then show ?case by (simp add: sled_validator_store_def sled_validator_get_abs)
next
  case (13 s v)
  then show ?case using sled_upsert_abs [of s v] by (simp add: sled_validator_store_def)
next
  case (14 v s)
  then show ?case by (simp add: sled_validator_store_def sled_upsert_def Let_def)
next
  case (15 s a v)
  obtain vs where "\<forall>v a. v \<in> set vs \<and> v_address v = a \<longleftrightarrow> sled_vabs T E s a = Some v"
    "\<forall>v \<in> set vs. v_address v = from_pubkey_bytes E (v_pubkey v)"
    by (rule validator_items [OF 15(1)])
  then show ?case using 15(2) by metis
next
  case (16 s n)
  then show ?case using sled_all_active_abs [of s n] by (simp add: sled_validator_store_def)
next
  case (17 s b s' r)
  then show ?case using sled_insert_abs [of s b s'] by (simp add: sled_block_store_def)
next
  case (18 s b s' r)
  then show ?case using sled_apply_block_abs [of s b s'] by (simp add: sled_utxo_store_def)
next
  case (19 s b s' r)
  then show ?case using sled_apply_block_abs [of s b s']
    by (simp add: sled_utxo_store_def sled_block_store_def)
next
  case (20 s b s' r)
  then show ?case using sled_rollback_block_abs [of s b s'] by (auto simp: sled_utxo_store_def)
next
  case (21 s v s' r)
  then show ?case
    by (auto simp: sled_validator_store_def sled_block_store_def sled_upsert_def no_io_error sled_babs_def
        sled_uabs_def sled_tip_def sled_get_by_hash_def sled_get_by_height_def Let_def fun_eq_iff
        split: if_splits option.splits)
next
  case (22 s b s' r)
  then show ?case using sled_rollback_block_abs [of s b s'] by (simp add: sled_utxo_store_def)
qed

context sled_backend
begin

lemma is_chain_store:
  "chain_store E (sled_block_store T E) (sled_babs T E) (sled_utxo_store T E) (sled_uabs T E)
     (sled_validator_store T E) (sled_vabs T E) (sled_inv T E)"
  by unfold_locales

lemma is_utxo_iface: "utxo_iface E (sled_utxo_store T E) (sled_uabs T E) (sled_inv T E)"
  by unfold_locales

end

section \<open>Red-black trees as the database\<close>

definition rbt_env :: "(byte list, byte list) RBT.rbt sled_env" where
  "rbt_env = \<lparr>t_empty = RBT.empty, t_get = RBT.lookup, t_insert = RBT.insert, t_remove = RBT.delete,
     t_iter = RBT.entries, sled_io = (\<lambda>_. None)\<rparr>"

interpretation rbt_sled: sled_backend rbt_env ref_ext
proof unfold_locales
  show "sorted_wrt (<) (map fst (t_iter rbt_env t))" for t
    using RBT.sorted_entries [of t] RBT.distinct_entries [of t]
    by (simp add: rbt_env_def strict_sorted_iff)
qed (simp_all add: rbt_env_def ref_json_roundtrip)

lemma rbt_env_simps:
  "t_get rbt_env = RBT.lookup" "t_insert rbt_env = RBT.insert" "t_empty rbt_env = RBT.empty"
  by (simp_all add: rbt_env_def)

lemma sled_new_inv: "sled_tree T \<Longrightarrow> sled_inv T E (sled_new_temporary T)"
  by (simp add: sled_inv_def tree_all_def sled_new_temporary_def sled_tree.get_empty)

lemma sled_new_abs:
  assumes "sled_tree T"
  shows "sled_uabs T E (sled_new_temporary T) = Map.empty" "sled_babs T E (sled_new_temporary T) = Map.empty"
    "sled_vabs T E (sled_new_temporary T) = Map.empty"
  using sled_tree.get_empty [OF assms]
  by (simp_all add: sled_uabs_def tree_uabs_def sled_babs_def sled_vabs_def sled_new_temporary_def
      decoded_def fun_eq_iff)

lemmas rbt_new = sled_new_inv [OF rbt_sled.sled_tree_axioms] sled_new_abs [OF rbt_sled.sled_tree_axioms]

section \<open>Properties\<close>

text \<open>
  Claim C5: \<open>rollback_block\<close> undoes \<open>apply_block\<close>.  After a block that spends existing outputs and
  creates new references has been applied and rolled back, every reference reads as before.
\<close>

theorem sled_rollback_undoes_apply:
  assumes "sled_backend T E" and "sled_inv T E s" and "block_applicable E (sled_uabs T E s) b"
    and "sled_apply_block T E s b = (s1, Inr ())" and "sled_rollback_block T E s1 b = (s2, r)"
  shows "r = Inr () \<and> (\<forall>ref. sled_utxo_get T E s2 ref = sled_utxo_get T E s ref)"
proof -
  note undo = sled_backend.sled_rollback_apply [OF assms]
  show ?thesis
    using undo sled_backend.sled_utxo_get_abs [OF assms(1)] assms(2) by simp
qed

definition sample_sled :: "(byte list, byte list) RBT.rbt sled_store" where
  "sample_sled = fst (sled_apply_block rbt_env ref_ext (sled_new_temporary rbt_env)
     (sample_block 0 [sample_tx 5]))"

lemma sample_sled_ok:
  "sled_inv rbt_env ref_ext sample_sled"
  "sled_uabs rbt_env ref_ext sample_sled = utxo_apply ref_ext (sample_block 0 [sample_tx 5]) Map.empty"
  using rbt_sled.sled_apply_block_abs [OF rbt_new(1), of "sample_block 0 [sample_tx 5]"] rbt_new(2)
  by (simp_all add: sample_sled_def prod_eq_iff)

theorem sled_rollback_undoes_apply_witness:
  "\<exists>s1 s2. sled_apply_block rbt_env ref_ext sample_sled (sample_block 1 [sample_spend 5 4]) = (s1, Inr ()) \<and>
     sled_rollback_block rbt_env ref_ext s1 (sample_block 1 [sample_spend 5 4]) = (s2, Inr ()) \<and>
     sled_utxo_get rbt_env ref_ext s2 (out_ref_at ref_ext (sample_tx 5) 0) =
       sled_utxo_get rbt_env ref_ext sample_sled (out_ref_at ref_ext (sample_tx 5) 0)"
proof -
  let ?b = "sample_block 1 [sample_spend 5 4]"
  obtain s1 r1 where a: "sled_apply_block rbt_env ref_ext sample_sled ?b = (s1, r1)" by fastforce
  then have "r1 = Inr ()" using rbt_sled.sled_apply_block_abs [OF sample_sled_ok(1) a] by simp
  obtain s2 r2 where b: "sled_rollback_block rbt_env ref_ext s1 ?b = (s2, r2)" by fastforce
  from sled_rollback_undoes_apply [OF rbt_sled.sled_backend_axioms sample_sled_ok(1) _ _ b]
  show ?thesis using a b sample_applicable \<open>r1 = Inr ()\<close> by (auto simp: sample_sled_ok(2))
qed

text \<open>
  Claim C7: the crash sentinel covers every failure of \<open>apply_block\<close>, whatever calls of the database
  fail.  A successful call leaves no sentinel; a failed one either changed nothing, or left the
  sentinel with the height of the block, and the UTXO and spent trees are those before the block or
  those after the whole block.
\<close>

theorem sled_sentinel_covers_failure:
  assumes "sled_tree T" and "sled_apply_block T E s b = (s', r)"
  shows "case r of
      Inr _ \<Rightarrow> t_get T (sl_meta s') META_APPLY_IN_PROGRESS = None
    | Inl _ \<Rightarrow> s' = s \<or>
        t_get T (sl_meta s') META_APPLY_IN_PROGRESS = Some (height_key (height (header b))) \<and>
        (sl_utxo s', sl_spent_h s') \<in> {(sl_utxo s, sl_spent_h s),
           fold (sled_apply_tx T E (height (header b))) (txs b) (sl_utxo s, sl_spent_h s)}"
  using assms(2) sled_tree.get_insert [OF assms(1)] sled_tree.get_remove [OF assms(1)]
  by (auto simp: sled_apply_block_def Let_def split: option.splits prod.splits)

definition faulty_env :: "(byte list, byte list) RBT.rbt sled_env" where
  "faulty_env = rbt_env\<lparr>sled_io := (\<lambda>c. if c = ApplyTxn then Some ''disk full'' else None)\<rparr>"

lemma faulty_tree: "sled_tree faulty_env"
  using rbt_sled.sled_tree_axioms by (simp add: sled_tree_def faulty_env_def)

theorem sled_sentinel_covers_failure_witness:
  "\<exists>s'. sled_apply_block faulty_env ref_ext (sled_new_temporary faulty_env) (sample_block 3 [sample_tx 5]) =
     (s', Inl (Backend ''disk full'')) \<and> apply_in_progress_flag faulty_env s' \<and>
     sl_utxo s' = RBT.empty"
proof -
  obtain s' r where a: "sled_apply_block faulty_env ref_ext (sled_new_temporary faulty_env)
    (sample_block 3 [sample_tx 5]) = (s', r)" by fastforce
  from sled_sentinel_covers_failure [OF faulty_tree a] a show ?thesis
    by (auto simp: sled_apply_block_def faulty_env_def rbt_env_def sled_new_temporary_def
        apply_in_progress_flag_def)
qed

text \<open>
  Rolling back a block forgets it and makes its parent the tip: the block is found neither
  by height nor by hash, and the tip is the stored block one below, or nothing at height 0.
\<close>

lemma sled_rollback_moves_tip:
  assumes "sled_backend T E" and "sled_inv T E s" and "sled_rollback_block T E s b = (s', r)"
  shows "sled_get_by_height T E s' (height (header b)) = Inr None \<and>
    sled_get_by_hash T E s' (hash_of_block E b) = Inr None \<and>
    sled_tip T E s' = Inr (if height (header b) = 0 then None
      else map_option (\<lambda>p. (height (header b) - 1, hash_of_block E p))
        (sled_babs T E s (height (header b) - 1)))"
  using sled_backend.sled_rollback_tip [OF assms] by blast

end
