(* ===== verification/Bcc_Store_Agreement.thy ===== *)
theory Bcc_Store_Agreement
  imports Bcc_Memory_Store Bcc_Sled_Store
begin

text \<open>
  The in-memory store, which the tests of the repository run against, and the sled store, which the
  node runs on, are interchangeable: every provider of \<open>chain_store\<close> refines an abstract ledger of three
  maps, \<open>store_pair\<close> relates two providers, and every sequence of trait writes from empty stores leaves
  both answering every read alike.
\<close>

section \<open>Writes through the traits\<close>

datatype store_write = WInsert block | WApply block | WUpsert validator

fun store_step ::
  "'s block_store \<Rightarrow> 's utxo_store \<Rightarrow> 's validator_store \<Rightarrow> 's \<Rightarrow> store_write \<Rightarrow> 's \<times> unit store_result" where
  "store_step B U V s (WInsert b) = bs_insert B s b"
| "store_step B U V s (WApply b) = us_apply_block U s b"
| "store_step B U V s (WUpsert v) = vs_upsert V s v"

primrec store_run ::
  "'s block_store \<Rightarrow> 's utxo_store \<Rightarrow> 's validator_store \<Rightarrow> 's \<Rightarrow> store_write list \<Rightarrow>
   's \<times> unit store_result list" where
  "store_run B U V s [] = (s, [])"
| "store_run B U V s (w # ws) =
     (let (s1, r) = store_step B U V s w; (s2, rs) = store_run B U V s1 ws in (s2, r # rs))"

section \<open>The abstract ledger\<close>

record ledger =
  lg_blocks :: "u64 \<rightharpoonup> block"
  lg_utxo :: utxo_map
  lg_validators :: "address \<rightharpoonup> validator"

definition ledger_empty :: ledger where
  "ledger_empty = \<lparr>lg_blocks = Map.empty, lg_utxo = Map.empty, lg_validators = Map.empty\<rparr>"

fun ledger_step :: "ext \<Rightarrow> ledger \<Rightarrow> store_write \<Rightarrow> ledger \<times> unit store_result" where
  "ledger_step E L (WInsert b) = (L\<lparr>lg_blocks := (lg_blocks L)(height (header b) \<mapsto> b)\<rparr>, Inr ())"
| "ledger_step E L (WApply b) = (L\<lparr>lg_utxo := utxo_apply E b (lg_utxo L)\<rparr>, Inr ())"
| "ledger_step E L (WUpsert v) =
     (let expected = from_pubkey_bytes E (v_pubkey v) in
      if v_address v = expected then (L\<lparr>lg_validators := (lg_validators L)(v_address v \<mapsto> v)\<rparr>, Inr ())
      else (L, Inl (Backend (Bcc_Store.upsert_mismatch v expected))))"

primrec ledger_run :: "ext \<Rightarrow> ledger \<Rightarrow> store_write list \<Rightarrow> ledger \<times> unit store_result list" where
  "ledger_run E L [] = (L, [])"
| "ledger_run E L (w # ws) =
     (let (L1, r) = ledger_step E L w; (L2, rs) = ledger_run E L1 ws in (L2, r # rs))"

context chain_store
begin

definition ledger_of :: "'s \<Rightarrow> ledger" where
  "ledger_of s = \<lparr>lg_blocks = babs s, lg_utxo = uabs s, lg_validators = vabs s\<rparr>"

lemma step_refines:
  assumes "inv s" and "store_step B U V s w = (s', r)"
  shows "inv s' \<and> ledger_step E (ledger_of s) w = (ledger_of s', r)"
proof (cases w)
  case (WInsert b)
  then show ?thesis
    using assms(2) insert_ok [OF assms(1), of b] insert_frame [OF assms(1), of b] by (auto simp: ledger_of_def)
next
  case (WApply b)
  then show ?thesis
    using assms(2) apply_ok [OF assms(1), of b] apply_frame [OF assms(1), of b] by (auto simp: ledger_of_def)
next
  case (WUpsert v)
  then show ?thesis
    using assms upsert_ok [OF assms(1), of v] upsert_frame [OF assms(1), of v] upsert_mismatch [of v s]
    by (cases "v_address v = from_pubkey_bytes E (v_pubkey v)") (auto simp: ledger_of_def)
qed

lemma run_refines:
  "inv s \<Longrightarrow> store_run B U V s ws = (s', rs) \<Longrightarrow> inv s' \<and> ledger_run E (ledger_of s) ws = (ledger_of s', rs)"
proof (induction ws arbitrary: s rs)
  case (Cons w ws)
  obtain s1 r where w: "store_step B U V s w = (s1, r)" by fastforce
  obtain s2 rs2 where ws: "store_run B U V s1 ws = (s2, rs2)" by fastforce
  show ?case
    using Cons.prems step_refines [OF Cons.prems(1) w] Cons.IH [of s1 rs2] w ws by simp
qed simp

lemma ledger_reads:
  assumes "inv s"
  shows "bs_get_by_height B s h = Inr (lg_blocks (ledger_of s) h)" "us_get U s r = Inr (lg_utxo (ledger_of s) r)"
    "vs_get V s a = Inr (lg_validators (ledger_of s) a)"
  using assms by (simp_all add: ledger_of_def get_by_height utxo_get validator_get)

end

section \<open>Two providers of the interface\<close>

locale store_pair =
  A: chain_store E B1 babs1 U1 uabs1 V1 vabs1 inv1 + C: chain_store E B2 babs2 U2 uabs2 V2 vabs2 inv2
  for E :: ext
    and B1 :: "'s block_store" and babs1 and U1 :: "'s utxo_store" and uabs1
    and V1 :: "'s validator_store" and vabs1 and inv1
    and B2 :: "'t block_store" and babs2 and U2 :: "'t utxo_store" and uabs2
    and V2 :: "'t validator_store" and vabs2 and inv2
begin

definition related :: "'s \<Rightarrow> 't \<Rightarrow> bool" where
  "related s t \<longleftrightarrow> inv1 s \<and> inv2 t \<and> babs1 s = babs2 t \<and> uabs1 s = uabs2 t \<and> vabs1 s = vabs2 t"

lemma run_related:
  assumes "related s t" and "store_run B1 U1 V1 s ws = (s', rs)" and "store_run B2 U2 V2 t ws = (t', qs)"
  shows "rs = qs \<and> related s' t'"
proof -
  have inv: "inv1 s" "inv2 t" and eq: "A.ledger_of s = C.ledger_of t"
    using assms(1) by (simp_all add: related_def A.ledger_of_def C.ledger_of_def)
  from A.run_refines [OF inv(1) assms(2)] C.run_refines [OF inv(2) assms(3)]
  have "inv1 s'" "inv2 t'" "A.ledger_of s' = C.ledger_of t'" "rs = qs" by (simp_all add: eq)
  then show ?thesis by (simp add: related_def A.ledger_of_def C.ledger_of_def)
qed

lemma related_reads:
  assumes "related s t"
  shows "bs_get_by_height B1 s h = bs_get_by_height B2 t h" "us_get U1 s r = us_get U2 t r"
    "vs_get V1 s a = vs_get V2 t a" "bs_iter_from B1 s h = bs_iter_from B2 t h"
    "vs_all_active V1 s n = vs_all_active V2 t n"
proof -
  have inv: "inv1 s" "inv2 t" and eq: "babs1 s = babs2 t" "uabs1 s = uabs2 t" "vabs1 s = vabs2 t"
    using assms by (simp_all add: related_def)
  show "bs_get_by_height B1 s h = bs_get_by_height B2 t h" "us_get U1 s r = us_get U2 t r"
    "vs_get V1 s a = vs_get V2 t a"
    by (simp_all add: inv eq A.get_by_height C.get_by_height A.utxo_get C.utxo_get A.validator_get C.validator_get)
  obtain bs cs where bs: "bs_iter_from B1 s h = Inr bs" "sorted_wrt (<) (map (height \<circ> header) bs)"
      "set bs = {b. \<exists>k \<ge> h. babs2 t k = Some b}"
    and cs: "bs_iter_from B2 t h = Inr cs" "sorted_wrt (<) (map (height \<circ> header) cs)"
      "set cs = {b. \<exists>k \<ge> h. babs2 t k = Some b}"
    using A.iter_from [OF inv(1), of h] C.iter_from [OF inv(2), of h] unfolding eq(1) by blast
  have "bs = cs" using bs(2) cs(2) by (rule strict_sorted_key_eq) (simp only: bs(3) cs(3))
  then show "bs_iter_from B1 s h = bs_iter_from B2 t h" using bs(1) cs(1) by simp
  obtain vs ws where vs: "vs_all_active V1 s n = Inr vs" "sorted_wrt (<) (map v_address vs)"
      "set vs = {v. vabs2 t (v_address v) = Some v \<and> v_active_since v \<le> n \<and> 0 < v_stake v}"
    and ws: "vs_all_active V2 t n = Inr ws" "sorted_wrt (<) (map v_address ws)"
      "set ws = {v. vabs2 t (v_address v) = Some v \<and> v_active_since v \<le> n \<and> 0 < v_stake v}"
    using A.all_active [OF inv(1), of n] C.all_active [OF inv(2), of n] unfolding eq(3) by blast
  have "vs = ws" using vs(2) ws(2) by (rule strict_sorted_key_eq) (simp only: vs(3) ws(3))
  then show "vs_all_active V1 s n = vs_all_active V2 t n" using vs(1) ws(1) by simp
qed

lemma related_utxos:
  assumes "related s t"
  shows "\<exists>xs ys. us_list_utxos U1 s a = Inr xs \<and> us_list_utxos U2 t a = Inr ys \<and> mset xs = mset ys"
proof -
  obtain xs where xs: "us_list_utxos U1 s a = Inr xs" "distinct (map fst xs)"
    "set xs = {(r, t). uabs1 s r = Some t \<and> out_address t = a}"
    using A.list_utxos [of s a] assms by (auto simp: related_def)
  obtain ys where ys: "us_list_utxos U2 t a = Inr ys" "distinct (map fst ys)"
    "set ys = {(r, t). uabs1 s r = Some t \<and> out_address t = a}"
    using C.list_utxos [of t a] assms by (auto simp: related_def)
  have "mset xs = mset ys"
    using xs ys by (simp add: set_eq_iff_mset_eq_distinct [symmetric] distinct_map)
  then show ?thesis using xs ys by blast
qed

end

section \<open>The two stores of the node\<close>

lemma mem_new: "mem_inv E memory_store_new" "mem_babs memory_store_new = Map.empty"
  "mem_uabs memory_store_new = Map.empty" "mem_vabs memory_store_new = Map.empty"
  by (simp_all add: mem_inv_def memory_store_new_def mem_abs_defs)

sublocale sled_backend \<subseteq> mem_sled: store_pair E "mem_block_store E" mem_babs "mem_utxo_store E" mem_uabs
  "mem_validator_store E" mem_vabs "mem_inv E" "sled_block_store T E" "sled_babs T E"
  "sled_utxo_store T E" "sled_uabs T E" "sled_validator_store T E" "sled_vabs T E" "sled_inv T E"
  by unfold_locales

definition mem_run :: "ext \<Rightarrow> store_write list \<Rightarrow> memory_store \<times> unit store_result list" where
  "mem_run E = store_run (mem_block_store E) (mem_utxo_store E) (mem_validator_store E) memory_store_new"

definition sled_run :: "'t sled_env \<Rightarrow> ext \<Rightarrow> store_write list \<Rightarrow> 't sled_store \<times> unit store_result list" where
  "sled_run T E = store_run (sled_block_store T E) (sled_utxo_store T E) (sled_validator_store T E)
     (sled_new_temporary T)"

context sled_backend
begin

lemma runs_related:
  assumes "mem_run E ws = (m, rs)" and "sled_run T E ws = (s, qs)"
  shows "rs = qs \<and> mem_sled.related m s"
proof -
  have "mem_sled.related memory_store_new (sled_new_temporary T)"
    using sled_tree_axioms by (simp add: mem_sled.related_def mem_new sled_new_inv sled_new_abs)
  from mem_sled.run_related [OF this] assms show ?thesis by (simp add: mem_run_def sled_run_def)
qed

lemmas store_object_defs = mem_block_store_def sled_block_store_def mem_utxo_store_def sled_utxo_store_def
  mem_validator_store_def sled_validator_store_def

lemma run_ledger:
  assumes "sled_run T E ws = (s, rs)" and "ledger_run E ledger_empty ws = (L, qs)"
  shows "rs = qs \<and> sled_get_by_height T E s h = Inr (lg_blocks L h) \<and> sled_utxo_get T E s ref = Inr (lg_utxo L ref) \<and>
    sled_validator_get T E s a = Inr (lg_validators L a)"
proof -
  have "ledger_of (sled_new_temporary T) = ledger_empty"
    using sled_tree_axioms by (simp add: ledger_of_def ledger_empty_def sled_new_abs)
  with run_refines [of "sled_new_temporary T" ws s rs] assms
  have "sled_inv T E s" "L = ledger_of s" "qs = rs" by (auto simp: sled_run_def sled_new_inv sled_tree_axioms)
  then show ?thesis using ledger_reads [of s] by (simp add: store_object_defs)
qed

lemma runs_agree:
  assumes "mem_run E ws = (m, rs)" and "sled_run T E ws = (s, qs)"
  shows "rs = qs \<and> mem_get_by_height m h = sled_get_by_height T E s h \<and>
    mem_iter_from m h = sled_iter_from T E s h \<and> mem_utxo_get m ref = sled_utxo_get T E s ref \<and>
    mem_validator_get m a = sled_validator_get T E s a \<and> mem_all_active m n = sled_all_active T E s n"
  using runs_related [OF assms] mem_sled.related_reads [of m s] by (simp add: store_object_defs)

lemma runs_balance:
  assumes "mem_run E ws = (m, rs)" and "sled_run T E ws = (s, qs)"
    and "mem_list_utxos m a = Inr xs" and "sum_list (map (unat \<circ> out_amount \<circ> snd) xs) \<le> u64_max"
  shows "(\<exists>ys. sled_list_utxos T E s a = Inr ys \<and> mset xs = mset ys) \<and>
    mem_balance m a = sled_balance T E s a"
proof -
  have rel: "mem_sled.related m s" using runs_related [OF assms(1,2)] by blast
  then have inv: "mem_inv E m" "sled_inv T E s" by (simp_all add: mem_sled.related_def)
  obtain ys where ys: "us_list_utxos (sled_utxo_store T E) s a = Inr ys" "mset xs = mset ys"
    using mem_sled.related_utxos [OF rel, of a] assms(3) by (auto simp: mem_utxo_store_def)
  have sums: "sum_list (map f xs) = sum_list (map f ys)" for f :: "tx_out_ref \<times> tx_output \<Rightarrow> 'z :: comm_monoid_add"
    using ys(2) by (metis mset_map sum_mset_sum_list)
  show ?thesis
    using mem.balance [OF inv(1), of a xs] balance [OF inv(2) ys(1)] assms(3,4) ys
    by (simp add: mem_utxo_store_def sled_utxo_store_def sums)
qed

end

text \<open>
  Claim C8: the sled store refines a ledger of three maps.  After any sequence of inserts, block
  applications and validator upserts from an empty database, the results and every lookup are those
  of the abstract machine that keeps blocks by height, the UTXO set and the validators as maps.
\<close>

theorem sled_refines_ledger:
  assumes "sled_backend T E" and "sled_run T E ws = (s, rs)" and "ledger_run E ledger_empty ws = (L, qs)"
  shows "rs = qs \<and> sled_get_by_height T E s h = Inr (lg_blocks L h) \<and> sled_utxo_get T E s ref = Inr (lg_utxo L ref) \<and>
    sled_validator_get T E s a = Inr (lg_validators L a)"
  using assms(2,3) by (rule sled_backend.run_ledger [OF assms(1)])

theorem sled_refines_ledger_witness:
  "sled_utxo_get rbt_env ref_ext (fst (sled_run rbt_env ref_ext [WApply (sample_block 0 [sample_tx 5])]))
     (out_ref_at ref_ext (sample_tx 5) 0) =
   Inr (lg_utxo (fst (ledger_run ref_ext ledger_empty [WApply (sample_block 0 [sample_tx 5])])) (out_ref_at ref_ext (sample_tx 5) 0))"
  using sled_refines_ledger [OF rbt_sled.sled_backend_axioms prod.collapse [symmetric] prod.collapse [symmetric]]
  by blast



text \<open>
  The unspent outputs of an address are listed alike up to order, and the balances agree
  while they fit into 64 bits (the in-memory sum wraps, the other saturates).
\<close>

lemma stores_agree_balance:
  assumes "sled_backend T E" and "mem_run E ws = (m, rs)" and "sled_run T E ws = (s, qs)"
    and "mem_list_utxos m a = Inr xs" and "sum_list (map (unat \<circ> out_amount \<circ> snd) xs) \<le> u64_max"
  shows "(\<exists>ys. sled_list_utxos T E s a = Inr ys \<and> mset xs = mset ys) \<and>
    mem_balance m a = sled_balance T E s a"
  using assms(2-5) by (rule sled_backend.runs_balance [OF assms(1)])

end
