(* ===== verification/Bcc_Validation.thy ===== *)
theory Bcc_Validation
  imports Bcc_Consensus Bcc_Store_Agreement
begin

text \<open>
  \<open>bcc-core/src/validation\<close>: \<open>validate_transaction\<close> and \<open>validate_block\<close> over any store, with the
  conditions that acceptance is equivalent to, the input an error names, what an accepted block
  guarantees about its proposer, and how the two checks bound the money supply: blocks that spend
  each output once and whose output sums do not wrap never increase it.  The two provisos are not
  checked by the code, as the last theorems show.
\<close>

section \<open>Transactions\<close>

datatype tx_validation_error =
    EmptyOutputs
  | ZeroValueOutput nat
  | InputNotFound
  | InvalidOwner nat
  | InvalidSignature nat
  | InsufficientFunds u64 u64
  | TxStore store_error

fun show_tx_error :: "tx_validation_error \<Rightarrow> string" where
  "show_tx_error EmptyOutputs = ''transaction has no outputs''"
| "show_tx_error (ZeroValueOutput i) = ''output at index '' @ show_nat i @ '' has zero value''"
| "show_tx_error InputNotFound = ''input references an unknown or already spent UTXO''"
| "show_tx_error (InvalidOwner i) = ''input '' @ show_nat i @ '' pubkey does not match UTXO owner address''"
| "show_tx_error (InvalidSignature i) = ''input '' @ show_nat i @ '' signature is invalid''"
| "show_tx_error (InsufficientFunds ins outs) = ''sum of inputs ('' @ show_nat (unat ins) @
     '') is less than sum of outputs ('' @ show_nat (unat outs) @ '')''"
| "show_tx_error (TxStore e) = ''store error: '' @ show_store_error e"

definition signing_data :: "transaction \<Rightarrow> tx_signing_data" where
  "signing_data tx = \<lparr>sd_kind = tx_kind tx, sd_inputs = map in_out_ref (tx_inputs tx),
     sd_outputs = tx_outputs tx\<rparr>"

definition tx_signing_bytes :: "ext \<Rightarrow> transaction \<Rightarrow> byte list" where
  "tx_signing_bytes E tx = json_signing E (signing_data tx)"

text \<open>The two loops of \<open>validate_transaction\<close>.\<close>

fun check_outputs :: "nat \<Rightarrow> tx_output list \<Rightarrow> tx_validation_error + unit" where
  "check_outputs i [] = Inr ()"
| "check_outputs i (out # outs) =
     (if out_amount out = 0 then Inl (ZeroValueOutput i) else check_outputs (i + 1) outs)"

fun check_inputs ::
  "ext \<Rightarrow> (tx_out_ref \<Rightarrow> tx_output option store_result) \<Rightarrow> byte list \<Rightarrow> nat \<Rightarrow> u64 \<Rightarrow> tx_input list \<Rightarrow>
   tx_validation_error + u64" where
  "check_inputs E get msg idx total_in [] = Inr total_in"
| "check_inputs E get msg idx total_in (input # inputs) =
     (case get (in_out_ref input) of
        Inl e \<Rightarrow> Inl (TxStore e)
      | Inr None \<Rightarrow> Inl InputNotFound
      | Inr (Some unspent) \<Rightarrow>
          if out_address unspent \<noteq> from_pubkey_bytes E (in_pubkey input) then Inl (InvalidOwner idx)
          else case verify E (in_pubkey input) msg (in_signature input) of
            Inl _ \<Rightarrow> Inl (InvalidSignature idx)
          | Inr _ \<Rightarrow>
              check_inputs E get msg (idx + 1) (saturating_add total_in (out_amount unspent)) inputs)"

definition validate_transaction ::
  "ext \<Rightarrow> 's utxo_store \<Rightarrow> 's \<Rightarrow> transaction \<Rightarrow> tx_validation_error + unit" where
  "validate_transaction E U s tx =
     (if tx_outputs tx = [] then Inl EmptyOutputs
      else case check_outputs 0 (tx_outputs tx) of Inl e \<Rightarrow> Inl e
      | Inr _ \<Rightarrow>
        (case check_inputs E (us_get U s) (tx_signing_bytes E tx) 0 0 (tx_inputs tx) of Inl e \<Rightarrow> Inl e
         | Inr total_in \<Rightarrow>
           (let total_out = sum_list (map out_amount (tx_outputs tx))
            in if total_in < total_out then Inl (InsufficientFunds total_in total_out) else Inr ())))"

section \<open>Blocks\<close>

datatype block_validation_error =
    BadSignature
  | ProposerMismatch string string
  | NoValidators u64
  | BadParentHash
  | BadHeight
  | BadTimestamp
  | TimestampBeyondSlot i64 u64 i64
  | InvalidTransaction string
  | BadMerkleRoot
  | BlockStoreErr store_error
  | Serialization string

fun show_block_error :: "block_validation_error \<Rightarrow> string" where
  "show_block_error BadSignature = ''block signature is invalid''"
| "show_block_error (ProposerMismatch ex got) = ''proposer mismatch: expected '' @ ex @ '', got '' @ got"
| "show_block_error (NoValidators n) = ''no eligible validators for slot '' @ show_nat (unat n)"
| "show_block_error BadParentHash = ''parent hash does not match''"
| "show_block_error BadHeight = ''block height is not monotonically increasing''"
| "show_block_error BadTimestamp = ''block timestamp is before parent timestamp''"
| "show_block_error (TimestampBeyondSlot ts n se) = ''block timestamp '' @ show_int (sint ts) @
     '' is past the end of slot '' @ show_nat (unat n) @ '' (slot ends at '' @ show_int (sint se) @ '')''"
| "show_block_error (InvalidTransaction m) = ''transaction validation failed: '' @ m"
| "show_block_error BadMerkleRoot = ''merkle root mismatch''"
| "show_block_error (BlockStoreErr e) = ''storage error: '' @ show_store_error e"
| "show_block_error (Serialization m) = ''serialization error: '' @ m"

fun validate_txs ::
  "ext \<Rightarrow> 's utxo_store \<Rightarrow> 's \<Rightarrow> transaction list \<Rightarrow> block_validation_error + unit" where
  "validate_txs E U s [] = Inr ()"
| "validate_txs E U s (tx # ts) =
     (case validate_transaction E U s tx of
        Inl e \<Rightarrow> Inl (InvalidTransaction (show_tx_error e))
      | Inr _ \<Rightarrow> validate_txs E U s ts)"

text \<open>\<open>slot as i64\<close> and \<open>slot_duration_secs as i64\<close> keep the bits; the product wraps.\<close>

definition slot_end :: "u64 \<Rightarrow> u64 \<Rightarrow> i64" where
  "slot_end n slot_duration_secs = (n + 1) * slot_duration_secs"

definition validate_block ::
  "ext \<Rightarrow> 's utxo_store \<Rightarrow> 's validator_store \<Rightarrow> 's \<Rightarrow> block \<Rightarrow> block \<Rightarrow> u64 \<Rightarrow>
   block_validation_error + unit" where
  "validate_block E U V s b parent slot_duration_secs =
     (let hd = header b; se = slot_end (slot hd) slot_duration_secs in
      if height hd \<noteq> height (header parent) + 1 then Inl BadHeight
      else if prev_hash hd \<noteq> hash_of_block E parent then Inl BadParentHash
      else if sint (timestamp hd) < sint (timestamp (header parent)) then Inl BadTimestamp
      else if sint se \<le> sint (timestamp hd) then Inl (TimestampBeyondSlot (timestamp hd) (slot hd) se)
      else case vs_all_active V s (slot hd) of Inl e \<Rightarrow> Inl (BlockStoreErr e)
      | Inr active \<Rightarrow>
        (case elect_proposer E (slot hd) (hash_of_block E parent) active of
           None \<Rightarrow> Inl (NoValidators (slot hd))
         | Some elected \<Rightarrow>
           if v_address elected \<noteq> proposer hd
           then Inl (ProposerMismatch (as_str (v_address elected)) (as_str (proposer hd)))
           else case verify E (v_pubkey elected) (json_header E hd) (block_signature b) of
             Inl _ \<Rightarrow> Inl BadSignature
           | Inr _ \<Rightarrow>
             if merkle_root hd \<noteq> compute_merkle_root E (txs b) then Inl BadMerkleRoot
             else validate_txs E U s (txs b)))"

section \<open>What acceptance means\<close>

definition input_ok :: "ext \<Rightarrow> utxo_map \<Rightarrow> byte list \<Rightarrow> tx_input \<Rightarrow> bool" where
  "input_ok E M msg i \<longleftrightarrow> (case M (in_out_ref i) of None \<Rightarrow> False
     | Some t \<Rightarrow> out_address t = from_pubkey_bytes E (in_pubkey i) \<and>
         ed_verify E (in_pubkey i) msg (in_signature i) = Inr ())"

text \<open>The amount behind a reference.\<close>

definition amount_at :: "utxo_map \<Rightarrow> tx_out_ref \<Rightarrow> nat" where
  "amount_at M r = (case M r of None \<Rightarrow> 0 | Some t \<Rightarrow> unat (out_amount t))"

definition tx_acceptable :: "ext \<Rightarrow> utxo_map \<Rightarrow> transaction \<Rightarrow> bool" where
  "tx_acceptable E M tx \<longleftrightarrow>
     tx_outputs tx \<noteq> [] \<and> (\<forall>t \<in> set (tx_outputs tx). out_amount t \<noteq> 0) \<and>
     (\<forall>i \<in> set (tx_inputs tx). input_ok E M (tx_signing_bytes E tx) i) \<and>
     sum_list (map (\<lambda>t. unat (out_amount t)) (tx_outputs tx)) mod 2 ^ 64 \<le> sum_list (map (amount_at M) (tx_refs tx))"

lemma check_outputs_ok: "check_outputs i outs = Inr u \<longleftrightarrow> (\<forall>t \<in> set outs. out_amount t \<noteq> 0)"
  by (induction outs arbitrary: i) auto

lemma check_outputs_zero:
  "check_outputs i outs = Inl e \<longleftrightarrow> (\<exists>k < length outs. e = ZeroValueOutput (i + k) \<and>
     out_amount (outs ! k) = 0 \<and> (\<forall>j < k. out_amount (outs ! j) \<noteq> 0))"
proof (induction outs arbitrary: i)
  case (Cons out outs)
  show ?case
    by (cases "out_amount out = 0")
      (auto simp: Cons.IH Ex_less_Suc2 All_less_Suc2 nth_Cons split: nat.splits)
qed simp

lemma verify_ok_iff: "verify E pk m sg = Inr u \<longleftrightarrow> ed_verify E pk m sg = Inr ()"
  by (auto simp: verify_def split: sum.splits)

text \<open>The error the loop gives an input, and the loop in terms of it.\<close>

definition input_error :: "ext \<Rightarrow> utxo_map \<Rightarrow> nat \<Rightarrow> tx_input \<Rightarrow> tx_validation_error" where
  "input_error E M idx i = (case M (in_out_ref i) of None \<Rightarrow> InputNotFound
     | Some t \<Rightarrow> if out_address t \<noteq> from_pubkey_bytes E (in_pubkey i) then InvalidOwner idx
         else InvalidSignature idx)"

lemma check_inputs_step:
  assumes "\<And>r. get r = Inr (M r)"
  shows "check_inputs E get msg idx a (i # is) =
    (if input_ok E M msg i
     then check_inputs E get msg (idx + 1) (saturating_add a (of_nat (amount_at M (in_out_ref i)))) is
     else Inl (input_error E M idx i))"
  by (cases "M (in_out_ref i)"; cases "ed_verify E (in_pubkey i) msg (in_signature i)")
    (simp_all add: assms input_ok_def input_error_def amount_at_def verify_def)

lemma amount_at_le: "amount_at M r \<le> u64_max"
  by (simp add: amount_at_def split: option.splits)

lemma unat_of_amount [simp]: "unat (of_nat (amount_at M r) :: u64) = amount_at M r"
  using amount_at_le [of M r] by (simp add: u64_max_def unat_of_nat)

lemma check_inputs_ok:
  assumes "\<And>r. get r = Inr (M r)"
  shows "check_inputs E get msg idx a is = Inr tot \<longleftrightarrow>
    (\<forall>i \<in> set is. input_ok E M msg i) \<and>
    unat tot = min (unat a + sum_list (map (amount_at M \<circ> in_out_ref) is)) u64_max"
proof (induction "is" arbitrary: idx a)
  case Nil
  then show ?case by (auto simp: word_unat_eq_iff)
next
  case (Cons i "is")
  then show ?case
    by (auto simp: check_inputs_step [OF assms] unat_saturating_add min_def simp del: check_inputs.simps)
qed

lemma check_inputs_error:
  assumes "\<And>r. get r = Inr (M r)"
  shows "check_inputs E get msg idx a is = Inl e \<longleftrightarrow>
    (\<exists>k < length is. e = input_error E M (idx + k) (is ! k) \<and> \<not> input_ok E M msg (is ! k) \<and>
       (\<forall>j < k. input_ok E M msg (is ! j)))"
proof (induction "is" arbitrary: idx a)
  case (Cons i "is")
  show ?case
    by (cases "input_ok E M msg i")
      (auto simp: check_inputs_step [OF assms] Cons.IH Ex_less_Suc2 All_less_Suc2 nth_Cons
        simp del: check_inputs.simps split: nat.splits)
qed simp

context utxo_iface
begin

lemma accepts_iff:
  assumes "inv s"
  shows "validate_transaction E U s tx = Inr () \<longleftrightarrow> tx_acceptable E (uabs s) tx"
proof -
  let ?outs = "map out_amount (tx_outputs tx)" and ?msg = "tx_signing_bytes E tx"
  have get: "\<And>r. us_get U s r = Inr (uabs s r)" using assms by (rule utxo_get)
  have le: "\<not> tot < sum_list ?outs \<longleftrightarrow> sum_list (map unat ?outs) mod 2 ^ 64 \<le> unat tot" for tot :: u64
    by (simp add: not_less word_le_nat_alt unat_sum_list_word)
  have mx: "sum_list (map unat ?outs) mod 2 ^ 64 \<le> min n u64_max \<longleftrightarrow>
      sum_list (map unat ?outs) mod 2 ^ 64 \<le> n" for n
    by (auto simp: u64_max_def)
  show ?thesis
  proof (cases "check_inputs E (us_get U s) ?msg 0 0 (tx_inputs tx)")
    case (Inl e)
    then obtain i where "i \<in> set (tx_inputs tx)" "\<not> input_ok E (uabs s) ?msg i"
      using check_inputs_error [of "us_get U s", OF get] by (metis nth_mem)
    then show ?thesis using Inl
      by (auto simp: validate_transaction_def tx_acceptable_def split: sum.splits)
  next
    case (Inr tot)
    then show ?thesis
      using le [of tot] mx [of "sum_list (map (amount_at (uabs s)) (tx_refs tx))"]
        check_inputs_ok [of "us_get U s", OF get, of E ?msg 0 0 "tx_inputs tx" tot]
        check_outputs_ok [of 0 "tx_outputs tx" "()"]
      by (auto simp: validate_transaction_def tx_acceptable_def tx_refs_def comp_def Let_def not_less
          split: sum.splits)
  qed
qed

lemma rejects_input_iff:
  assumes "inv s"
  shows "validate_transaction E U s tx = Inl (InvalidOwner k) \<longleftrightarrow>
      tx_outputs tx \<noteq> [] \<and> (\<forall>t \<in> set (tx_outputs tx). out_amount t \<noteq> 0) \<and> k < length (tx_inputs tx) \<and>
      (\<forall>j < k. input_ok E (uabs s) (tx_signing_bytes E tx) (tx_inputs tx ! j)) \<and>
      (\<exists>t. uabs s (in_out_ref (tx_inputs tx ! k)) = Some t \<and>
         out_address t \<noteq> from_pubkey_bytes E (in_pubkey (tx_inputs tx ! k)))"
    and "validate_transaction E U s tx = Inl (InvalidSignature k) \<longleftrightarrow>
      tx_outputs tx \<noteq> [] \<and> (\<forall>t \<in> set (tx_outputs tx). out_amount t \<noteq> 0) \<and> k < length (tx_inputs tx) \<and>
      (\<forall>j < k. input_ok E (uabs s) (tx_signing_bytes E tx) (tx_inputs tx ! j)) \<and>
      (\<exists>t. uabs s (in_out_ref (tx_inputs tx ! k)) = Some t \<and>
         out_address t = from_pubkey_bytes E (in_pubkey (tx_inputs tx ! k)) \<and>
         ed_verify E (in_pubkey (tx_inputs tx ! k)) (tx_signing_bytes E tx)
           (in_signature (tx_inputs tx ! k)) \<noteq> Inr ())"
proof -
  let ?in = "check_inputs E (us_get U s) (tx_signing_bytes E tx) 0 0 (tx_inputs tx)"
  have get: "\<And>r. us_get U s r = Inr (uabs s r)" using assms by (rule utxo_get)
  have err: "validate_transaction E U s tx = Inl e \<longleftrightarrow> tx_outputs tx \<noteq> [] \<and>
      (\<forall>t \<in> set (tx_outputs tx). out_amount t \<noteq> 0) \<and> ?in = Inl e"
    if "\<forall>n. e \<noteq> ZeroValueOutput n" "e \<noteq> EmptyOutputs" "\<forall>a b. e \<noteq> InsufficientFunds a b" for e
    using that check_outputs_ok [of 0 "tx_outputs tx" "()"] check_outputs_zero [of 0 "tx_outputs tx"]
    by (auto simp: validate_transaction_def Let_def split: sum.splits)
  note inputs = check_inputs_error [of "us_get U s", OF get, of E "tx_signing_bytes E tx" 0 0 "tx_inputs tx"]
  show "validate_transaction E U s tx = Inl (InvalidOwner k) \<longleftrightarrow>
      tx_outputs tx \<noteq> [] \<and> (\<forall>t \<in> set (tx_outputs tx). out_amount t \<noteq> 0) \<and> k < length (tx_inputs tx) \<and>
      (\<forall>j < k. input_ok E (uabs s) (tx_signing_bytes E tx) (tx_inputs tx ! j)) \<and>
      (\<exists>t. uabs s (in_out_ref (tx_inputs tx ! k)) = Some t \<and>
         out_address t \<noteq> from_pubkey_bytes E (in_pubkey (tx_inputs tx ! k)))"
    by (auto simp: err inputs input_error_def input_ok_def split: option.splits if_splits)
  show "validate_transaction E U s tx = Inl (InvalidSignature k) \<longleftrightarrow>
      tx_outputs tx \<noteq> [] \<and> (\<forall>t \<in> set (tx_outputs tx). out_amount t \<noteq> 0) \<and> k < length (tx_inputs tx) \<and>
      (\<forall>j < k. input_ok E (uabs s) (tx_signing_bytes E tx) (tx_inputs tx ! j)) \<and>
      (\<exists>t. uabs s (in_out_ref (tx_inputs tx ! k)) = Some t \<and>
         out_address t = from_pubkey_bytes E (in_pubkey (tx_inputs tx ! k)) \<and>
         ed_verify E (in_pubkey (tx_inputs tx ! k)) (tx_signing_bytes E tx)
           (in_signature (tx_inputs tx ! k)) \<noteq> Inr ())"
    by (auto simp: err inputs input_error_def input_ok_def split: option.splits if_splits)
qed

lemma validate_txs_iff:
  assumes "inv s"
  shows "validate_txs E U s ts = Inr () \<longleftrightarrow> (\<forall>tx \<in> set ts. tx_acceptable E (uabs s) tx)"
proof (induction ts)
  case (Cons tx ts)
  then show ?case using accepts_iff [OF assms, of tx] by (auto split: sum.splits)
qed simp

end

section \<open>The money supply\<close>

definition total_supply :: "utxo_map \<Rightarrow> nat" where
  "total_supply M = (\<Sum>r \<in> dom M. amount_at M r)"

lemma supply_remove:
  assumes "finite (dom M)" and "distinct rs" and "set rs \<subseteq> dom M"
  shows "total_supply (map_remove_all rs M) + sum_list (map (amount_at M) rs) = total_supply M"
proof -
  have dom: "dom (map_remove_all rs M) = dom M - set rs" by (auto simp: map_remove_all_apply dom_def)
  have "total_supply (map_remove_all rs M) = (\<Sum>r \<in> dom M - set rs. amount_at M r)"
    unfolding total_supply_def dom by (rule sum.cong) (simp_all add: amount_at_def map_remove_all_apply)
  moreover have "sum_list (map (amount_at M) rs) = (\<Sum>r \<in> set rs. amount_at M r)"
    using assms(2) by (simp add: sum_list_distinct_conv_sum_set)
  ultimately show ?thesis
    using sum.subset_diff [OF assms(3) assms(1), of "amount_at M"] by (simp add: total_supply_def)
qed

lemma supply_upd: "finite (dom M) \<Longrightarrow> total_supply (M(r \<mapsto> t)) \<le> total_supply M + unat (out_amount t)"
proof -
  assume fin: "finite (dom M)"
  have "total_supply (M(r \<mapsto> t)) = (\<Sum>x \<in> insert r (dom M). amount_at (M(r \<mapsto> t)) x)" by (simp add: total_supply_def)
  also have "\<dots> = amount_at (M(r \<mapsto> t)) r + (\<Sum>x \<in> dom M - {r}. amount_at (M(r \<mapsto> t)) x)"
    using fin by (simp add: sum.insert_remove)
  also have "(\<Sum>x \<in> dom M - {r}. amount_at (M(r \<mapsto> t)) x) = (\<Sum>x \<in> dom M - {r}. amount_at M x)"
    by (rule sum.cong) (simp_all add: amount_at_def)
  also have "amount_at (M(r \<mapsto> t)) r + (\<Sum>x \<in> dom M - {r}. amount_at M x) \<le>
      amount_at (M(r \<mapsto> t)) r + total_supply M"
    unfolding total_supply_def using fin by (intro add_left_mono sum_mono2) auto
  also have "amount_at (M(r \<mapsto> t)) r + total_supply M = total_supply M + unat (out_amount t)"
    by (simp add: amount_at_def)
  finally show ?thesis .
qed

lemma supply_insert_all:
  "finite (dom M) \<Longrightarrow>
   total_supply (map_insert_all kvs M) \<le> total_supply M + sum_list (map (\<lambda>x. unat (out_amount (snd x))) kvs)"
proof (induction kvs arbitrary: M)
  case (Cons kv kvs)
  obtain k v where kv: "kv = (k, v)" by (cases kv)
  have "total_supply (map_insert_all kvs (M(k \<mapsto> v))) \<le> total_supply (M(k \<mapsto> v)) + sum_list (map (\<lambda>x. unat (out_amount (snd x))) kvs)"
    by (rule Cons.IH) (use Cons.prems in \<open>simp del: fun_upd_apply\<close>)
  then show ?case using supply_upd [OF Cons.prems, of k v] by (simp add: kv)
qed simp

lemma amounts_created:
  "sum_list (map (\<lambda>x. unat (out_amount (snd x))) (tx_created E tx)) = sum_list (map (\<lambda>t. unat (out_amount t)) (tx_outputs tx))"
proof -
  have "map (\<lambda>x. unat (out_amount (snd x))) (tx_created E tx) = map (\<lambda>t. unat (out_amount t)) (map snd (tx_created E tx))"
    by simp
  also have "map snd (tx_created E tx) = tx_outputs tx"
    by (simp add: tx_created_def comp_def split_def)
  finally show ?thesis by simp
qed

lemma block_amounts:
  assumes "\<forall>tx \<in> set ts. tx_acceptable E M tx"
    and "\<forall>tx \<in> set ts. sum_list (map (\<lambda>t. unat (out_amount t)) (tx_outputs tx)) \<le> u64_max"
  shows "sum_list (map (\<lambda>x. unat (out_amount (snd x))) (concat (map (tx_created E) ts))) \<le>
    sum_list (map (amount_at M) (concat (map tx_refs ts)))"
  using assms
proof (induction ts)
  case (Cons tx ts)
  have "sum_list (map (\<lambda>t. unat (out_amount t)) (tx_outputs tx)) \<le> sum_list (map (amount_at M) (tx_refs tx))"
    using Cons.prems by (simp add: tx_acceptable_def u64_max_def)
  then show ?case using Cons amounts_created [of E tx] by simp
qed simp

lemma acceptable_refs: "tx_acceptable E M tx \<Longrightarrow> set (tx_refs tx) \<subseteq> dom M"
  by (auto simp: tx_acceptable_def tx_refs_def input_ok_def split: option.splits)

lemma supply_apply:
  assumes fin: "finite (dom M)"
    and ok: "\<forall>tx \<in> set (txs b). tx_acceptable E M tx"
    and "\<forall>tx \<in> set (txs b). sum_list (map (\<lambda>t. unat (out_amount t)) (tx_outputs tx)) \<le> u64_max"
    and dist: "distinct (block_refs b)" and fresh: "fst ` set (block_created E b) \<inter> dom M = {}"
  shows "total_supply (utxo_apply E b M) \<le> total_supply M"
proof -
  have refs: "set (block_refs b) \<subseteq> dom M"
    using ok acceptable_refs by (fastforce simp: block_refs_def)
  let ?M = "map_remove_all (block_refs b) M"
  have "dom ?M \<subseteq> dom M" by (auto simp: map_remove_all_apply dom_def split: if_splits)
  then have "total_supply (map_insert_all (block_created E b) ?M) \<le>
      total_supply ?M + sum_list (map (\<lambda>x. unat (out_amount (snd x))) (block_created E b))"
    using fin by (intro supply_insert_all) (rule finite_subset)
  also have "\<dots> \<le> total_supply ?M + sum_list (map (amount_at M) (block_refs b))"
    using block_amounts [OF ok assms(3)] by (simp add: block_created_def block_refs_def)
  also have "\<dots> = total_supply M" by (rule supply_remove [OF fin dist refs])
  finally show ?thesis using utxo_apply_closed [of E M b] refs fresh by (simp add: block_applicable_def)
qed

section \<open>Accepted blocks\<close>

lemma validate_block_accepts:
  "validate_block E U V s b parent dur = Inr () \<longleftrightarrow>
     height (header b) = height (header parent) + 1 \<and> prev_hash (header b) = hash_of_block E parent \<and>
     sint (timestamp (header parent)) \<le> sint (timestamp (header b)) \<and>
     sint (timestamp (header b)) < sint (slot_end (slot (header b)) dur) \<and>
     (\<exists>active elected. vs_all_active V s (slot (header b)) = Inr active \<and>
        elect_proposer E (slot (header b)) (hash_of_block E parent) active = Some elected \<and>
        v_address elected = proposer (header b) \<and>
        ed_verify E (v_pubkey elected) (json_header E (header b)) (block_signature b) = Inr ()) \<and>
     merkle_root (header b) = compute_merkle_root E (txs b) \<and> validate_txs E U s (txs b) = Inr ()"
  by (auto simp: validate_block_def Let_def verify_def split: sum.splits option.splits)

context chain_store
begin

lemma accepted_proposer:
  assumes "inv s" and "validate_block E U V s b parent dur = Inr ()"
  shows "\<exists>v. vs_get V s (proposer (header b)) = Inr (Some v) \<and>
    proposer (header b) = from_pubkey_bytes E (v_pubkey v) \<and>
    v_active_since v \<le> slot (header b) \<and> 0 < v_stake v \<and>
    ed_verify E (v_pubkey v) (json_header E (header b)) (block_signature b) = Inr ()"
proof -
  obtain active v where act: "vs_all_active V s (slot (header b)) = Inr active"
    and el: "elect_proposer E (slot (header b)) (hash_of_block E parent) active = Some v"
    and v: "v_address v = proposer (header b)"
      "ed_verify E (v_pubkey v) (json_header E (header b)) (block_signature b) = Inr ()"
    using assms(2) unfolding validate_block_accepts by blast
  have "vabs s (v_address v) = Some v \<and> v_active_since v \<le> slot (header b) \<and> 0 < v_stake v"
    using all_active [OF assms(1), of "slot (header b)"] act elect_member [OF el] by auto
  then show ?thesis using validator_get [OF assms(1)] vabs_address [OF assms(1)] v by auto
qed

lemma accepted_supply:
  assumes "inv s" and "validate_block E U V s b parent dur = Inr ()" and "finite (dom (uabs s))"
    and "\<forall>tx \<in> set (txs b). sum_list (map (\<lambda>t. unat (out_amount t)) (tx_outputs tx)) \<le> u64_max"
    and "distinct (block_refs b)" and "fst ` set (block_created E b) \<inter> dom (uabs s) = {}"
    and "us_apply_block U s b = (s', r)"
  shows "r = Inr () \<and> total_supply (uabs s') \<le> total_supply (uabs s)"
  using assms supply_apply [of "uabs s" b E] apply_ok [of s b] validate_txs_iff [of s "txs b"]
  by (auto simp: validate_block_accepts)

end

section \<open>Samples\<close>

text \<open>Transactions signed with a sample key, and a block that pays to it.\<close>

definition sample_key :: signing_key where
  "sample_key = [1]"

definition sample_owner :: address where
  "sample_owner = from_pubkey_bytes ref_ext (ed_public ref_ext sample_key)"

definition sample_payment :: "tx_out_ref list \<Rightarrow> tx_output list \<Rightarrow> transaction" where
  "sample_payment refs outs =
     (let msg = json_signing ref_ext \<lparr>sd_kind = Transfer, sd_inputs = refs, sd_outputs = outs\<rparr>
      in \<lparr>tx_kind = Transfer, tx_inputs = map (\<lambda>r. \<lparr>in_out_ref = r,
            in_signature = ed_sign ref_ext sample_key msg, in_pubkey = ed_public ref_ext sample_key\<rparr>) refs,
          tx_outputs = outs\<rparr>)"

definition sample_fund :: transaction where
  "sample_fund = \<lparr>tx_kind = Transfer, tx_inputs = [],
     tx_outputs = [\<lparr>out_amount = 5, out_address = sample_owner\<rparr>]\<rparr>"

definition sample_ref :: tx_out_ref where
  "sample_ref = out_ref_at ref_ext sample_fund 0"

definition funded_map :: utxo_map where
  "funded_map = utxo_apply ref_ext (sample_block 0 [sample_fund]) Map.empty"

lemma funded_map_eq: "funded_map = [sample_ref \<mapsto> \<lparr>out_amount = 5, out_address = sample_owner\<rparr>]"
  by (simp add: funded_map_def utxo_apply_def utxo_apply_tx_def tx_refs_def tx_created_def sample_fund_def
      sample_ref_def)

lemma payment_signed:
  "i \<in> set (tx_inputs (sample_payment [sample_ref] outs)) \<Longrightarrow>
   in_out_ref i = sample_ref \<and> sample_owner = from_pubkey_bytes ref_ext (in_pubkey i) \<and>
   ed_verify ref_ext (in_pubkey i) (tx_signing_bytes ref_ext (sample_payment [sample_ref] outs)) (in_signature i) = Inr ()"
  using ref_sign_verifies
  by (simp add: sample_payment_def Let_def sample_owner_def sign_verifies_def tx_signing_bytes_def signing_data_def)

lemma payment_acceptable:
  assumes "outs \<noteq> []" and "\<forall>t \<in> set outs. out_amount t \<noteq> 0"
    and "sum_list (map (\<lambda>t. unat (out_amount t)) outs) \<le> 5"
  shows "tx_acceptable ref_ext funded_map (sample_payment [sample_ref] outs)"
proof -
  have out: "tx_outputs (sample_payment [sample_ref] outs) = outs"
    "tx_refs (sample_payment [sample_ref] outs) = [sample_ref]"
    by (simp_all add: sample_payment_def tx_refs_def Let_def)
  then show ?thesis
    using assms payment_signed [of _ outs]
    by (simp add: tx_acceptable_def input_ok_def funded_map_eq amount_at_def)
qed

definition funded_sled :: "(byte list, byte list) RBT.rbt sled_store" where
  "funded_sled = fst (sled_run rbt_env ref_ext
     [WUpsert (sample_validator 1 5), WApply (sample_block 0 [sample_fund])])"

lemma funded_sled_ok:
  "sled_inv rbt_env ref_ext funded_sled" "sled_uabs rbt_env ref_ext funded_sled = funded_map"
  "sled_vabs rbt_env ref_ext funded_sled = [v_address (sample_validator 1 5) \<mapsto> sample_validator 1 5]"
proof -
  let ?b = "sample_block 0 [sample_fund]" and ?v = "sample_validator 1 5"
  have "v_address ?v = from_pubkey_bytes ref_ext (v_pubkey ?v)" by (simp add: sample_validator_def)
  from rbt_sled.upsert_ok [OF rbt_new(1) this]
  obtain s1 where s1: "sled_upsert rbt_env ref_ext (sled_new_temporary rbt_env) ?v = (s1, Inr ())"
    "sled_inv rbt_env ref_ext s1" "sled_vabs rbt_env ref_ext s1 = [v_address ?v \<mapsto> ?v]"
    by (auto simp: sled_validator_store_def rbt_new)
  have "sled_uabs rbt_env ref_ext s1 = Map.empty"
    using rbt_sled.upsert_frame [OF rbt_new(1), of ?v s1] s1(1) by (simp add: sled_validator_store_def rbt_new)
  moreover obtain s2 r where s2: "sled_apply_block rbt_env ref_ext s1 ?b = (s2, r)" by fastforce
  moreover have "funded_sled = s2" by (simp add: funded_sled_def sled_run_def sled_utxo_store_def sled_validator_store_def s1(1) s2)
  ultimately show "sled_inv rbt_env ref_ext funded_sled" "sled_uabs rbt_env ref_ext funded_sled = funded_map"
    "sled_vabs rbt_env ref_ext funded_sled = [v_address ?v \<mapsto> ?v]"
    using rbt_sled.sled_apply_block_abs [OF s1(2) s2] s1(3) by (simp_all add: funded_map_def)
qed

text \<open>The next block, proposed by the only validator.\<close>

definition sample_parent :: block where
  "sample_parent = sample_block 0 [sample_fund]"

definition sample_next :: "transaction list \<Rightarrow> block" where
  "sample_next ts =
     (let hd = \<lparr>prev_hash = hash_of_block ref_ext sample_parent, merkle_root = compute_merkle_root ref_ext ts,
        timestamp = 12, height = 1, slot = 1, proposer = sample_owner\<rparr>
      in \<lparr>header = hd, block_signature = ed_sign ref_ext sample_key (json_header ref_ext hd), txs = ts\<rparr>)"

lemma distinct_mapI: "distinct (map f xs) \<Longrightarrow> distinct xs"
  by (simp add: distinct_map)

lemma sample_next_accepted:
  assumes "validate_txs ref_ext (sled_utxo_store rbt_env ref_ext) funded_sled ts = Inr ()"
  shows "validate_block ref_ext (sled_utxo_store rbt_env ref_ext) (sled_validator_store rbt_env ref_ext)
    funded_sled (sample_next ts) sample_parent 10 = Inr ()"
proof -
  let ?v = "sample_validator 1 5"
  have active: "{v. sled_vabs rbt_env ref_ext funded_sled (v_address v) = Some v \<and> v_active_since v \<le> 1 \<and> 0 < v_stake v} = {?v}"
    unfolding funded_sled_ok(3) by (force simp: sample_validator_def)
  obtain vs where vs: "vs_all_active (sled_validator_store rbt_env ref_ext) funded_sled 1 = Inr vs"
    "set vs = {?v}" "distinct (map v_address vs)"
    using rbt_sled.all_active [OF funded_sled_ok(1), of 1] unfolding active strict_sorted_iff by blast
  have "distinct vs" using vs(3) by (rule distinct_mapI)
  then have "length vs = 1" using distinct_card [of vs] vs(2) by simp
  then obtain w where "vs = [w]" using length_Suc_conv [of vs 0] by auto
  then have "vs = [?v]" using vs(2) by simp
  moreover obtain v where el: "elect_proposer ref_ext 1 (hash_of_block ref_ext sample_parent) [?v] = Some v"
    using elect_none_iff [of ref_ext 1 _ "[?v]"] by (fastforce simp: sample_validator_def)
  moreover have "v = ?v" using elect_member [OF el] by simp
  moreover have "v_address ?v = sample_owner" "v_pubkey ?v = ed_public ref_ext sample_key"
    by (simp_all add: sample_validator_def sample_owner_def sample_key_def ref_ext_def)
  ultimately show ?thesis
    using vs(1) assms ref_sign_verifies
    by (simp add: validate_block_accepts sample_next_def Let_def sample_parent_def slot_end_def sign_verifies_def
        sample_block_def)
qed

section \<open>Properties\<close>

text \<open>
  Claim C3: over the sled store \<open>validate_transaction\<close> accepts exactly the transactions that have
  outputs, none of zero value, whose inputs all refer to unspent outputs owned by the key they
  carry, with valid signatures, and whose output sum modulo \<open>2^64\<close> is at most the input sum.
\<close>

theorem tx_accepted_iff:
  assumes "sled_backend T E" and "sled_inv T E s"
  shows "validate_transaction E (sled_utxo_store T E) s tx = Inr () \<longleftrightarrow>
    tx_outputs tx \<noteq> [] \<and> (\<forall>t \<in> set (tx_outputs tx). out_amount t \<noteq> 0) \<and>
    (\<forall>i \<in> set (tx_inputs tx). \<exists>t. sled_uabs T E s (in_out_ref i) = Some t \<and>
       out_address t = from_pubkey_bytes E (in_pubkey i) \<and>
       ed_verify E (in_pubkey i) (tx_signing_bytes E tx) (in_signature i) = Inr ()) \<and>
    sum_list (map (\<lambda>t. unat (out_amount t)) (tx_outputs tx)) mod 2 ^ 64 \<le>
      sum_list (map (amount_at (sled_uabs T E s)) (tx_refs tx))"
proof -
  have "input_ok E M m i \<longleftrightarrow> (\<exists>t. M (in_out_ref i) = Some t \<and>
     out_address t = from_pubkey_bytes E (in_pubkey i) \<and>
     ed_verify E (in_pubkey i) m (in_signature i) = Inr ())" for M m i
    by (simp add: input_ok_def split: option.splits)
  then show ?thesis
    unfolding utxo_iface.accepts_iff [OF sled_backend.is_utxo_iface [OF assms(1)] assms(2)] tx_acceptable_def Ball_def by (simp only:)
qed

theorem tx_accepted_iff_witness:
  "validate_transaction ref_ext (sled_utxo_store rbt_env ref_ext) funded_sled
     (sample_payment [sample_ref] [sample_output 3, sample_output 2]) = Inr ()"
proof -
  let ?tx = "sample_payment [sample_ref] [sample_output 3, sample_output 2]"
  have "tx_outputs ?tx = [sample_output 3, sample_output 2]" "tx_refs ?tx = [sample_ref]"
    by (simp_all add: sample_payment_def tx_refs_def Let_def)
  then show ?thesis
    using tx_accepted_iff [OF rbt_sled.sled_backend_axioms funded_sled_ok(1), of ?tx] payment_signed
    by (simp add: funded_sled_ok(2) funded_map_eq sample_output_def amount_at_def)
qed

text \<open>
  An error of the input loop names the first offending input.  \<open>InvalidOwner k\<close> is
  returned exactly when the outputs are well formed, the inputs before \<open>k\<close> are good and input \<open>k\<close>
  refers to an unspent output of another address; \<open>InvalidSignature k\<close> when its owner matches but
  its signature does not verify.
\<close>

lemma tx_error_names_input:
  fixes tx :: transaction
  assumes "sled_backend T E" and "sled_inv T E s"
  defines "M \<equiv> sled_uabs T E s" and "msg \<equiv> tx_signing_bytes E tx"
  defines "before \<equiv> \<lambda>k. tx_outputs tx \<noteq> [] \<and> (\<forall>t \<in> set (tx_outputs tx). out_amount t \<noteq> 0) \<and>
    k < length (tx_inputs tx) \<and> (\<forall>j < k. input_ok E M msg (tx_inputs tx ! j))"
  shows "(validate_transaction E (sled_utxo_store T E) s tx = Inl (InvalidOwner k) \<longleftrightarrow>
      before k \<and> (\<exists>t. M (in_out_ref (tx_inputs tx ! k)) = Some t \<and>
        out_address t \<noteq> from_pubkey_bytes E (in_pubkey (tx_inputs tx ! k)))) \<and>
    (validate_transaction E (sled_utxo_store T E) s tx = Inl (InvalidSignature k) \<longleftrightarrow>
      before k \<and> (\<exists>t. M (in_out_ref (tx_inputs tx ! k)) = Some t \<and>
        out_address t = from_pubkey_bytes E (in_pubkey (tx_inputs tx ! k)) \<and>
        ed_verify E (in_pubkey (tx_inputs tx ! k)) msg (in_signature (tx_inputs tx ! k)) \<noteq> Inr ()))"
  using utxo_iface.rejects_input_iff [OF sled_backend.is_utxo_iface [OF assms(1)] assms(2), of tx k]
  unfolding M_def msg_def before_def by blast

definition sample_forged :: transaction where
  "sample_forged = (let tx = sample_payment [sample_ref] [sample_output 3]
     in tx\<lparr>tx_outputs := [sample_output 4]\<rparr>)"

text \<open>
  Claim C4: a block accepted over the sled store extends its parent (height, hash, timestamps), and
  its proposer is a registered validator, active since the slot or earlier and with positive stake,
  whose key derives the proposer address and verifies the header's signature.
\<close>

theorem accepted_block_proposer:
  assumes "sled_backend T E" and "sled_inv T E s"
    and "validate_block E (sled_utxo_store T E) (sled_validator_store T E) s b parent dur = Inr ()"
  shows "height (header b) = height (header parent) + 1 \<and> prev_hash (header b) = hash_of_block E parent \<and>
    sint (timestamp (header parent)) \<le> sint (timestamp (header b)) \<and>
    (\<exists>v. sled_validator_get T E s (proposer (header b)) = Inr (Some v) \<and>
       proposer (header b) = from_pubkey_bytes E (v_pubkey v) \<and>
       v_active_since v \<le> slot (header b) \<and> 0 < v_stake v \<and>
       ed_verify E (v_pubkey v) (json_header E (header b)) (block_signature b) = Inr ())"
  using chain_store.accepted_proposer [OF sled_backend.is_chain_store [OF assms(1)] assms(2,3)] assms(3)
  by (simp add: validate_block_accepts sled_validator_store_def)

theorem accepted_block_proposer_witness:
  "\<exists>v. sled_validator_get rbt_env ref_ext funded_sled (proposer (header (sample_next []))) = Inr (Some v) \<and> 0 < v_stake v"
  using accepted_block_proposer [OF rbt_sled.sled_backend_axioms funded_sled_ok(1) sample_next_accepted [of "[]"]]
  by auto

text \<open>
  Claim C2: money is conserved.  Applying an accepted block never increases the sum of all unspent
  amounts, provided the block spends no output twice, no output sum of its transactions exceeds 64
  bits and its transaction hashes are new.
\<close>

theorem accepted_block_conserves_supply:
  assumes "sled_backend T E" and "sled_inv T E s"
    and "validate_block E (sled_utxo_store T E) (sled_validator_store T E) s b parent dur = Inr ()"
    and "distinct (block_refs b)"
    and "\<forall>tx \<in> set (txs b). sum_list (map (\<lambda>t. unat (out_amount t)) (tx_outputs tx)) \<le> u64_max"
    and "fst ` set (block_created E b) \<inter> dom (sled_uabs T E s) = {}"
    and "sled_apply_block T E s b = (s', r)"
  shows "r = Inr () \<and> total_supply (sled_uabs T E s') \<le> total_supply (sled_uabs T E s)"
proof -
  have "finite (dom (sled_uabs T E s))" by (rule sled_backend.finite_uabs [OF assms(1,2)])
  then show ?thesis
    using chain_store.accepted_supply [OF sled_backend.is_chain_store [OF assms(1)] assms(2,3) _ assms(5,4,6)]
      assms(7) by (simp add: sled_utxo_store_def)
qed

lemma sample_payment_accepted:
  "validate_txs ref_ext (sled_utxo_store rbt_env ref_ext) funded_sled
     [sample_payment [sample_ref] [sample_output 3]] = Inr ()"
  using payment_acceptable [of "[sample_output 3]"]
  by (simp add: rbt_sled.validate_txs_iff [OF funded_sled_ok(1)] funded_sled_ok(2) sample_output_def
      del: validate_txs.simps)

theorem accepted_block_conserves_supply_witness:
  "total_supply (sled_uabs rbt_env ref_ext (fst (sled_apply_block rbt_env ref_ext funded_sled
     (sample_next [sample_payment [sample_ref] [sample_output 3]])))) \<le> total_supply funded_map"
proof -
  let ?tx = "sample_payment [sample_ref] [sample_output 3]" and ?b = "sample_next [sample_payment [sample_ref] [sample_output 3]]"
  obtain s' r where a: "sled_apply_block rbt_env ref_ext funded_sled ?b = (s', r)" by fastforce
  have "transaction_hash ref_ext ?tx \<noteq> transaction_hash ref_ext sample_fund" by code_simp
  then have "fst ` set (block_created ref_ext ?b) \<inter> dom (sled_uabs rbt_env ref_ext funded_sled) = {}"
    by (auto simp: funded_sled_ok(2) funded_map_def utxo_apply_def utxo_apply_tx_def block_created_def tx_refs_def
        tx_created_def sample_next_def sample_fund_def out_ref_at_def Let_def split: if_splits)
  moreover have "distinct (block_refs ?b)"
    by (simp add: sample_next_def sample_payment_def block_refs_def tx_refs_def Let_def)
  moreover have "\<forall>tx \<in> set (txs ?b). sum_list (map (\<lambda>t. unat (out_amount t)) (tx_outputs tx)) \<le> u64_max"
    by (simp add: sample_next_def sample_payment_def sample_output_def Let_def u64_max_def)
  ultimately show ?thesis
    using accepted_block_conserves_supply [OF rbt_sled.sled_backend_axioms funded_sled_ok(1)
        sample_next_accepted [OF sample_payment_accepted] _ _ _ a]
    by (simp add: a funded_sled_ok(2))
qed


text \<open>
  Claim C12: an input that is listed twice counts twice: the owner of an output can sign a
  transaction that spends it twice and pays twice its amount, and it is accepted.
\<close>

theorem duplicate_input_accepted:
  fixes to :: address
  assumes "sled_backend T E" and "sled_inv T E s" and "sign_verifies E"
    and "sled_uabs T E s r = Some \<lparr>out_amount = amt, out_address = from_pubkey_bytes E (ed_public E sk)\<rparr>"
    and "amt \<noteq> 0" and "2 * unat amt \<le> u64_max"
  defines "msg \<equiv> json_signing E \<lparr>sd_kind = Transfer, sd_inputs = [r, r],
      sd_outputs = [\<lparr>out_amount = 2 * amt, out_address = to\<rparr>]\<rparr>"
  defines "i \<equiv> \<lparr>in_out_ref = r, in_signature = ed_sign E sk msg, in_pubkey = ed_public E sk\<rparr>"
  shows "validate_transaction E (sled_utxo_store T E) s \<lparr>tx_kind = Transfer, tx_inputs = [i, i],
    tx_outputs = [\<lparr>out_amount = 2 * amt, out_address = to\<rparr>]\<rparr> = Inr ()"
proof -
  have "unat (2 * amt) = 2 * unat amt"
    using assms(6) by (simp add: unat_word_ariths u64_max_def)
  moreover have "2 * amt \<noteq> 0" using calculation assms(5) by (metis mult_eq_0_iff unat_eq_zero zero_neq_numeral)
  ultimately show ?thesis
    using assms(3,4)
    by (simp add: utxo_iface.accepts_iff [OF sled_backend.is_utxo_iface [OF assms(1)] assms(2)]
        tx_acceptable_def input_ok_def i_def tx_signing_bytes_def signing_data_def flip: msg_def)
      (simp add: sign_verifies_def amount_at_def tx_refs_def)
qed

theorem duplicate_input_accepted_witness:
  "\<exists>tx. tx_refs tx = [sample_ref, sample_ref] \<and> map out_amount (tx_outputs tx) = [10] \<and>
     validate_transaction ref_ext (sled_utxo_store rbt_env ref_ext) funded_sled tx = Inr ()"
proof -
  have "sled_uabs rbt_env ref_ext funded_sled sample_ref =
      Some \<lparr>out_amount = 5, out_address = from_pubkey_bytes ref_ext (ed_public ref_ext sample_key)\<rparr>"
    by (simp add: funded_sled_ok(2) funded_map_eq sample_owner_def)
  then have ok: "validate_transaction ref_ext (sled_utxo_store rbt_env ref_ext) funded_sled
      \<lparr>tx_kind = Transfer, tx_inputs = [i, i], tx_outputs = [\<lparr>out_amount = 2 * 5, out_address = sample_owner\<rparr>]\<rparr> = Inr ()"
    if "i = \<lparr>in_out_ref = sample_ref, in_signature = ed_sign ref_ext sample_key (json_signing ref_ext
      \<lparr>sd_kind = Transfer, sd_inputs = [sample_ref, sample_ref],
        sd_outputs = [\<lparr>out_amount = 2 * 5, out_address = sample_owner\<rparr>]\<rparr>), in_pubkey = ed_public ref_ext sample_key\<rparr>" for i
    unfolding that
    by (rule duplicate_input_accepted [OF rbt_sled.sled_backend_axioms funded_sled_ok(1) ref_sign_verifies])
      (simp_all add: u64_max_def)
  show ?thesis by (rule exI, intro conjI, rule_tac [3] ok, rule_tac [3] refl) (simp_all add: tx_refs_def)
qed

definition double_spend_block :: block where
  "double_spend_block = sample_next [sample_payment [sample_ref] [sample_output 5],
     sample_payment [sample_ref] [sample_output 4, sample_output 1]]"

lemma sample_hash_distinct:
  "transaction_hash ref_ext (sample_payment [sample_ref] [sample_output 5]) \<noteq>
     transaction_hash ref_ext (sample_payment [sample_ref] [sample_output 4, sample_output 1])"
  by code_simp

lemma double_spend_utxos:
  "\<exists>r1 r2 r3. distinct [r1, r2, r3] \<and> utxo_apply ref_ext double_spend_block funded_map =
     [r1 \<mapsto> sample_output 5, r2 \<mapsto> sample_output 4, r3 \<mapsto> sample_output 1]"
proof -
  let ?p = "sample_payment [sample_ref] [sample_output 5]"
  let ?q = "sample_payment [sample_ref] [sample_output 4, sample_output 1]"
  let ?r = "out_ref_at ref_ext"
  have "tx_refs ?p = [sample_ref]" "tx_refs ?q = [sample_ref]"
    by (simp_all add: tx_refs_def sample_payment_def Let_def)
  moreover have "tx_created ref_ext ?p = [(?r ?p 0, sample_output 5)]"
    "tx_created ref_ext ?q = [(?r ?q 0, sample_output 4), (?r ?q 1, sample_output 1)]"
    by (simp_all add: tx_created_def sample_payment_def Let_def)
  moreover have "sample_ref \<noteq> ?r ?p 0" by code_simp
  moreover have "distinct [?r ?p 0, ?r ?q 0, ?r ?q 1]"
    using sample_hash_distinct by (simp add: out_ref_at_def)
  ultimately show ?thesis
    by (intro exI [of _ "?r ?p 0"] exI [of _ "?r ?q 0"] exI [of _ "?r ?q 1"])
      (auto simp: double_spend_block_def sample_next_def Let_def utxo_apply_def utxo_apply_tx_def funded_map_eq)
qed

text \<open>
  Claim C11: the transactions of a block are checked against the set before the block, each on its
  own: a block with two payments that spend the same output of 5 coins is accepted, and applying it
  doubles the money supply from 5 to 10.
\<close>

theorem double_spend_block_accepted:
  "validate_block ref_ext (sled_utxo_store rbt_env ref_ext) (sled_validator_store rbt_env ref_ext)
     funded_sled double_spend_block sample_parent 10 = Inr () \<and>
   block_refs double_spend_block = [sample_ref, sample_ref] \<and>
   total_supply (sled_uabs rbt_env ref_ext funded_sled) = 5 \<and>
   total_supply (sled_uabs rbt_env ref_ext
     (fst (sled_apply_block rbt_env ref_ext funded_sled double_spend_block))) = 10"
proof (intro conjI)
  let ?p = "sample_payment [sample_ref] [sample_output 5]"
  let ?q = "sample_payment [sample_ref] [sample_output 4, sample_output 1]"
  have "tx_acceptable ref_ext funded_map ?p" "tx_acceptable ref_ext funded_map ?q"
    by (simp_all add: payment_acceptable sample_output_def)
  then show "validate_block ref_ext (sled_utxo_store rbt_env ref_ext) (sled_validator_store rbt_env ref_ext)
     funded_sled double_spend_block sample_parent 10 = Inr ()"
    unfolding double_spend_block_def
    by (intro sample_next_accepted) (simp add: rbt_sled.validate_txs_iff [OF funded_sled_ok(1)] funded_sled_ok(2)
        del: validate_txs.simps)
  show "block_refs double_spend_block = [sample_ref, sample_ref]"
    by (simp add: double_spend_block_def sample_next_def sample_payment_def block_refs_def tx_refs_def Let_def)
  show "total_supply (sled_uabs rbt_env ref_ext funded_sled) = 5"
    by (simp add: funded_sled_ok(2) funded_map_eq total_supply_def amount_at_def)
  obtain s' r where a: "sled_apply_block rbt_env ref_ext funded_sled double_spend_block = (s', r)" by fastforce
  then show "total_supply (sled_uabs rbt_env ref_ext
     (fst (sled_apply_block rbt_env ref_ext funded_sled double_spend_block))) = 10"
    using rbt_sled.sled_apply_block_abs [OF funded_sled_ok(1) a] double_spend_utxos
    by (auto simp: funded_sled_ok(2) total_supply_def amount_at_def sample_output_def)
qed

end
