(* ===== verification/Bcc_Mempool.thy ===== *)
theory Bcc_Mempool
  imports Bcc_Validation
begin

text \<open>
  \<open>bcc-node/src/error.rs\<close> and \<open>bcc-node/src/mempool.rs\<close>: the pool of unconfirmed transactions.  The
  \<open>IndexMap\<close> of transactions and the \<open>HashMap\<close> of values are association lists, the set of spent
  references a set.  Every reachable pool satisfies the invariants the source documents (no shared
  inputs, caches in sync, bounded size); \<open>add\<close> evicts only a transaction of minimal and smaller
  value, and \<open>drain\<close> yields the most valuable transactions in order.
\<close>

section \<open>\<open>NodeError\<close>\<close>

datatype node_error =
    NodeStore store_error
  | Validation string
  | P2p string
  | NodeIo string
  | NodeSled string
  | NodeConfigErr string
  | Shutdown

fun show_node_error :: "node_error \<Rightarrow> string" where
  "show_node_error (NodeStore e) = ''store: '' @ show_store_error e"
| "show_node_error (Validation m) = ''validation: '' @ m"
| "show_node_error (P2p m) = ''p2p: '' @ m"
| "show_node_error (NodeIo m) = ''I/O: '' @ m"
| "show_node_error (NodeSled m) = ''sled: '' @ m"
| "show_node_error (NodeConfigErr m) = ''config: '' @ m"
| "show_node_error Shutdown = ''node shutting down''"

section \<open>\<open>Mempool\<close>\<close>

record added_to_pool =
  ap_tx_hash :: string
  ap_value :: u64
  ap_pool_size :: nat
  ap_evicted :: "string option"
  ap_newly_added :: bool

record mempool =
  mp_txs :: "(tx_hash \<times> transaction) list"
  mp_in_flight :: "tx_out_ref set"
  mp_values :: "(tx_hash \<times> u64) list"
  mp_max_size :: nat

definition mempool_new :: "nat \<Rightarrow> mempool" where
  "mempool_new max_size = \<lparr>mp_txs = [], mp_in_flight = {}, mp_values = [], mp_max_size = max_size\<rparr>"

definition output_value :: "transaction \<Rightarrow> u64" where
  "output_value tx = sum_list (map out_amount (tx_outputs tx))"

definition remove_one :: "ext \<Rightarrow> tx_hash \<Rightarrow> mempool \<Rightarrow> mempool" where
  "remove_one E h p =
     (case map_of (mp_txs p) h of
        None \<Rightarrow> p
      | Some tx \<Rightarrow> p\<lparr>mp_txs := swap_remove E h (mp_txs p),
          mp_in_flight := mp_in_flight p - set (tx_refs tx),
          mp_values := AList.delete h (mp_values p)\<rparr>)"

definition mempool_remove :: "ext \<Rightarrow> tx_hash list \<Rightarrow> mempool \<Rightarrow> mempool" where
  "mempool_remove E hashes p = fold (remove_one E) hashes p"

definition mempool_len :: "mempool \<Rightarrow> nat" where
  "mempool_len p = length (mp_txs p)"

text \<open>\<open>Iterator::min_by_key\<close>: the first entry of least value.\<close>

fun min_by_value :: "(tx_hash \<times> u64) list \<Rightarrow> (tx_hash \<times> u64) option" where
  "min_by_value [] = None"
| "min_by_value (x # xs) = Some (fold (\<lambda>y m. if snd y < snd m then y else m) xs x)"

definition pool_insert :: "ext \<Rightarrow> transaction \<Rightarrow> mempool \<Rightarrow> mempool" where
  "pool_insert E tx p = p\<lparr>mp_in_flight := mp_in_flight p \<union> set (tx_refs tx),
     mp_values := AList.update (transaction_hash E tx) (output_value tx) (mp_values p),
     mp_txs := AList.update (transaction_hash E tx) tx (mp_txs p)\<rparr>"

text \<open>The eviction block of \<open>add\<close>: the pool with room for the new transaction, and the hash that went.\<close>

definition make_room :: "ext \<Rightarrow> u64 \<Rightarrow> mempool \<Rightarrow> node_error + mempool \<times> tx_hash option" where
  "make_room E new_value p =
     (if length (mp_txs p) < mp_max_size p then Inr (p, None)
      else case min_by_value (hash_iter E (mp_values p)) of
        None \<Rightarrow> Inl (Validation ''mempool at capacity'')
      | Some (min_hash, min_value) \<Rightarrow>
          if new_value \<le> min_value then Inl (Validation ''mempool at capacity'')
          else Inr (remove_one E min_hash p, Some min_hash))"

definition mempool_add ::
  "ext \<Rightarrow> 's utxo_store \<Rightarrow> 's \<Rightarrow> transaction \<Rightarrow> mempool \<Rightarrow> mempool \<times> (node_error + added_to_pool)" where
  "mempool_add E U s tx p =
     (let h = transaction_hash E tx; hex = hex_encode E h in
      if map_of (mp_txs p) h \<noteq> None
      then (p, Inr \<lparr>ap_tx_hash = hex,
             ap_value = (case map_of (mp_values p) h of None \<Rightarrow> 0 | Some v \<Rightarrow> v),
             ap_pool_size = length (mp_txs p), ap_evicted = None, ap_newly_added = False\<rparr>)
      else case validate_transaction E U s tx of
        Inl e \<Rightarrow> (p, Inl (Validation (show_tx_error e)))
      | Inr _ \<Rightarrow>
        if list_ex (\<lambda>r. r \<in> mp_in_flight p) (tx_refs tx)
        then (p, Inl (Validation ''double spend: input already in mempool''))
        else case make_room E (output_value tx) p of
          Inl e \<Rightarrow> (p, Inl e)
        | Inr (p1, evicted) \<Rightarrow>
          (let p2 = pool_insert E tx p1
           in (p2, Inr \<lparr>ap_tx_hash = hex, ap_value = output_value tx, ap_pool_size = length (mp_txs p2),
                 ap_evicted = map_option (hex_encode E) evicted, ap_newly_added = True\<rparr>)))"

text \<open>\<open>sort_unstable_by\<close>: descending by value, equal values in the order \<open>tie_txs\<close> leaves them.\<close>

definition sort_desc :: "ext \<Rightarrow> (u64 \<times> transaction) list \<Rightarrow> (u64 \<times> transaction) list" where
  "sort_desc E xs = rev (sort_key fst (tie_txs E xs))"

definition mempool_drain :: "ext \<Rightarrow> nat \<Rightarrow> mempool \<Rightarrow> transaction list" where
  "mempool_drain E n p =
     (let by_value = map (\<lambda>(_, tx). (case map_of (mp_values p) (transaction_hash E tx) of
            None \<Rightarrow> 0 | Some v \<Rightarrow> v, tx)) (mp_txs p)
      in map snd (take n (sort_desc E by_value)))"

section \<open>Invariant\<close>

definition pool_inv :: "ext \<Rightarrow> mempool \<Rightarrow> bool" where
  "pool_inv E p \<longleftrightarrow>
     alist_ok (mp_txs p) \<and> alist_ok (mp_values p) \<and>
     (\<forall>(h, tx) \<in> set (mp_txs p). h = transaction_hash E tx) \<and>
     (\<forall>(h, tx) \<in> set (mp_txs p). \<forall>(k, tx') \<in> set (mp_txs p). h \<noteq> k \<longrightarrow> set (tx_refs tx) \<inter> set (tx_refs tx') = {}) \<and>
     mp_in_flight p = (\<Union>(h, tx) \<in> set (mp_txs p). set (tx_refs tx)) \<and>
     (\<forall>h. map_of (mp_values p) h = map_option output_value (map_of (mp_txs p) h)) \<and>
     length (mp_txs p) \<le> mp_max_size p"

text \<open>The pools a node can have: any sequence of \<open>add\<close> (against any state of the store) and \<open>remove\<close>.\<close>

inductive pool_reachable :: "ext \<Rightarrow> 's utxo_store \<Rightarrow> nat \<Rightarrow> mempool \<Rightarrow> bool"
  for E :: ext and U :: "'s utxo_store" and n :: nat where
  pool_init: "pool_reachable E U n (mempool_new n)"
| pool_add: "pool_reachable E U n p \<Longrightarrow> mempool_add E U s tx p = (p', r) \<Longrightarrow> pool_reachable E U n p'"
| pool_remove: "pool_reachable E U n p \<Longrightarrow> pool_reachable E U n (mempool_remove E hs p)"

lemma swap_remove_set:
  assumes "swap_remove_deletes E"
  shows "set (swap_remove E k m) = {kv \<in> set m. fst kv \<noteq> k}"
    and "length (swap_remove E k m) = length (filter (\<lambda>kv. fst kv \<noteq> k) m)"
proof -
  have "mset (swap_remove E k m) = mset (filter (\<lambda>kv. fst kv \<noteq> k) m)"
    using assms by (simp add: swap_remove_deletes_def)
  from mset_eq_setD [OF this] mset_eq_length [OF this]
  show "set (swap_remove E k m) = {kv \<in> set m. fst kv \<noteq> k}"
    and "length (swap_remove E k m) = length (filter (\<lambda>kv. fst kv \<noteq> k) m)" by simp_all
qed

lemma swap_remove_alist:
  assumes "swap_remove_deletes E" and "alist_ok m"
  shows "alist_ok (swap_remove E k m)" and "map_of (swap_remove E k m) = (map_of m)(k := None)"
proof -
  have "mset (map fst (swap_remove E k m)) = mset (map fst (filter (\<lambda>kv. fst kv \<noteq> k) m))"
    using assms(1) unfolding swap_remove_deletes_def by (metis mset_map)
  moreover have "distinct (map fst (filter (\<lambda>kv. fst kv \<noteq> k) m))"
    using assms(2) by (rule distinct_map_filter)
  ultimately show ok: "alist_ok (swap_remove E k m)" by (metis mset_eq_imp_distinct_iff)
  show "map_of (swap_remove E k m) = (map_of m)(k := None)"
  proof
    fix x
    show "map_of (swap_remove E k m) x = ((map_of m)(k := None)) x"
    proof (cases "x = k")
      case True
      then show ?thesis using swap_remove_set(1) [OF assms(1), of k m] by (auto simp: map_of_eq_None_iff)
    next
      case False
      then have "map_of (swap_remove E k m) x = Some v \<longleftrightarrow> map_of m x = Some v" for v
        using swap_remove_set(1) [OF assms(1), of k m] ok assms(2) by auto
      then show ?thesis using False by (metis fun_upd_other option.exhaust)
    qed
  qed
qed

lemma remove_one_inv:
  assumes E: "swap_remove_deletes E" and inv: "pool_inv E p"
  shows "pool_inv E (remove_one E h p)"
proof (cases "map_of (mp_txs p) h")
  case (Some tx)
  let ?T = "swap_remove E h (mp_txs p)"
  have ok: "alist_ok (mp_txs p)" using inv by (simp add: pool_inv_def)
  have set: "set ?T = {kv \<in> set (mp_txs p). fst kv \<noteq> h}" by (rule swap_remove_set(1) [OF E])
  have in_h: "(h, tx) \<in> set (mp_txs p)" using Some by (rule map_of_SomeD)
  have other: "set (tx_refs tx') \<inter> set (tx_refs tx) = {}" if "(k, tx') \<in> set ?T" for k tx'
    using inv that in_h unfolding pool_inv_def set by fastforce
  have "mp_in_flight p = (\<Union>(k, t) \<in> set (mp_txs p). set (tx_refs t))" using inv by (simp add: pool_inv_def)
  also have "set (mp_txs p) = insert (h, tx) (set ?T)"
    using in_h ok by (auto simp: set dest: eq_key_imp_eq_value)
  finally have "mp_in_flight p - set (tx_refs tx) = (\<Union>(k, t) \<in> set ?T. set (tx_refs t))"
    using other by fastforce
  moreover have "length ?T \<le> mp_max_size p"
  proof -
    have "length ?T \<le> length (mp_txs p)" by (simp add: swap_remove_set(2) [OF E])
    then show ?thesis using inv unfolding pool_inv_def by linarith
  qed
  moreover have "alist_ok ?T" "map_of ?T = (map_of (mp_txs p))(h := None)"
    by (rule swap_remove_alist [OF E ok])+
  moreover have "\<forall>(k, t) \<in> set ?T. \<forall>(k', t') \<in> set ?T. k \<noteq> k' \<longrightarrow> set (tx_refs t) \<inter> set (tx_refs t') = {}"
    using inv unfolding pool_inv_def set by fast
  moreover have "\<forall>(k, t) \<in> set ?T. k = transaction_hash E t" using inv unfolding pool_inv_def set by auto
  ultimately show ?thesis
    using inv Some by (simp add: remove_one_def pool_inv_def delete_conv distinct_delete)
next
  case None
  then show ?thesis using inv by (simp add: remove_one_def)
qed

lemma mempool_remove_inv: "swap_remove_deletes E \<Longrightarrow> pool_inv E p \<Longrightarrow> pool_inv E (mempool_remove E hs p)"
  unfolding mempool_remove_def by (induction hs arbitrary: p) (simp_all add: remove_one_inv)

lemma remove_one_absent: "pool_inv E p \<Longrightarrow> swap_remove_deletes E \<Longrightarrow>
    map_of (mp_txs (remove_one E h p)) = (map_of (mp_txs p))(h := None)"
  by (cases "map_of (mp_txs p) h") (auto simp: remove_one_def pool_inv_def swap_remove_alist)

lemma remove_one_in_flight: "mp_in_flight (remove_one E h p) \<subseteq> mp_in_flight p"
  by (auto simp: remove_one_def split: option.splits)

lemma remove_one_length:
  assumes "swap_remove_deletes E" and "map_of (mp_txs p) h \<noteq> None"
  shows "length (mp_txs (remove_one E h p)) < length (mp_txs p)"
proof -
  obtain tx where "(h, tx) \<in> set (mp_txs p)" and "map_of (mp_txs p) h = Some tx"
    using assms(2) map_of_SomeD by fastforce
  then show ?thesis
    using length_filter_less [of "(h, tx)" "mp_txs p" "\<lambda>kv. fst kv \<noteq> h"] swap_remove_set(2) [OF assms(1), of h "mp_txs p"]
    by (simp add: remove_one_def)
qed

lemma remove_one_max [simp]: "mp_max_size (remove_one E h p) = mp_max_size p"
  by (simp add: remove_one_def split: option.splits)

lemma min_by_value_least:
  assumes "min_by_value xs = Some (h, v)"
  shows "(h, v) \<in> set xs \<and> (\<forall>(k, w) \<in> set xs. v \<le> w)"
proof -
  have "fold (\<lambda>y m. if snd y < snd m then y else m) ys x \<in> set (x # ys) \<and>
      (\<forall>y \<in> set (x # ys). snd (fold (\<lambda>y m. if snd y < snd m then y else m) ys x) \<le> snd y)"
    for ys and x :: "tx_hash \<times> u64"
  proof (induction ys arbitrary: x)
    case (Cons y ys)
    show ?case using Cons [of x] Cons [of y] by (auto intro: order.trans less_imp_le)
  qed simp
  from this [of "tl xs" "hd xs"] show ?thesis using assms by (cases xs) auto
qed

lemma make_room_spec:
  assumes "swap_remove_deletes E" and "orders_permute E" and "pool_inv E p" and "make_room E v p = Inr (p1, ev)"
  shows "pool_inv E p1 \<and> length (mp_txs p1) < mp_max_size p1 \<and> mp_max_size p1 = mp_max_size p \<and>
    mp_in_flight p1 \<subseteq> mp_in_flight p \<and>
    (case ev of None \<Rightarrow> p1 = p \<and> length (mp_txs p) < mp_max_size p
     | Some h \<Rightarrow> mp_max_size p \<le> length (mp_txs p) \<and> p1 = remove_one E h p \<and>
         (\<exists>tx. map_of (mp_txs p) h = Some tx \<and> output_value tx < v \<and>
            (\<forall>(k, t) \<in> set (mp_txs p). output_value tx \<le> output_value t)))"
proof (cases "length (mp_txs p) < mp_max_size p")
  case True
  then show ?thesis using assms(3,4) by (auto simp: make_room_def)
next
  case False
  then obtain h w where m: "min_by_value (hash_iter E (mp_values p)) = Some (h, w)"
    and "\<not> v \<le> w" and p1: "p1 = remove_one E h p" "ev = Some h"
    using assms(4) by (auto simp: make_room_def split: option.splits if_splits)
  have "mset (hash_iter E (mp_values p)) = mset (mp_values p)" using assms(2) by (simp add: orders_permute_def)
  then have set: "set (hash_iter E (mp_values p)) = set (mp_values p)" by (rule mset_eq_setD)
  note least = min_by_value_least [OF m, unfolded set]
  have vals: "\<And>k. map_of (mp_values p) k = map_option output_value (map_of (mp_txs p) k)"
    and ok: "alist_ok (mp_values p)" "alist_ok (mp_txs p)" using assms(3) by (simp_all add: pool_inv_def)
  have "map_of (mp_values p) h = Some w" using least ok(1) by simp
  then obtain tx where tx: "map_of (mp_txs p) h = Some tx" "output_value tx = w" by (auto simp: vals)
  have "w \<le> output_value t" if "(k, t) \<in> set (mp_txs p)" for k t
  proof -
    have "map_of (mp_values p) k = Some (output_value t)" using that ok(2) by (simp add: vals)
    then show ?thesis using least by (auto dest: map_of_SomeD)
  qed
  moreover have "length (mp_txs p1) < mp_max_size p"
    using remove_one_length [OF assms(1), of p h] tx(1) assms(3) by (simp add: p1 pool_inv_def)
  ultimately show ?thesis
    using False tx \<open>\<not> v \<le> w\<close> remove_one_inv [OF assms(1,3)] remove_one_in_flight [of E h p]
    by (auto simp: p1 not_le)
qed

lemma pool_insert_inv:
  assumes inv: "pool_inv E p" and new: "map_of (mp_txs p) (transaction_hash E tx) = None"
    and "length (mp_txs p) < mp_max_size p" and dis: "set (tx_refs tx) \<inter> mp_in_flight p = {}"
  shows "pool_inv E (pool_insert E tx p)"
proof -
  let ?h = "transaction_hash E tx"
  have T: "AList.update ?h tx (mp_txs p) = mp_txs p @ [(?h, tx)]" using new by (rule alist_update_new)
  have vnew: "map_of (mp_values p) ?h = None" using inv new by (simp add: pool_inv_def)
  have fresh: "?h \<notin> fst ` set (mp_txs p)" using new by (simp add: map_of_eq_None_iff)
  have apart: "set (tx_refs t) \<inter> set (tx_refs tx) = {}" if "(k, t) \<in> set (mp_txs p)" for k t
    using inv dis that unfolding pool_inv_def by fastforce
  have "alist_ok (mp_txs p @ [(?h, tx)])" using inv fresh by (simp add: pool_inv_def)
  moreover have "alist_ok (AList.update ?h (output_value tx) (mp_values p))"
    using inv by (simp add: pool_inv_def distinct_update)
  moreover have "map_of (AList.update ?h (output_value tx) (mp_values p)) h =
      map_option output_value (map_of (mp_txs p @ [(?h, tx)]) h)" for h
    using inv new by (simp add: pool_inv_def update_conv map_of_append map_add_def split: option.splits)
  moreover have "\<forall>(h, t) \<in> set (mp_txs p @ [(?h, tx)]). \<forall>(k, t') \<in> set (mp_txs p @ [(?h, tx)]).
      h \<noteq> k \<longrightarrow> set (tx_refs t) \<inter> set (tx_refs t') = {}"
    using inv apart unfolding pool_inv_def by (auto 4 3)
  moreover have "mp_in_flight p \<union> set (tx_refs tx) = (\<Union>(h, t) \<in> set (mp_txs p @ [(?h, tx)]). set (tx_refs t))"
    using inv unfolding pool_inv_def by auto
  moreover have "\<forall>(h, t) \<in> set (mp_txs p @ [(?h, tx)]). h = transaction_hash E t"
    using inv unfolding pool_inv_def by auto
  moreover have "length (mp_txs p @ [(?h, tx)]) \<le> mp_max_size p" using assms(3) by simp
  ultimately show ?thesis unfolding pool_inv_def pool_insert_def T by simp
qed

lemma mempool_add_inv:
  assumes "swap_remove_deletes E" and "orders_permute E" and "pool_inv E p" and "mempool_add E U s tx p = (p', r)"
  shows "pool_inv E p' \<and> mp_max_size p' = mp_max_size p"
proof (cases "p' = p")
  case False
  then obtain p1 ev where new: "map_of (mp_txs p) (transaction_hash E tx) = None"
    and free: "\<not> list_ex (\<lambda>r. r \<in> mp_in_flight p) (tx_refs tx)"
    and room: "make_room E (output_value tx) p = Inr (p1, ev)" and p': "p' = pool_insert E tx p1"
    using assms(4) by (auto simp: mempool_add_def Let_def split: if_splits sum.splits)
  note spec = make_room_spec [OF assms(1-3) room]
  have "map_of (mp_txs p1) (transaction_hash E tx) = None"
    using spec new remove_one_absent [OF assms(3,1)] by (auto split: option.splits)
  moreover have "set (tx_refs tx) \<inter> mp_in_flight p1 = {}" using spec free by (auto simp: list_ex_iff)
  ultimately have "pool_inv E p'" unfolding p' using spec by (intro pool_insert_inv) simp_all
  then show ?thesis using spec by (simp add: p' pool_insert_def)
qed (use assms(3) in simp)

lemma reachable_inv:
  assumes "swap_remove_deletes E" and "orders_permute E" and "pool_reachable E U n p"
  shows "pool_inv E p \<and> mp_max_size p = n"
  using assms(3)
proof induction
  case pool_init
  show ?case by (simp add: mempool_new_def pool_inv_def)
next
  case (pool_add p s tx p' r)
  then show ?case using mempool_add_inv [OF assms(1,2), of p U s tx p' r] by simp
next
  case (pool_remove p hs)
  moreover have "mp_max_size (mempool_remove E hs p) = mp_max_size p"
    unfolding mempool_remove_def by (induction hs arbitrary: p) simp_all
  ultimately show ?case using mempool_remove_inv [OF assms(1)] by simp
qed

section \<open>Draining\<close>

lemma sort_desc_facts:
  assumes "orders_permute E"
  shows "mset (sort_desc E xs) = mset xs" and "sorted_wrt (\<ge>) (map fst (sort_desc E xs))"
proof -
  show "mset (sort_desc E xs) = mset xs" using assms by (simp add: sort_desc_def orders_permute_def)
  have "sorted (map fst (sort_key fst (tie_txs E xs)))" by simp
  then show "sorted_wrt (\<ge>) (map fst (sort_desc E xs))"
    by (simp add: sort_desc_def rev_map [symmetric] sorted_wrt_rev)
qed

lemma drain_by_value:
  assumes "pool_inv E p"
  shows "map (\<lambda>(_, tx). (case map_of (mp_values p) (transaction_hash E tx) of None \<Rightarrow> 0 | Some v \<Rightarrow> v, tx)) (mp_txs p) =
    map (\<lambda>(_, tx). (output_value tx, tx)) (mp_txs p)"
proof (rule map_cong [OF refl])
  fix x assume x: "x \<in> set (mp_txs p)"
  obtain h tx where hx: "x = (h, tx)" by (cases x)
  have "map_of (mp_txs p) h = Some tx" "h = transaction_hash E tx"
    using assms x hx by (auto simp: pool_inv_def)
  then have "map_of (mp_values p) (transaction_hash E tx) = Some (output_value tx)"
    using assms by (simp add: pool_inv_def)
  then show "(case x of (_, tx) \<Rightarrow> (case map_of (mp_values p) (transaction_hash E tx) of None \<Rightarrow> 0 | Some v \<Rightarrow> v, tx)) =
      (case x of (_, tx) \<Rightarrow> (output_value tx, tx))" by (simp add: hx)
qed

text \<open>The drained list is a prefix of the whole pool, sorted.\<close>

lemma drain_whole:
  assumes "orders_permute E" and "pool_inv E p"
  obtains ts where "\<And>n. mempool_drain E n p = take n ts" "mset ts = mset (map snd (mp_txs p))"
    "sorted_wrt (\<ge>) (map output_value ts)"
proof -
  let ?xs = "map (\<lambda>(_, tx). (output_value tx, tx)) (mp_txs p)"
  let ?ts = "map snd (sort_desc E ?xs)"
  have ms: "mset (sort_desc E ?xs) = mset ?xs" by (rule sort_desc_facts(1) [OF assms(1)])
  have "\<forall>x \<in> set (sort_desc E ?xs). fst x = output_value (snd x)"
    unfolding mset_eq_setD [OF ms] by auto
  then have eq: "map fst (sort_desc E ?xs) = map output_value ?ts" by simp
  have "sorted_wrt (\<ge>) (map output_value ?ts)"
    using sort_desc_facts(2) [OF assms(1), of ?xs] unfolding eq .
  moreover have "mset ?ts = mset (map snd ?xs)" by (simp only: mset_map ms)
  then have "mset ?ts = mset (map snd (mp_txs p))" by (simp add: comp_def split_def)
  moreover have "mempool_drain E n p = take n ?ts" for n
    by (simp add: mempool_drain_def drain_by_value [OF assms(2)] take_map)
  ultimately show thesis using that [of ?ts] by blast
qed

lemma disjoint_refs_distinct:
  assumes "\<forall>tx \<in> set ts. distinct (tx_refs tx)"
    and "\<forall>i < length ts. \<forall>j < length ts. i \<noteq> j \<longrightarrow> set (tx_refs (ts ! i)) \<inter> set (tx_refs (ts ! j)) = {}"
  shows "distinct (concat (map tx_refs ts))"
  using assms
proof (induction ts)
  case (Cons t ts)
  have "set (tx_refs t) \<inter> set (tx_refs u) = {}" if u: "u \<in> set ts" for u
  proof -
    obtain j where "j < length ts" "u = ts ! j" using u unfolding in_set_conv_nth by blast
    then show ?thesis using Cons.prems(2) [rule_format, of 0 "Suc j"] by simp
  qed
  moreover have "\<forall>i < length ts. \<forall>j < length ts. i \<noteq> j \<longrightarrow> set (tx_refs (ts ! i)) \<inter> set (tx_refs (ts ! j)) = {}"
  proof (intro allI impI)
    fix i j assume "i < length ts" "j < length ts" "i \<noteq> j"
    then show "set (tx_refs (ts ! i)) \<inter> set (tx_refs (ts ! j)) = {}"
      using Cons.prems(2) [rule_format, of "Suc i" "Suc j"] by simp
  qed
  ultimately show ?case using Cons.IH Cons.prems(1) by auto
qed simp

lemma pool_refs_distinct:
  assumes "pool_inv E p" and "\<forall>(h, tx) \<in> set (mp_txs p). distinct (tx_refs tx)"
  shows "distinct (concat (map tx_refs (map snd (mp_txs p))))"
proof (rule disjoint_refs_distinct)
  show "\<forall>tx \<in> set (map snd (mp_txs p)). distinct (tx_refs tx)" using assms(2) by auto
  show "\<forall>i < length (map snd (mp_txs p)). \<forall>j < length (map snd (mp_txs p)). i \<noteq> j \<longrightarrow>
      set (tx_refs (map snd (mp_txs p) ! i)) \<inter> set (tx_refs (map snd (mp_txs p) ! j)) = {}"
  proof (intro allI impI)
    fix i j assume ij: "i < length (map snd (mp_txs p))" "j < length (map snd (mp_txs p))" "i \<noteq> j"
    then have "fst (mp_txs p ! i) \<noteq> fst (mp_txs p ! j)"
      using assms(1) by (auto simp: pool_inv_def distinct_conv_nth)
    then show "set (tx_refs (map snd (mp_txs p) ! i)) \<inter> set (tx_refs (map snd (mp_txs p) ! j)) = {}"
      using assms(1) ij nth_mem [of i "mp_txs p"] nth_mem [of j "mp_txs p"] unfolding pool_inv_def
      by (auto simp: split_def)
  qed
qed

section \<open>Properties\<close>

text \<open>
  Claim C14: the documented invariants hold in every reachable pool: no two pooled transactions spend
  the same output, \<open>in_flight\<close> holds exactly the references the pool spends, the value cache is in
  sync and the pool never exceeds its maximal size.
\<close>

theorem mempool_invariant:
  assumes "swap_remove_deletes E" and "orders_permute E" and "pool_reachable E U n p"
  shows "length (mp_txs p) \<le> n \<and> mp_in_flight p = (\<Union>(h, tx) \<in> set (mp_txs p). set (tx_refs tx)) \<and>
    (\<forall>h. map_of (mp_values p) h = map_option output_value (map_of (mp_txs p) h)) \<and>
    (\<forall>(h, tx) \<in> set (mp_txs p). \<forall>(k, tx') \<in> set (mp_txs p). h \<noteq> k \<longrightarrow>
       set (tx_refs tx) \<inter> set (tx_refs tx') = {})"
  using reachable_inv [OF assms] unfolding pool_inv_def by blast

definition sample_pool :: mempool where
  "sample_pool = fst (mempool_add ref_ext (sled_utxo_store rbt_env ref_ext) funded_sled
     (sample_payment [sample_ref] [sample_output 3]) (mempool_new 1))"

lemma sample_pool_reachable: "pool_reachable ref_ext (sled_utxo_store rbt_env ref_ext) 1 sample_pool"
  unfolding sample_pool_def by (rule pool_add [OF pool_init]) (rule prod.collapse [symmetric])

theorem mempool_invariant_witness:
  "length (mp_txs sample_pool) \<le> 1 \<and>
   mp_in_flight sample_pool = (\<Union>(h, tx) \<in> set (mp_txs sample_pool). set (tx_refs tx))"
  using mempool_invariant [OF ref_swap_remove ref_orders_permute sample_pool_reachable] by blast

text \<open>
  Claim C15: what \<open>drain(n)\<close> returns: as many transactions as the pool has, at most \<open>n\<close>, all from the
  pool, in descending order of value, and none outside is worth more than one of them.
\<close>

theorem mempool_drain_best:
  fixes n :: nat
  assumes "orders_permute E" and "pool_inv E p"
  defines "ts \<equiv> mempool_drain E n p"
  shows "length ts = min n (length (mp_txs p)) \<and> mset ts \<subseteq># mset (map snd (mp_txs p)) \<and>
    sorted_wrt (\<ge>) (map output_value ts) \<and>
    (\<forall>tx \<in># mset (map snd (mp_txs p)) - mset ts. \<forall>t \<in> set ts. output_value tx \<le> output_value t)"
proof -
  obtain us where us: "mempool_drain E n p = take n us" "mset us = mset (map snd (mp_txs p))"
    "sorted_wrt (\<ge>) (map output_value us)"
    using drain_whole [OF assms(1,2)] by blast
  have "length us = length (mp_txs p)" using mset_eq_length [OF us(2)] by simp
  moreover have "mset us = mset (take n us) + mset (drop n us)" by (metis append_take_drop_id mset_append)
  then have rest: "mset (map snd (mp_txs p)) - mset (take n us) = mset (drop n us)"
    "mset (take n us) \<subseteq># mset (map snd (mp_txs p))" using us(2) by simp_all
  moreover have "sorted_wrt (\<ge>) (map output_value (take n us) @ map output_value (drop n us))"
    using us(3) by (metis append_take_drop_id map_append)
  ultimately show ?thesis
    using us(1) by (simp add: ts_def sorted_wrt_append)
qed

lemma empty_pool_inv: "pool_inv E (mempool_new n)"
  by (simp add: pool_inv_def mempool_new_def)

theorem mempool_drain_best_witness:
  "sorted_wrt (\<ge>) (map output_value (mempool_drain ref_ext 512 sample_pool))"
  using mempool_drain_best [OF ref_orders_permute, of sample_pool 512]
    reachable_inv [OF ref_swap_remove ref_orders_permute sample_pool_reachable] by blast

text \<open>
  A drained block spends no output twice, when the pooled transactions do not repeat an
  input themselves: the provision under which accepted blocks conserve the supply.
\<close>

lemma drained_refs_distinct:
  assumes "orders_permute E" and "pool_inv E p" and "\<forall>(h, tx) \<in> set (mp_txs p). distinct (tx_refs tx)"
  shows "distinct (concat (map tx_refs (mempool_drain E n p)))"
proof -
  obtain us where us: "mempool_drain E n p = take n us" "mset us = mset (map snd (mp_txs p))"
    using drain_whole [OF assms(1,2)] by blast
  have "mset (map (\<lambda>t. mset (tx_refs t)) us) = mset (map (\<lambda>t. mset (tx_refs t)) (map snd (mp_txs p)))"
    by (simp only: mset_map us(2))
  then have "mset (concat (map tx_refs us)) = mset (concat (map tx_refs (map snd (mp_txs p))))"
    unfolding mset_concat map_map comp_def by (metis sum_mset_sum_list)
  then have "distinct (concat (map tx_refs us))"
    using pool_refs_distinct [OF assms(2,3)] by (metis mset_eq_imp_distinct_iff)
  moreover have "concat (map tx_refs us) = concat (map tx_refs (take n us)) @ concat (map tx_refs (drop n us))"
    by (metis append_take_drop_id concat_append map_append)
  ultimately show ?thesis by (simp add: us(1))
qed

text \<open>
  Claim C16: the eviction rule.  Adding a new transaction to a full pool succeeds only by evicting a
  transaction of minimal value that is worth strictly less, and leaves the size as it was; into a
  pool with room nothing is evicted.
\<close>

theorem mempool_eviction:
  assumes "swap_remove_deletes E" and "orders_permute E" and "pool_inv E p"
    and "mempool_add E U s tx p = (p', Inr a)" and "ap_newly_added a"
  shows "map_of (mp_txs p') (transaction_hash E tx) = Some tx \<and>
    (if length (mp_txs p) < mp_max_size p
     then ap_evicted a = None \<and> length (mp_txs p') = length (mp_txs p) + 1
     else length (mp_txs p') \<le> length (mp_txs p) \<and>
       (\<exists>h t. ap_evicted a = Some (hex_encode E h) \<and> map_of (mp_txs p) h = Some t \<and>
          map_of (mp_txs p') h = None \<and> output_value t < output_value tx \<and>
          (\<forall>(k, u) \<in> set (mp_txs p). output_value t \<le> output_value u)))"
proof -
  let ?h = "transaction_hash E tx"
  obtain p1 ev where new: "map_of (mp_txs p) ?h = None"
    and room: "make_room E (output_value tx) p = Inr (p1, ev)" and p': "p' = pool_insert E tx p1"
    and a: "ap_evicted a = map_option (hex_encode E) ev"
    using assms(4,5) by (auto simp: mempool_add_def Let_def split: if_splits sum.splits)
  note spec = make_room_spec [OF assms(1-3) room]
  have new1: "map_of (mp_txs p1) ?h = None"
    using spec new remove_one_absent [OF assms(3,1)] by (auto split: option.splits)
  then have T: "mp_txs p' = mp_txs p1 @ [(?h, tx)]" by (simp add: p' pool_insert_def alist_update_new)
  show ?thesis
  proof (cases ev)
    case None
    then show ?thesis using spec a new1 by (simp add: T map_of_append map_add_def)
  next
    case (Some h)
    then obtain t where t: "map_of (mp_txs p) h = Some t" "p1 = remove_one E h p" "\<not> length (mp_txs p) < mp_max_size p"
      "output_value t < output_value tx" "\<forall>(k, u) \<in> set (mp_txs p). output_value t \<le> output_value u"
      using spec by auto
    have "map_of (mp_txs p1) h = None" using remove_one_absent [OF assms(3,1)] by (simp add: t(2))
    moreover have "h \<noteq> ?h" using t(1) new by auto
    moreover have "length (mp_txs p') \<le> length (mp_txs p)"
      using remove_one_length [OF assms(1), of p h] t(1) by (simp add: T t(2))
    ultimately have "map_of (mp_txs p') h = None" "map_of (mp_txs p') ?h = Some tx"
        "length (mp_txs p') \<le> length (mp_txs p)"
      using new1 by (simp_all add: T map_of_append map_add_def)
    then show ?thesis using t a Some by auto
  qed
qed

lemma sample_add:
  "\<exists>a. mempool_add ref_ext (sled_utxo_store rbt_env ref_ext) funded_sled
     (sample_payment [sample_ref] [sample_output 3]) (mempool_new 1) = (sample_pool, Inr a) \<and> ap_newly_added a"
proof -
  have "validate_transaction ref_ext (sled_utxo_store rbt_env ref_ext) funded_sled
      (sample_payment [sample_ref] [sample_output 3]) = Inr ()"
    using sample_payment_accepted by (auto split: sum.splits)
  then show ?thesis
    by (simp add: sample_pool_def mempool_add_def Let_def mempool_new_def make_room_def list_ex_iff)
qed

theorem mempool_eviction_witness:
  "map_of (mp_txs sample_pool) (transaction_hash ref_ext (sample_payment [sample_ref] [sample_output 3])) =
     Some (sample_payment [sample_ref] [sample_output 3]) \<and> length (mp_txs sample_pool) = 1"
proof -
  obtain a where "mempool_add ref_ext (sled_utxo_store rbt_env ref_ext) funded_sled
     (sample_payment [sample_ref] [sample_output 3]) (mempool_new 1) = (sample_pool, Inr a)" "ap_newly_added a"
    using sample_add by blast
  from mempool_eviction [OF ref_swap_remove ref_orders_permute empty_pool_inv this]
  show ?thesis by (simp add: mempool_new_def)
qed

end
