(* ===== verification/Bcc_Node_State.thy ===== *)
theory Bcc_Node_State
  imports Bcc_Mempool
begin

text \<open>
  The state a running node shares between its tasks: wire messages (\<open>p2p/protocol.rs\<close>), configuration
  (\<open>config.rs\<close>), debug events (\<open>debug_event.rs\<close>), the peer registry and \<open>NodeState\<close> with its reorg
  (\<open>state.rs\<close>).  The stores are a state of type \<open>'s\<close> behind the three trait objects of \<open>node_env\<close>.
  The chain invariant says what the stores of a node hold: blocks at the heights \<open>0\<close> to the tip's,
  each linked to the one below.
\<close>

section \<open>Addresses, messages and the functions of other crates\<close>

type_synonym u16 = "16 word"

text \<open>\<open>std::net::IpAddr\<close> and \<open>std::net::SocketAddr\<close> (port, flow information, scope).\<close>

datatype ip_addr = Ipv4 u32 | Ipv6 "128 word"

datatype socket_addr = SocketV4 u32 u16 | SocketV6 "128 word" u16 u32 u32

fun sock_ip :: "socket_addr \<Rightarrow> ip_addr" where
  "sock_ip (SocketV4 a _) = Ipv4 a"
| "sock_ip (SocketV6 a _ _ _) = Ipv6 a"

datatype message =
    GetBlocks (from_height: u64)
  | Blocks (msg_blocks: "block list")
  | NewBlock (msg_block: block)
  | NewTx (msg_tx: transaction)
  | GetPeers
  | Peers (msg_addrs: "socket_addr list")
  | Ping (msg_nonce: u64)
  | Pong (msg_nonce: u64)

text \<open>
  \<open>json_message\<close>, \<open>unjson_message\<close>: \<open>serde_json\<close> at \<open>Message\<close>; \<open>show_addr\<close>, \<open>parse_addr\<close>: the text
  form of a \<open>SocketAddr\<close>; \<open>key_order\<close>: the order in which a \<open>HashMap\<close> yields its keys.
\<close>

record net =
  json_message :: "message \<Rightarrow> string + byte list"
  unjson_message :: "byte list \<Rightarrow> string + message"
  show_addr :: "socket_addr \<Rightarrow> string"
  parse_addr :: "string \<Rightarrow> string + socket_addr"
  key_order :: "socket_addr list \<Rightarrow> socket_addr list"

section \<open>\<open>NodeConfig\<close>\<close>

record node_config =
  listen_addr :: socket_addr
  bootstrap_peers :: "socket_addr list"
  slot_duration_secs :: u64
  http_addr :: socket_addr
  sled_path :: string
  mempool_max_size :: nat
  genesis_path :: string
  my_address :: address
  my_signing_key :: signing_key

record raw_config =
  raw_listen_addr :: string
  raw_bootstrap_peers :: "string list"
  raw_slot_duration_secs :: u64
  raw_http_addr :: string
  raw_sled_path :: string
  raw_mempool_max_size :: nat
  raw_genesis_path :: string
  raw_my_address :: string
  raw_my_signing_key :: string

text \<open>\<open>collect::<Result<Vec<_>, _>>()\<close> over the bootstrap peers: the first error wins.\<close>

fun parse_peers :: "net \<Rightarrow> string list \<Rightarrow> node_error + socket_addr list" where
  "parse_peers N [] = Inr []"
| "parse_peers N (s # ss) =
     (case parse_addr N s of
        Inl e \<Rightarrow> Inl (NodeConfigErr (''bootstrap_peers: '' @ e))
      | Inr a \<Rightarrow> (case parse_peers N ss of Inl e \<Rightarrow> Inl e | Inr as \<Rightarrow> Inr (a # as)))"

definition from_raw :: "ext \<Rightarrow> net \<Rightarrow> raw_config \<Rightarrow> node_error + node_config" where
  "from_raw E N raw =
     (case parse_addr N (raw_listen_addr raw) of Inl e \<Rightarrow> Inl (NodeConfigErr (''listen_addr: '' @ e))
      | Inr la \<Rightarrow>
     (case parse_addr N (raw_http_addr raw) of Inl e \<Rightarrow> Inl (NodeConfigErr (''http_addr: '' @ e))
      | Inr ha \<Rightarrow>
     (case parse_peers N (raw_bootstrap_peers raw) of Inl e \<Rightarrow> Inl e
      | Inr bp \<Rightarrow>
     (case validate_address (raw_my_address raw) of
        Inl e \<Rightarrow> Inl (NodeConfigErr (''my_address: '' @ show_address_error e))
      | Inr addr \<Rightarrow>
     (case hex_decode E (raw_my_signing_key raw) of
        Inl e \<Rightarrow> Inl (NodeConfigErr (''my_signing_key hex: '' @ e))
      | Inr key \<Rightarrow>
        if length key \<noteq> 32 then Inl (NodeConfigErr ''my_signing_key must be 32 bytes'')
        else let derived = from_pubkey_bytes E (ed_public E key) in
          if derived \<noteq> addr
          then Inl (NodeConfigErr (''my_signing_key does not match my_address: key derives to '' @
                 as_str derived @ '' but config declares '' @ as_str addr))
          else Inr \<lparr>listen_addr = la, bootstrap_peers = bp,
                 slot_duration_secs = raw_slot_duration_secs raw, http_addr = ha,
                 sled_path = raw_sled_path raw, mempool_max_size = raw_mempool_max_size raw,
                 genesis_path = raw_genesis_path raw, my_address = addr, my_signing_key = key\<rparr>)))))"

section \<open>\<open>DebugEvent\<close>\<close>

datatype debug_event =
    NodeStarting string string string
  | HttpApiReady string
  | NodeStopping
  | IbdStarting u64
  | IbdBatch u64
  | IbdComplete u64
  | SlotTick u64 u64
  | SlotNotProposer u64 string
  | MempoolDrain u64 nat
  | BlockProposed u64 string u64 nat string
  | PeerConnected string nat
  | PeerDisconnected string nat
  | BlockFromPeer string u64 string nat string
  | BlockRejected string u64 string string
  | BlockIgnored string u64 u64 string
  | BlockReorged u64 string string
  | TxGossipAccepted string string
  | TxGossipRejected string string string
  | TxAccepted string u64 nat
  | TxRejected string string
  | TxEvicted string string
  | ApiTxAccepted string
  | ApiTxRejected string string
  | ApiGetTip u64 string
  | ScenarioEvent string string string string
  | NodeSnapshot u64 string "string list" nat

text \<open>
  \<open>DebugEnvelope::now\<close> for a clock that reads \<open>millis\<close>.  The year loop subtracts whole years; the month
  loop leaves at the first month the remaining days fit.
\<close>

type_synonym u128 = "128 word"

definition leap_day :: "nat \<Rightarrow> nat" where
  "leap_day y = (if y mod 400 = 0 then 1 else if y mod 100 = 0 then 0 else if y mod 4 = 0 then 1 else 0)"

function year_loop :: "nat \<Rightarrow> nat \<Rightarrow> nat \<times> nat" where
  "year_loop y days =
     (let year_days = 365 + leap_day y
      in if days < year_days then (y, days) else year_loop (y + 1) (days - year_days))"
  by pat_completeness auto

termination
  by (relation "measure snd") auto

declare year_loop.simps [simp del]

definition month_days :: "nat \<Rightarrow> nat list" where
  "month_days y = [31, 28 + leap_day y, 31, 30, 31, 30, 31, 31, 30, 31, 30, 31]"

fun month_loop :: "nat list \<Rightarrow> nat \<Rightarrow> nat \<Rightarrow> nat \<times> nat" where
  "month_loop [] m days = (m, days)"
| "month_loop (md # mds) m days = (if days < md then (m, days) else month_loop mds (m + 1) (days - md))"

definition epoch_to_ymd :: "u32 \<Rightarrow> nat \<times> nat \<times> nat" where
  "epoch_to_ymd days =
     (let (y, rest) = year_loop 1970 (unat days); (m, d) = month_loop (month_days y) 0 rest
      in (y, m + 1, d + 1))"

text \<open>\<open>{n:0w}\<close>: at least \<open>w\<close> digits.\<close>

definition show_pad :: "nat \<Rightarrow> nat \<Rightarrow> string" where
  "show_pad w n = replicate (w - length (show_nat n)) CHR ''0'' @ show_nat n"

definition format_ts :: "u128 \<Rightarrow> string" where
  "format_ts millis =
     (let secs = unat millis div 1000; ms = unat millis mod 1000; mins = secs div 60; sec = secs mod 60;
          hours = mins div 60; mi = mins mod 60; days = hours div 24; h = hours mod 24;
          (year, month, day) = epoch_to_ymd (of_nat days)
      in show_pad 4 year @ ''-'' @ show_pad 2 month @ ''-'' @ show_pad 2 day @ ''T'' @ show_pad 2 h @ '':'' @
         show_pad 2 mi @ '':'' @ show_pad 2 sec @ ''.'' @ show_pad 3 ms @ ''Z'')"

record debug_envelope =
  env_ts :: string
  env_event :: debug_event

definition envelope_now :: "u128 \<Rightarrow> debug_event \<Rightarrow> debug_envelope" where
  "envelope_now millis e = \<lparr>env_ts = format_ts millis, env_event = e\<rparr>"

section \<open>\<open>PeerSet\<close>\<close>

text \<open>A peer's outbound channel is its bounded queue; \<open>try_send\<close> drops the message when it is full.\<close>

type_synonym peer_set = "(socket_addr \<times> message list) list"

definition OUTBOUND_QUEUE :: nat where
  "OUTBOUND_QUEUE = 64"

definition try_send :: "message list \<Rightarrow> message \<Rightarrow> message list" where
  "try_send q m = (if length q < OUTBOUND_QUEUE then q @ [m] else q)"

definition peers_insert :: "socket_addr \<Rightarrow> peer_set \<Rightarrow> peer_set" where
  "peers_insert a ps = AList.update a [] ps"

definition peers_remove :: "socket_addr \<Rightarrow> peer_set \<Rightarrow> peer_set" where
  "peers_remove a ps = AList.delete a ps"

definition peers_len :: "peer_set \<Rightarrow> nat" where
  "peers_len ps = length ps"

definition peers_addrs :: "net \<Rightarrow> peer_set \<Rightarrow> socket_addr list" where
  "peers_addrs N ps = key_order N (map fst ps)"

definition has_ip :: "ip_addr \<Rightarrow> peer_set \<Rightarrow> bool" where
  "has_ip ip ps = list_ex (\<lambda>(a, _). sock_ip a = ip) ps"

definition broadcast_except :: "socket_addr \<Rightarrow> message \<Rightarrow> peer_set \<Rightarrow> peer_set" where
  "broadcast_except src m ps = map (\<lambda>(a, q). (a, if a \<noteq> src then try_send q m else q)) ps"

definition broadcast_all :: "message \<Rightarrow> peer_set \<Rightarrow> peer_set" where
  "broadcast_all m ps = map (\<lambda>(a, q). (a, try_send q m)) ps"

text \<open>\<open>reply_tx.try_send\<close>: \<open>reply_tx\<close> is a clone of the sender registered for the peer.\<close>

definition reply :: "socket_addr \<Rightarrow> message \<Rightarrow> peer_set \<Rightarrow> peer_set" where
  "reply src m ps = map (\<lambda>(a, q). (a, if a = src then try_send q m else q)) ps"

section \<open>\<open>NodeState\<close>\<close>

text \<open>
  The shared state of a node.  \<open>ns_new_block\<close> and \<open>ns_events\<close> are the values sent so far on the two
  broadcast channels; the time stamp of an event is \<open>envelope_now\<close> of the clock when it is sent.
\<close>

record 's node_state =
  ns_store :: 's
  ns_mempool :: mempool
  ns_peers :: peer_set
  ns_config :: node_config
  ns_new_block :: "block list"
  ns_events :: "debug_event list"

record 's node_env =
  ne_ext :: ext
  ne_net :: net
  ne_blocks :: "'s block_store"
  ne_utxo :: "'s utxo_store"
  ne_validators :: "'s validator_store"

definition node_state_new :: "'s \<Rightarrow> node_config \<Rightarrow> 's node_state" where
  "node_state_new s c = \<lparr>ns_store = s, ns_mempool = mempool_new (mempool_max_size c), ns_peers = [],
     ns_config = c, ns_new_block = [], ns_events = []\<rparr>"

definition emit :: "debug_event \<Rightarrow> 's node_state \<Rightarrow> 's node_state" where
  "emit e st = st\<lparr>ns_events := ns_events st @ [e]\<rparr>"

definition reorg_block :: "'s node_env \<Rightarrow> block \<Rightarrow> block \<Rightarrow> 's \<Rightarrow> 's \<times> unit store_result" where
  "reorg_block Env old_block new_block s =
     (case us_rollback_block (ne_utxo Env) s old_block of
        (s1, Inl e) \<Rightarrow> (s1, Inl e)
      | (s1, Inr _) \<Rightarrow>
        (case bs_insert (ne_blocks Env) s1 new_block of
           (s2, Inl e) \<Rightarrow> (s2, Inl e)
         | (s2, Inr _) \<Rightarrow> us_apply_block (ne_utxo Env) s2 new_block))"

lemma emit_simps [simp]:
  "ns_store (emit e st) = ns_store st" "ns_mempool (emit e st) = ns_mempool st"
  "ns_peers (emit e st) = ns_peers st" "ns_config (emit e st) = ns_config st"
  "ns_new_block (emit e st) = ns_new_block st" "ns_events (emit e st) = ns_events st @ [e]"
  by (simp_all add: emit_def)

section \<open>The chain invariant\<close>

definition block_extends :: "ext \<Rightarrow> block \<Rightarrow> block \<Rightarrow> bool" where
  "block_extends E p b \<longleftrightarrow> height (header b) = height (header p) + 1 \<and>
     prev_hash (header b) = hash_of_block E p \<and> merkle_root (header b) = compute_merkle_root E (txs b)"

definition chain_to :: "ext \<Rightarrow> (u64 \<rightharpoonup> block) \<Rightarrow> u64 \<Rightarrow> bool" where
  "chain_to E M n \<longleftrightarrow> dom M = {h. h \<le> n} \<and>
     (\<forall>h p b. h < n \<longrightarrow> M h = Some p \<longrightarrow> M (h + 1) = Some b \<longrightarrow> block_extends E p b)"

text \<open>A store whose blocks form a chain up to its tip, which is at height \<open>n\<close>.\<close>

definition chain_ok :: "ext \<Rightarrow> 's block_store \<Rightarrow> ('s \<Rightarrow> u64 \<rightharpoonup> block) \<Rightarrow> u64 \<Rightarrow> 's \<Rightarrow> bool" where
  "chain_ok E B babs n s \<longleftrightarrow> chain_to E (babs s) n \<and>
     (\<exists>b. babs s n = Some b \<and> bs_tip B s = Inr (Some (n, hash_of_block E b)))"

lemma unat_inc:
  assumes "n \<noteq> - 1"
  shows "unat (n + 1 :: u64) = unat n + 1"
proof -
  have "unat n \<noteq> u64_max" using assms unat_minus_1 by (metis word_unat_eq_iff)
  then have "unat n + 1 < 2 ^ 64" using unat_lt_u64 [of n] by (simp add: u64_max_def)
  then show ?thesis by (simp add: unat_word_ariths)
qed

lemma inc_less: "n \<noteq> - 1 \<Longrightarrow> n < n + (1 :: u64)"
  by (simp add: word_less_nat_alt unat_inc)

lemma le_inc_iff: "n \<noteq> - 1 \<Longrightarrow> h \<le> n + (1 :: u64) \<longleftrightarrow> h \<le> n \<or> h = n + 1"
  by (auto simp: word_le_nat_alt word_unat_eq_iff unat_inc)

lemma chain_to_extend:
  assumes "chain_to E M n" and "M n = Some p" and "block_extends E p b" and "n \<noteq> - 1"
  shows "chain_to E (M(n + 1 \<mapsto> b)) (n + 1)"
proof -
  have n: "n < n + 1" using assms(4) by (rule inc_less)
  note le = le_inc_iff [OF assms(4)]
  have "dom (M(n + 1 \<mapsto> b)) = {h. h \<le> n + 1}"
    using assms(1) by (auto simp: chain_to_def le)
  moreover have "block_extends E q c"
    if "h < n + 1" "(M(n + 1 \<mapsto> b)) h = Some q" "(M(n + 1 \<mapsto> b)) (h + 1) = Some c" for h q c
  proof (cases "h = n")
    case True
    then show ?thesis using that assms(2,3) n by (simp split: if_splits)
  next
    case False
    have "h < n" using that(1) False le [of h] by (metis le_less order_less_irrefl)
    moreover have "h + 1 \<noteq> n + 1" "h \<noteq> n + 1" using False that(1) by auto
    ultimately show ?thesis using that assms(1) by (simp add: chain_to_def)
  qed
  ultimately show ?thesis unfolding chain_to_def by blast
qed

lemma chain_to_replace:
  assumes "chain_to E M (n + 1)" and "M n = Some p" and "block_extends E p b" and "n \<noteq> - 1"
    and "\<forall>h. h \<noteq> n + 1 \<longrightarrow> M' h = M h"
  shows "chain_to E (M'(n + 1 \<mapsto> b)) (n + 1)"
proof -
  have n: "n < n + 1" using assms(4) by (rule inc_less)
  have "dom (M'(n + 1 \<mapsto> b)) = dom M"
    using assms(1,5) by (auto simp: chain_to_def dom_def split: if_splits)
  moreover have "block_extends E q c"
    if "h < n + 1" "(M'(n + 1 \<mapsto> b)) h = Some q" "(M'(n + 1 \<mapsto> b)) (h + 1) = Some c" for h q c
  proof (cases "h = n")
    case True
    then show ?thesis using that assms(2,3,5) n by (simp split: if_splits)
  next
    case False
    then have "M h = Some q" "M (h + 1) = Some c" using that assms(5) by (auto split: if_splits)
    then show ?thesis using that(1) assms(1) by (simp add: chain_to_def)
  qed
  ultimately show ?thesis using assms(1) by (simp add: chain_to_def)
qed

text \<open>The two ways a node changes its chain, over any store that keeps the contract.\<close>

context chain_store
begin

lemma insert_apply_chain:
  assumes "inv s" and "chain_ok E B babs n s" and "babs s n = Some p" and "block_extends E p b"
    and "n \<noteq> - 1"
  shows "\<exists>s1 s2. bs_insert B s b = (s1, Inr ()) \<and> us_apply_block U s1 b = (s2, Inr ()) \<and> inv s2 \<and>
    chain_ok E B babs (n + 1) s2 \<and> babs s2 = (babs s)(n + 1 \<mapsto> b) \<and>
    uabs s2 = utxo_apply E b (uabs s) \<and> vabs s2 = vabs s"
proof -
  have hb: "height (header b) = n + 1"
    using assms(4) babs_height [OF assms(1,3)] by (simp add: block_extends_def)
  obtain s1 where s1: "bs_insert B s b = (s1, Inr ())" "inv s1" "babs s1 = (babs s)(n + 1 \<mapsto> b)"
    using insert_ok [OF assms(1), of b] by (auto simp: hb)
  obtain s2 where s2: "us_apply_block U s1 b = (s2, Inr ())" "inv s2" "uabs s2 = utxo_apply E b (uabs s1)"
    using apply_ok [OF s1(2), of b] by auto
  have to: "chain_to E (babs s) n" using assms(2) by (simp add: chain_ok_def)
  then have "\<forall>h \<in> dom (babs s). h \<le> height (header b)"
    by (simp add: chain_to_def hb le_inc_iff [OF assms(5)])
  then have "bs_tip B s1 = Inr (Some (n + 1, hash_of_block E b))"
    using tip_insert [OF assms(1) s1(1)] by (simp add: hb)
  then have "bs_tip B s2 = Inr (Some (n + 1, hash_of_block E b))" and babs: "babs s2 = (babs s)(n + 1 \<mapsto> b)"
    and "vabs s2 = vabs s" "uabs s1 = uabs s"
    using apply_tip [OF s1(2) s2(1)] apply_frame [OF s1(2) s2(1)] insert_frame [OF assms(1) s1(1)] s1(3)
    by simp_all
  moreover have "chain_to E (babs s2) (n + 1)"
    unfolding babs by (rule chain_to_extend [OF to assms(3-5)])
  ultimately show ?thesis using s1(1) s2 by (auto simp: chain_ok_def)
qed

lemma reorg_chain:
  assumes "inv s" and "chain_ok E B babs (n + 1) s" and "babs s n = Some p" and "block_extends E p b"
    and "n \<noteq> - 1" and "babs s (n + 1) = Some old" and "ne_blocks Env = B" and "ne_utxo Env = U"
  shows "\<exists>s'. reorg_block Env old b s = (s', Inr ()) \<and> inv s' \<and> chain_ok E B babs (n + 1) s' \<and>
    babs s' = (babs s)(n + 1 \<mapsto> b) \<and> vabs s' = vabs s"
proof -
  have hb: "height (header b) = n + 1"
    using assms(4) babs_height [OF assms(1,3)] by (simp add: block_extends_def)
  have ho: "height (header old) = n + 1" by (rule babs_height [OF assms(1,6)])
  have to: "chain_to E (babs s) (n + 1)" using assms(2) by (simp add: chain_ok_def)
  obtain s1 where s1: "us_rollback_block U s old = (s1, Inr ())" "inv s1"
    using rollback_total [OF assms(1)] by (metis surj_pair)
  have fr: "vabs s1 = vabs s" "\<forall>h. h \<noteq> n + 1 \<longrightarrow> babs s1 h = babs s h" "dom (babs s1) \<subseteq> dom (babs s)"
    using rollback_frame [OF assms(1) s1(1)] by (simp_all add: ho)
  obtain s2 where s2: "bs_insert B s1 b = (s2, Inr ())" "inv s2" "babs s2 = (babs s1)(n + 1 \<mapsto> b)"
    using insert_ok [OF s1(2), of b] by (auto simp: hb)
  obtain s3 where s3: "us_apply_block U s2 b = (s3, Inr ())" "inv s3"
    using apply_ok [OF s2(2), of b] by auto
  have "\<forall>h \<in> dom (babs s1). h \<le> height (header b)"
    using fr(3) to by (auto simp: chain_to_def hb)
  then have "bs_tip B s2 = Inr (Some (n + 1, hash_of_block E b))"
    using tip_insert [OF s1(2) s2(1)] by (simp add: hb)
  then have tip: "bs_tip B s3 = Inr (Some (n + 1, hash_of_block E b))"
    and babs: "babs s3 = (babs s1)(n + 1 \<mapsto> b)" and vabs: "vabs s3 = vabs s"
    using apply_tip [OF s2(2) s3(1)] apply_frame [OF s2(2) s3(1)] insert_frame [OF s1(2) s2(1)] s2(3) fr(1)
    by simp_all
  have "chain_to E (babs s3) (n + 1)"
    unfolding babs by (rule chain_to_replace [OF to assms(3-5) fr(2)])
  moreover have "babs s3 = (babs s)(n + 1 \<mapsto> b)" using fr(2) by (auto simp: babs fun_eq_iff)
  ultimately show ?thesis
    using s1(1) s2(1) s3 tip vabs by (simp add: chain_ok_def reorg_block_def assms(7,8))
qed

end

section \<open>Peer set lemmas\<close>

lemma peers_keys [simp]:
  "map fst (broadcast_except a m ps) = map fst ps" "map fst (broadcast_all m ps) = map fst ps"
  "map fst (reply a m ps) = map fst ps"
  by (simp_all add: broadcast_except_def broadcast_all_def reply_def comp_def case_prod_beta)

lemma broadcast_except_of:
  "map_of (broadcast_except src m ps) a =
     map_option (\<lambda>q. if a \<noteq> src then try_send q m else q) (map_of ps a)"
  by (induction ps) (auto simp: broadcast_except_def)

lemma reply_of:
  "map_of (reply src m ps) a = map_option (\<lambda>q. if a = src then try_send q m else q) (map_of ps a)"
  by (induction ps) (auto simp: reply_def)

lemma try_send_bound: "length q \<le> OUTBOUND_QUEUE \<Longrightarrow> length (try_send q m) \<le> OUTBOUND_QUEUE"
  by (simp add: try_send_def)

section \<open>Dates\<close>

text \<open>Leap years up to a year, and the day number of a date of the proleptic Gregorian calendar.\<close>

definition leaps :: "nat \<Rightarrow> nat" where
  "leaps y = y div 4 - y div 100 + y div 400"

definition day_number :: "nat \<Rightarrow> nat \<Rightarrow> nat \<Rightarrow> nat" where
  "day_number y m d = 365 * (y - 1970) + (leaps (y - 1) - leaps 1969) + sum_list (take (m - 1) (month_days y)) + (d - 1)"

lemma leaps_step: "leaps (Suc x) = leaps x + leap_day (Suc x)"
proof -
  define a b c where "a = Suc x div 4" and "b = Suc x div 100" and "c = Suc x div 400"
  have x: "x div 4 = (if Suc x mod 4 = 0 then a - 1 else a)" "x div 100 = (if Suc x mod 100 = 0 then b - 1 else b)"
    "x div 400 = (if Suc x mod 400 = 0 then c - 1 else c)"
    by (simp_all add: a_def b_def c_def div_Suc)
  have m: "Suc x mod 400 = 0 \<Longrightarrow> Suc x mod 100 = 0" "Suc x mod 100 = 0 \<Longrightarrow> Suc x mod 4 = 0"
    using dvd_trans [of 100 400 "Suc x"] dvd_trans [of 4 100 "Suc x"] by (simp_all add: mod_eq_0_iff_dvd)
  have pos: "Suc x mod 4 = 0 \<Longrightarrow> 0 < a" "Suc x mod 100 = 0 \<Longrightarrow> 0 < b" "Suc x mod 400 = 0 \<Longrightarrow> 0 < c"
    unfolding a_def b_def c_def div_greater_zero_iff mod_eq_0_iff_dvd by (auto dest: dvd_imp_le)
  have ba: "b \<le> a" "x div 100 \<le> x div 4" by (simp_all add: a_def b_def div_le_mono2)
  have l: "leaps (Suc x) = a - b + c" "leaps x = x div 4 - x div 100 + x div 400"
    by (simp_all add: leaps_def a_def b_def c_def)
  show ?thesis
  proof (cases "Suc x mod 100 = 0")
    case True
    then have m4: "Suc x mod 4 = 0" by (rule m(2))
    obtain a' b' where ab: "a = Suc a'" "b = Suc b'"
      using pos(1) [OF m4] pos(2) [OF True] by (cases a; cases b) simp_all
    then have xd: "x div 4 = a'" "x div 100 = b'" using x(1,2) True m4 by simp_all
    show ?thesis
    proof (cases "Suc x mod 400 = 0")
      case True
      then obtain c' where "c = Suc c'" using pos(3) by (cases c) simp_all
      then show ?thesis using x(3) True unfolding l xd ab leap_day_def by simp
    next
      case False
      then show ?thesis using x(3) True unfolding l xd ab leap_day_def by simp
    qed
  next
    case False
    then have "Suc x mod 400 \<noteq> 0" by (rule contrapos_nn) (rule m(1))
    then have x': "x div 100 = b" "x div 400 = c" using x(2,3) False by simp_all
    show ?thesis
    proof (cases "Suc x mod 4 = 0")
      case True
      then obtain a' where "a = Suc a'" using pos(1) by (cases a) simp_all
      then show ?thesis
        using x(1) ba(2) True False \<open>Suc x mod 400 \<noteq> 0\<close> unfolding l x' leap_day_def by (simp add: Suc_diff_le)
    qed (use x(1) False \<open>Suc x mod 400 \<noteq> 0\<close> in \<open>simp add: l x' leap_day_def\<close>)
  qed
qed

definition days_before :: "nat \<Rightarrow> nat" where
  "days_before y = 365 * (y - 1970) + (leaps (y - 1) - leaps 1969)"

lemma days_before_step: "1970 \<le> y \<Longrightarrow> days_before (y + 1) = days_before y + (365 + leap_day y)"
proof (induction y rule: dec_induct)
  case base
  have "leaps 1970 = leaps 1969 + leap_day 1970" using leaps_step [of 1969] by simp
  then show ?case by (simp add: days_before_def)
next
  case (step y)
  have "leaps 1969 \<le> leaps y" using step.hyps(1)
  proof (induction y rule: dec_induct)
    case (step z)
    then show ?case using leaps_step [of z] by linarith
  qed (simp add: leaps_def)
  then show ?case using step.hyps leaps_step [of y] by (simp add: days_before_def Suc_diff_le)
qed

lemma year_loop_correct:
  "1970 \<le> y0 \<Longrightarrow> year_loop y0 days = (y, r) \<Longrightarrow>
   y0 \<le> y \<and> r < 365 + leap_day y \<and> days_before y0 + days = days_before y + r"
proof (induction y0 days rule: year_loop.induct)
  case (1 y0 days)
  show ?case
  proof (cases "days < 365 + leap_day y0")
    case True
    then show ?thesis using "1.prems" by (subst (asm) year_loop.simps) simp
  next
    case False
    then have "year_loop (y0 + 1) (days - (365 + leap_day y0)) = (y, r)"
      using "1.prems"(2) by (subst (asm) year_loop.simps) simp
    then have "y0 + 1 \<le> y \<and> r < 365 + leap_day y \<and>
        days_before (y0 + 1) + (days - (365 + leap_day y0)) = days_before y + r"
      using "1.IH" [OF refl False] "1.prems"(1) by simp
    then show ?thesis using days_before_step [OF "1.prems"(1)] False by linarith
  qed
qed

lemma month_loop_correct:
  "month_loop mds m0 days = (m, r) \<Longrightarrow> days < sum_list mds \<Longrightarrow>
   m0 \<le> m \<and> m - m0 < length mds \<and> r < mds ! (m - m0) \<and> days = sum_list (take (m - m0) mds) + r"
proof (induction mds arbitrary: m0 days)
  case (Cons md mds)
  show ?case
  proof (cases "days < md")
    case False
    then have "m0 + 1 \<le> m \<and> m - (m0 + 1) < length mds \<and> r < mds ! (m - (m0 + 1)) \<and>
        days - md = sum_list (take (m - (m0 + 1)) mds) + r"
      using Cons.IH [of "m0 + 1" "days - md"] Cons.prems by simp
    moreover obtain k where "m = m0 + 1 + k" using calculation le_iff_add by blast
    ultimately show ?thesis using False by (simp add: le_imp_diff_is_add)
  qed (use Cons.prems in simp)
qed simp

section \<open>Properties\<close>


text \<open>
  A configuration is accepted exactly if its addresses parse, the own address is well
  formed and the signing key is 32 hex-encoded bytes whose public key derives that address: a node
  never starts with a key that does not match its address.
\<close>

lemma config_accepted_iff:
  "from_raw E N raw = Inr c \<longleftrightarrow>
     parse_addr N (raw_listen_addr raw) = Inr (listen_addr c) \<and>
     parse_addr N (raw_http_addr raw) = Inr (http_addr c) \<and>
     map (parse_addr N) (raw_bootstrap_peers raw) = map Inr (bootstrap_peers c) \<and>
     validate_address (raw_my_address raw) = Inr (my_address c) \<and>
     hex_decode E (raw_my_signing_key raw) = Inr (my_signing_key c) \<and> length (my_signing_key c) = 32 \<and>
     my_address c = from_pubkey_bytes E (ed_public E (my_signing_key c)) \<and>
     slot_duration_secs c = raw_slot_duration_secs raw \<and> sled_path c = raw_sled_path raw \<and>
     mempool_max_size c = raw_mempool_max_size raw \<and> genesis_path c = raw_genesis_path raw"
proof -
  have peers: "parse_peers N ss = Inr as \<longleftrightarrow> map (parse_addr N) ss = map Inr as" for ss as
  proof (induction ss arbitrary: as)
    case (Cons t ss)
    have "(\<exists>e. parse_peers N ss = Inl e) \<Longrightarrow> map (parse_addr N) ss \<noteq> map Inr bs" for bs
      using Cons.IH by (metis Inl_Inr_False)
    then show ?case using Cons.IH by (cases as) (auto split: sum.splits)
  qed auto
  show ?thesis unfolding peers [symmetric]
    by (cases c) (simp add: from_raw_def Let_def split: sum.split, blast)
qed

end
