(* ===== verification/Bcc_P2p.thy ===== *)
theory Bcc_P2p
  imports Bcc_Node_State
begin

text \<open>
  \<open>p2p/handler.rs\<close>: the handling of one inbound message (\<open>dispatch\<close>) with block adoption, fork choice
  and gossip, and the life of a peer connection (\<open>run_peer\<close>).  A handler runs to completion on the
  shared state.  The lemmas in \<open>chain_store\<close> hold over any store that keeps the contract of the
  traits.
\<close>

section \<open>\<open>dispatch\<close>\<close>

definition MAX_BATCH :: nat where
  "MAX_BATCH = 256"

text \<open>What follows a change of tip: included transactions leave the pool, the block is gossiped on.\<close>

definition after_adoption :: "'s node_env \<Rightarrow> socket_addr \<Rightarrow> block \<Rightarrow> 's node_state \<Rightarrow> 's node_state" where
  "after_adoption Env src b st =
     st\<lparr>ns_mempool := mempool_remove (ne_ext Env) (map (transaction_hash (ne_ext Env)) (txs b)) (ns_mempool st),
        ns_peers := broadcast_except src (NewBlock b) (ns_peers st)\<rparr>"

text \<open>The block extends the tip.\<close>

definition extend_tip ::
  "'s node_env \<Rightarrow> socket_addr \<Rightarrow> block \<Rightarrow> u64 \<Rightarrow> 's node_state \<Rightarrow> 's node_state \<times> (string + unit)" where
  "extend_tip Env src b tip_height st =
     (let E = ne_ext Env; hash = hex_encode E (hash_of_block E b); s = ns_store st;
          from = show_addr (ne_net Env) src in
      case bs_get_by_height (ne_blocks Env) s tip_height of
        Inl e \<Rightarrow> (st, Inl (show_store_error e))
      | Inr None \<Rightarrow> (st, Inl (''parent block at height '' @ show_nat (unat tip_height) @ '' not found''))
      | Inr (Some parent) \<Rightarrow>
        (case validate_block E (ne_utxo Env) (ne_validators Env) s b parent (slot_duration_secs (ns_config st)) of
           Inl e \<Rightarrow> (emit (BlockRejected from (height (header b)) hash (show_block_error e)) st, Inr ())
         | Inr _ \<Rightarrow>
           (case bs_insert (ne_blocks Env) s b of
              (s1, Inl e) \<Rightarrow> (st\<lparr>ns_store := s1\<rparr>, Inl (show_store_error e))
            | (s1, Inr _) \<Rightarrow>
              (case us_apply_block (ne_utxo Env) s1 b of
                 (s2, Inl e) \<Rightarrow> (st\<lparr>ns_store := s2\<rparr>, Inl (show_store_error e))
               | (s2, Inr _) \<Rightarrow>
                 (emit (BlockFromPeer from (height (header b)) hash (length (txs b)) (as_str (proposer (header b))))
                    (after_adoption Env src b (st\<lparr>ns_store := s2\<rparr>)), Inr ())))))"

text \<open>The block competes with the tip: the lower hash wins.\<close>

definition fork_choice ::
  "'s node_env \<Rightarrow> socket_addr \<Rightarrow> block \<Rightarrow> u64 \<Rightarrow> block_hash \<Rightarrow> 's node_state \<Rightarrow>
   's node_state \<times> (string + unit)" where
  "fork_choice Env src b tip_height tip_hash st =
     (let E = ne_ext Env; incoming = hash_of_block E b; s = ns_store st in
      if incoming = tip_hash then (st, Inr ())
      else if tip_hash \<le> incoming then (st, Inr ())
      else case bs_get_by_height (ne_blocks Env) s (saturating_sub tip_height 1) of
        Inl e \<Rightarrow> (st, Inl (show_store_error e))
      | Inr None \<Rightarrow> (st, Inr ())
      | Inr (Some parent) \<Rightarrow>
        if prev_hash (header b) \<noteq> hash_of_block E parent then (st, Inr ())
        else (case validate_block E (ne_utxo Env) (ne_validators Env) s b parent (slot_duration_secs (ns_config st)) of
           Inl e \<Rightarrow> (st, Inr ())
         | Inr _ \<Rightarrow>
           (case bs_get_by_height (ne_blocks Env) s tip_height of
              Inl e \<Rightarrow> (st, Inl (show_store_error e))
            | Inr None \<Rightarrow> (st, Inl ''current tip block missing'')
            | Inr (Some current_tip) \<Rightarrow>
              (case reorg_block Env current_tip b s of
                 (s', Inl e) \<Rightarrow> (st\<lparr>ns_store := s'\<rparr>, Inl (show_store_error e))
               | (s', Inr _) \<Rightarrow>
                 (emit (BlockReorged (height (header b)) (hex_encode E incoming)
                      (hex_encode E (hash_of_block E current_tip)))
                    (after_adoption Env src b (st\<lparr>ns_store := s'\<rparr>)), Inr ())))))"

definition handle_new_block ::
  "'s node_env \<Rightarrow> socket_addr \<Rightarrow> block \<Rightarrow> 's node_state \<Rightarrow> 's node_state \<times> (string + unit)" where
  "handle_new_block Env src b st =
     (let E = ne_ext Env; s = ns_store st in
      case bs_get_by_hash (ne_blocks Env) s (hash_of_block E b) of
        Inl e \<Rightarrow> (st, Inl (show_store_error e))
      | Inr (Some _) \<Rightarrow> (st, Inr ())
      | Inr None \<Rightarrow>
        (case bs_tip (ne_blocks Env) s of
           Inl e \<Rightarrow> (st, Inl (show_store_error e))
         | Inr t \<Rightarrow>
           (let (tip_height, tip_hash) = (case t of Some x \<Rightarrow> x | None \<Rightarrow> (0, replicate 32 0)) in
            if height (header b) = tip_height + 1 then extend_tip Env src b tip_height st
            else if height (header b) = tip_height then fork_choice Env src b tip_height tip_hash st
            else if tip_height + 1 < height (header b)
            then (st\<lparr>ns_peers := reply src (GetBlocks (tip_height + 1)) (ns_peers st)\<rparr>, Inr ())
            else (st, Inr ()))))"

definition handle_new_tx :: "'s node_env \<Rightarrow> socket_addr \<Rightarrow> transaction \<Rightarrow> 's node_state \<Rightarrow> 's node_state" where
  "handle_new_tx Env src tx st =
     (let E = ne_ext Env; h = hex_encode E (transaction_hash E tx); from = show_addr (ne_net Env) src;
          (p, r) = mempool_add E (ne_utxo Env) (ns_store st) tx (ns_mempool st); st1 = st\<lparr>ns_mempool := p\<rparr> in
      case r of
        Inr added \<Rightarrow>
          if ap_newly_added added then
            (let st2 = (case ap_evicted added of None \<Rightarrow> st1 | Some ev \<Rightarrow> emit (TxEvicted ev (ap_tx_hash added)) st1);
                 st3 = emit (TxAccepted (ap_tx_hash added) (ap_value added) (ap_pool_size added)) st2;
                 st4 = emit (TxGossipAccepted from h) st3
             in st4\<lparr>ns_peers := broadcast_except src (NewTx tx) (ns_peers st4)\<rparr>)
          else st1
      | Inl e \<Rightarrow> emit (TxGossipRejected from h (show_node_error e)) (emit (TxRejected h (show_node_error e)) st1))"

definition dispatch ::
  "'s node_env \<Rightarrow> byte list \<Rightarrow> socket_addr \<Rightarrow> 's node_state \<Rightarrow> 's node_state \<times> (string + unit)" where
  "dispatch Env bytes src st =
     (case unjson_message (ne_net Env) bytes of
        Inl e \<Rightarrow> (st, Inl e)
      | Inr msg \<Rightarrow>
        (case msg of
           NewBlock b \<Rightarrow> handle_new_block Env src b st
         | NewTx tx \<Rightarrow> (handle_new_tx Env src tx st, Inr ())
         | GetBlocks h \<Rightarrow>
           (case bs_iter_from (ne_blocks Env) (ns_store st) h of
              Inl e \<Rightarrow> (st, Inl (show_store_error e))
            | Inr bs \<Rightarrow> (st\<lparr>ns_peers := reply src (Blocks (take MAX_BATCH bs)) (ns_peers st)\<rparr>, Inr ()))
         | GetPeers \<Rightarrow>
           (st\<lparr>ns_peers := reply src (Peers (peers_addrs (ne_net Env) (ns_peers st))) (ns_peers st)\<rparr>, Inr ())
         | Ping n \<Rightarrow> (st\<lparr>ns_peers := reply src (Pong n) (ns_peers st)\<rparr>, Inr ())
         | _ \<Rightarrow> (st, Inr ())))"

section \<open>\<open>run_peer\<close>\<close>

text \<open>\<open>encode_send\<close>: the frame written, or an error of the encoder or of the socket (\<open>sent\<close> is false).\<close>

definition encode_send :: "net \<Rightarrow> bool \<Rightarrow> message \<Rightarrow> unit + byte list" where
  "encode_send N sent msg =
     (case json_message N msg of Inr bytes \<Rightarrow> if sent then Inr bytes else Inl () | Inl _ \<Rightarrow> Inl ())"

text \<open>Registration: the connection is refused when a peer with the same IP address is registered.\<close>

definition peer_register :: "'s node_env \<Rightarrow> socket_addr \<Rightarrow> 's node_state \<Rightarrow> 's node_state option" where
  "peer_register Env a st =
     (if has_ip (sock_ip a) (ns_peers st) then None
      else let ps = peers_insert a (ns_peers st)
        in Some (emit (PeerConnected (show_addr (ne_net Env) a) (peers_len ps)) (st\<lparr>ns_peers := ps\<rparr>)))"

definition peer_deregister :: "'s node_env \<Rightarrow> socket_addr \<Rightarrow> 's node_state \<Rightarrow> 's node_state" where
  "peer_deregister Env a st =
     (let ps = peers_remove a (ns_peers st)
      in emit (PeerDisconnected (show_addr (ne_net Env) a) (peers_len ps)) (st\<lparr>ns_peers := ps\<rparr>))"

text \<open>The greeting: the current tip block, if both reads succeed.\<close>

definition greeting :: "'s node_env \<Rightarrow> 's \<Rightarrow> message option" where
  "greeting Env s =
     (case bs_tip (ne_blocks Env) s of
        Inr (Some (tip_height, _)) \<Rightarrow>
          (case bs_get_by_height (ne_blocks Env) s tip_height of
             Inr (Some tip_block) \<Rightarrow> Some (NewBlock tip_block) | _ \<Rightarrow> None)
      | _ \<Rightarrow> None)"

text \<open>What \<open>select!\<close> can receive; the flag of a write says whether the socket took it.\<close>

datatype peer_input =
    Cancelled
  | BlockSub block bool
  | SubLagged nat
  | SubClosed
  | Outbound bool
  | StreamEnd
  | FrameError string
  | Frame "byte list"

text \<open>One turn of the loop: the state, the frames written and whether the loop goes on.\<close>

fun peer_turn ::
  "'s node_env \<Rightarrow> socket_addr \<Rightarrow> peer_input \<Rightarrow> 's node_state \<Rightarrow> 's node_state \<times> byte list list \<times> bool" where
  "peer_turn Env a Cancelled st = (st, [], False)"
| "peer_turn Env a (BlockSub b sent) st =
     (case encode_send (ne_net Env) sent (NewBlock b) of Inr f \<Rightarrow> (st, [f], True) | Inl _ \<Rightarrow> (st, [], False))"
| "peer_turn Env a (SubLagged n) st = (st, [], True)"
| "peer_turn Env a SubClosed st = (st, [], False)"
| "peer_turn Env a (Outbound sent) st =
     (case map_of (ns_peers st) a of
        Some (m # q) \<Rightarrow>
          (let st' = st\<lparr>ns_peers := AList.update a q (ns_peers st)\<rparr>
           in case encode_send (ne_net Env) sent m of Inr f \<Rightarrow> (st', [f], True) | Inl _ \<Rightarrow> (st', [], False))
      | _ \<Rightarrow> (st, [], True))"
| "peer_turn Env a StreamEnd st = (st, [], False)"
| "peer_turn Env a (FrameError e) st = (st, [], False)"
| "peer_turn Env a (Frame bytes) st = (fst (dispatch Env bytes a st), [], True)"

fun peer_loop ::
  "'s node_env \<Rightarrow> socket_addr \<Rightarrow> peer_input list \<Rightarrow> 's node_state \<Rightarrow> 's node_state \<times> byte list list" where
  "peer_loop Env a [] st = (st, [])"
| "peer_loop Env a (i # is) st =
     (case peer_turn Env a i st of
        (st', fs, True) \<Rightarrow> (let (st'', fs') = peer_loop Env a is st' in (st'', fs @ fs'))
      | (st', fs, False) \<Rightarrow> (st', fs))"

definition run_peer ::
  "'s node_env \<Rightarrow> socket_addr \<Rightarrow> bool \<Rightarrow> peer_input list \<Rightarrow> 's node_state \<Rightarrow> 's node_state \<times> byte list list" where
  "run_peer Env a greeted inputs st =
     (case peer_register Env a st of
        None \<Rightarrow> (st, [])
      | Some st1 \<Rightarrow>
        (case greeting Env (ns_store st1) of
           None \<Rightarrow> (let (st2, fs) = peer_loop Env a inputs st1 in (peer_deregister Env a st2, fs))
         | Some m \<Rightarrow>
           (case encode_send (ne_net Env) greeted m of
              Inl _ \<Rightarrow> (peer_deregister Env a st1, [])
            | Inr f \<Rightarrow> (let (st2, fs) = peer_loop Env a inputs st1 in (peer_deregister Env a st2, f # fs)))))"

section \<open>A node over a store\<close>

text \<open>The trait objects of a node are one store that keeps the contract.\<close>

locale node_backend = chain_store E B babs U uabs V vabs inv
  for E :: ext and B :: "'s block_store" and babs and U :: "'s utxo_store" and uabs
    and V :: "'s validator_store" and vabs and inv +
  fixes Env :: "'s node_env"
  assumes env_fields: "ne_ext Env = E" "ne_blocks Env = B" "ne_utxo Env = U" "ne_validators Env = V"

definition sled_node_env :: "'t sled_env \<Rightarrow> ext \<Rightarrow> net \<Rightarrow> 't sled_store node_env" where
  "sled_node_env T E N = \<lparr>ne_ext = E, ne_net = N, ne_blocks = sled_block_store T E,
     ne_utxo = sled_utxo_store T E, ne_validators = sled_validator_store T E\<rparr>"

definition mem_node_env :: "ext \<Rightarrow> net \<Rightarrow> memory_store node_env" where
  "mem_node_env E N = \<lparr>ne_ext = E, ne_net = N, ne_blocks = mem_block_store E,
     ne_utxo = mem_utxo_store E, ne_validators = mem_validator_store E\<rparr>"

interpretation mem_node: node_backend E "mem_block_store E" mem_babs "mem_utxo_store E" mem_uabs
  "mem_validator_store E" mem_vabs "mem_inv E" "mem_node_env E N" for E N
  by unfold_locales (simp_all add: mem_node_env_def)

sublocale sled_backend \<subseteq> sled_node: node_backend E "sled_block_store T E" "sled_babs T E" "sled_utxo_store T E"
  "sled_uabs T E" "sled_validator_store T E" "sled_vabs T E" "sled_inv T E" "sled_node_env T E N" for N
  by unfold_locales (simp_all add: sled_node_env_def)

context sled_backend
begin

lemma is_node_backend:
  "node_backend E (sled_block_store T E) (sled_babs T E) (sled_utxo_store T E) (sled_uabs T E)
     (sled_validator_store T E) (sled_vabs T E) (sled_inv T E) (sled_node_env T E N)"
  by unfold_locales

end

text \<open>When a competing block replaces the tip.\<close>

definition fork_adopts :: "'s node_env \<Rightarrow> ('s \<Rightarrow> u64 \<rightharpoonup> block) \<Rightarrow> block \<Rightarrow> u64 \<Rightarrow> 's \<Rightarrow> u64 \<Rightarrow> bool" where
  "fork_adopts Env babs b n s dur \<longleftrightarrow> n \<noteq> 0 \<and> (\<exists>t p. babs s n = Some t \<and>
     hash_of_block (ne_ext Env) b < hash_of_block (ne_ext Env) t \<and> babs s (n - 1) = Some p \<and>
     validate_block (ne_ext Env) (ne_utxo Env) (ne_validators Env) s b p dur = Inr ())"

text \<open>
  What holds of a running node: a chain up to height \<open>n\<close>, a consistent pool, at most one connection
  per IP address and no queue longer than its channel.
\<close>

definition peers_ok :: "peer_set \<Rightarrow> bool" where
  "peers_ok ps \<longleftrightarrow> distinct (map (sock_ip \<circ> fst) ps) \<and> (\<forall>q \<in> snd ` set ps. length q \<le> OUTBOUND_QUEUE)"

definition node_ok ::
  "ext \<Rightarrow> 's block_store \<Rightarrow> ('s \<Rightarrow> u64 \<rightharpoonup> block) \<Rightarrow> ('s \<Rightarrow> bool) \<Rightarrow> u64 \<Rightarrow> 's node_state \<Rightarrow> bool" where
  "node_ok E B babs ok n st \<longleftrightarrow> ok (ns_store st) \<and> chain_ok E B babs n (ns_store st) \<and>
     pool_inv E (ns_mempool st) \<and> peers_ok (ns_peers st)"

lemma peers_ok_same_keys:
  assumes "peers_ok ps" and "map fst ps' = map fst ps" and "\<forall>q \<in> snd ` set ps'. length q \<le> OUTBOUND_QUEUE"
  shows "peers_ok ps'"
  using assms by (metis list.map_comp peers_ok_def)

lemma peers_ok_broadcast [simp]:
  assumes "peers_ok ps"
  shows "peers_ok (broadcast_except a m ps)" and "peers_ok (broadcast_all m ps)" and "peers_ok (reply a m ps)"
  using assms try_send_bound
  by (auto simp: peers_ok_def broadcast_except_def broadcast_all_def reply_def comp_def case_prod_beta)

lemma peers_ok_register [bcc_inv]:
  assumes "peers_ok ps" and "\<not> has_ip (sock_ip a) ps"
  shows "peers_ok (peers_insert a ps)"
proof -
  have new: "sock_ip a \<notin> (sock_ip \<circ> fst) ` set ps"
    using assms(2) by (force simp: has_ip_def list_ex_iff)
  then have "map_of ps a = None" by (force simp: map_of_eq_None_iff)
  then show ?thesis using assms(1) new
    by (auto simp: peers_ok_def peers_insert_def alist_update_new)
qed

lemma peers_ok_deregister [bcc_inv]: "peers_ok ps \<Longrightarrow> peers_ok (peers_remove a ps)"
  unfolding peers_ok_def peers_remove_def AList.delete_eq
  by (auto simp: distinct_map_filter)

lemma saturating_pred: "n \<noteq> 0 \<Longrightarrow> saturating_sub n 1 = n - 1"
  by (simp add: saturating_sub_def word_le_nat_alt Suc_le_eq unat_gt_0)

lemma saturating_sub_le: "saturating_sub a b \<le> a"
  by (auto simp: saturating_sub_def word_le_nat_alt unat_sub)

context node_backend
begin

lemmas env_simps [simp] = env_fields

lemma accepted_extends:
  "validate_block E U V s b p dur = Inr () \<Longrightarrow> block_extends E p b"
  by (simp add: validate_block_accepts block_extends_def)

lemma extend_tip_rejects:
  assumes "inv (ns_store st)" and "babs (ns_store st) n = Some p"
    and "validate_block E U V (ns_store st) b p (slot_duration_secs (ns_config st)) = Inl e"
  shows "extend_tip Env src b n st = (emit (BlockRejected (show_addr (ne_net Env) src) (height (header b))
    (hex_encode E (hash_of_block E b)) (show_block_error e)) st, Inr ())"
  using assms by (simp add: extend_tip_def get_by_height Let_def)

lemma extend_tip_accepts:
  assumes "inv (ns_store st)" and "chain_ok E B babs n (ns_store st)" and "babs (ns_store st) n = Some p"
    and "validate_block E U V (ns_store st) b p (slot_duration_secs (ns_config st)) = Inr ()" and "n \<noteq> - 1"
  shows "\<exists>s'. extend_tip Env src b n st = (emit (BlockFromPeer (show_addr (ne_net Env) src) (height (header b))
      (hex_encode E (hash_of_block E b)) (length (txs b)) (as_str (proposer (header b))))
      (after_adoption Env src b (st\<lparr>ns_store := s'\<rparr>)), Inr ()) \<and>
    inv s' \<and> chain_ok E B babs (n + 1) s' \<and> babs s' = (babs (ns_store st))(n + 1 \<mapsto> b) \<and>
    uabs s' = utxo_apply E b (uabs (ns_store st)) \<and> vabs s' = vabs (ns_store st) \<and>
    (\<exists>s1. bs_insert B (ns_store st) b = (s1, Inr ()) \<and> us_apply_block U s1 b = (s', Inr ()))"
  using insert_apply_chain [OF assms(1-3) accepted_extends [OF assms(4)] assms(5)] assms(1,3,4)
  by (auto simp: extend_tip_def get_by_height Let_def)

lemma fork_choice_keeps:
  assumes "inv (ns_store st)" and "babs (ns_store st) n = Some t" and "height (header b) = n"
    and "babs (ns_store st) (saturating_sub n 1) = Some p"
    and "\<not> fork_adopts Env babs b n (ns_store st) (slot_duration_secs (ns_config st))"
  shows "fork_choice Env src b n (hash_of_block E t) st = (st, Inr ())"
proof (cases "n = 0")
  case True
  have "validate_block E U V (ns_store st) b p d \<noteq> Inr ()" for d
    using assms(1,3,4) babs_height True
    by (fastforce simp: validate_block_accepts saturating_sub_def)
  then show ?thesis
    using assms(1,4) by (auto simp: fork_choice_def get_by_height Let_def split: sum.splits)
next
  case False
  then show ?thesis using assms saturating_pred [of n]
    by (auto simp: fork_choice_def get_by_height Let_def fork_adopts_def split: sum.splits)
qed

lemma fork_choice_adopts:
  assumes "inv (ns_store st)" and "chain_ok E B babs n (ns_store st)" and "babs (ns_store st) n = Some t"
    and "fork_adopts Env babs b n (ns_store st) (slot_duration_secs (ns_config st))"
  shows "\<exists>s'. fork_choice Env src b n (hash_of_block E t) st = (emit (BlockReorged (height (header b))
      (hex_encode E (hash_of_block E b)) (hex_encode E (hash_of_block E t)))
      (after_adoption Env src b (st\<lparr>ns_store := s'\<rparr>)), Inr ()) \<and>
    inv s' \<and> chain_ok E B babs n s' \<and> babs s' = (babs (ns_store st))(n \<mapsto> b) \<and>
    vabs s' = vabs (ns_store st) \<and> reorg_block Env t b (ns_store st) = (s', Inr ())"
proof -
  define m where "m = n - 1"
  have n: "n = m + 1" "n \<noteq> 0" using assms(4) by (simp_all add: m_def fork_adopts_def)
  then have m: "m \<noteq> - 1" by auto
  from assms(4) obtain p where p: "babs (ns_store st) m = Some p"
      "validate_block E U V (ns_store st) b p (slot_duration_secs (ns_config st)) = Inr ()"
    and lt: "hash_of_block E b < hash_of_block E t"
    using assms(3) by (auto simp: fork_adopts_def m_def)
  have ext: "block_extends E p b" by (rule accepted_extends [OF p(2)])
  obtain s' where s': "reorg_block Env t b (ns_store st) = (s', Inr ())" "inv s'"
    "chain_ok E B babs n s'" "babs s' = (babs (ns_store st))(n \<mapsto> b)" "vabs s' = vabs (ns_store st)"
    using reorg_chain [OF assms(1) _ p(1) ext m, of t Env] assms(2,3) n by auto
  have "prev_hash (header b) = hash_of_block E p" using ext by (simp add: block_extends_def)
  then show ?thesis
    using s' p assms(1,3) lt saturating_pred [OF n(2)]
    by (auto simp: fork_choice_def get_by_height Let_def m_def)
qed

lemma chain_ok_tip:
  assumes "chain_ok E B babs n s"
  obtains t where "babs s n = Some t" "bs_tip B s = Inr (Some (n, hash_of_block E t))"
  using assms by (auto simp: chain_ok_def)

lemma chain_ok_below: "chain_ok E B babs n s \<Longrightarrow> h \<le> n \<Longrightarrow> \<exists>p. babs s h = Some p"
  by (auto simp: chain_ok_def chain_to_def)

lemma after_adoption_simps [simp]:
  "ns_store (after_adoption Env src b st) = ns_store st"
  "ns_config (after_adoption Env src b st) = ns_config st"
  "ns_new_block (after_adoption Env src b st) = ns_new_block st"
  "ns_events (after_adoption Env src b st) = ns_events st"
  "ns_peers (after_adoption Env src b st) = broadcast_except src (NewBlock b) (ns_peers st)"
  "ns_mempool (after_adoption Env src b st) =
     mempool_remove E (map (transaction_hash E) (txs b)) (ns_mempool st)"
  by (simp_all add: after_adoption_def)

text \<open>The parts of the state a block announcement leaves alone unless the block is adopted.\<close>

lemma new_block_outcome:
  assumes inv: "inv (ns_store st)" and ok: "chain_ok E B babs n (ns_store st)" and n: "n \<noteq> - 1"
    and h: "handle_new_block Env src b st = (st', r)"
  shows "r = Inr () \<and> ns_config st' = ns_config st \<and> ns_new_block st' = ns_new_block st \<and>
    (ns_store st' = ns_store st \<and> ns_mempool st' = ns_mempool st \<and>
       (ns_peers st' = ns_peers st \<or> ns_peers st' = reply src (GetBlocks (n + 1)) (ns_peers st)) \<or>
     (\<exists>m p. (m = n + 1 \<or> m = n \<and> n \<noteq> 0) \<and> babs (ns_store st) (m - 1) = Some p \<and>
       validate_block E U V (ns_store st) b p (slot_duration_secs (ns_config st)) = Inr () \<and>
       inv (ns_store st') \<and> chain_ok E B babs m (ns_store st') \<and>
       babs (ns_store st') = (babs (ns_store st))(m \<mapsto> b) \<and> vabs (ns_store st') = vabs (ns_store st) \<and>
       ns_mempool st' = mempool_remove E (map (transaction_hash E) (txs b)) (ns_mempool st) \<and>
       ns_peers st' = broadcast_except src (NewBlock b) (ns_peers st)))" (is "_ \<and> _ \<and> _ \<and> (?K \<or> ?A)")
proof -
  let ?s = "ns_store st" and ?d = "slot_duration_secs (ns_config st)"
  obtain t where t: "babs ?s n = Some t" "bs_tip B ?s = Inr (Some (n, hash_of_block E t))"
    by (rule chain_ok_tip [OF ok])
  obtain p0 where p0: "babs ?s (saturating_sub n 1) = Some p0"
    using chain_ok_below [OF ok saturating_sub_le] by blast
  obtain x where x: "bs_get_by_hash B ?s (hash_of_block E b) = Inr x" using reads_ok [OF inv] by blast
  consider "x \<noteq> None" | "x = None" "height (header b) = n + 1" | "x = None" "height (header b) = n"
    | "x = None" "height (header b) \<noteq> n + 1" "height (header b) \<noteq> n" by blast
  then show ?thesis
  proof cases
    case 1
    then show ?thesis using h x by (auto simp: handle_new_block_def Let_def)
  next
    case 2
    then have e: "extend_tip Env src b n st = (st', r)"
      using h x t(2) by (simp add: handle_new_block_def Let_def)
    show ?thesis
    proof (cases "validate_block E U V ?s b t ?d")
      case (Inl err)
      then show ?thesis using e extend_tip_rejects [OF inv t(1) Inl, of src] by auto
    next
      case (Inr u)
      then show ?thesis
        using e extend_tip_accepts [OF inv ok t(1) _ n, of b src] t(1) by auto
    qed
  next
    case 3
    moreover have "n + 1 \<noteq> n" by simp
    ultimately have e: "fork_choice Env src b n (hash_of_block E t) st = (st', r)"
      using h x t(2) by (simp add: handle_new_block_def Let_def)
    show ?thesis
    proof (cases "fork_adopts Env babs b n ?s ?d")
      case True
      then show ?thesis
        using e fork_choice_adopts [OF inv ok t(1) True, of src] by (auto simp: fork_adopts_def)
    next
      case False
      then show ?thesis using e fork_choice_keeps [OF inv t(1) 3(2) p0 False, of src] by simp
    qed
  next
    case 4
    then show ?thesis using h x t(2) by (auto simp: handle_new_block_def Let_def split: if_splits)
  qed
qed

lemma new_tx_state:
  "ns_store (handle_new_tx Env src tx st) = ns_store st"
  "ns_mempool (handle_new_tx Env src tx st) = fst (mempool_add E U (ns_store st) tx (ns_mempool st))"
  "ns_config (handle_new_tx Env src tx st) = ns_config st"
  "ns_peers (handle_new_tx Env src tx st) =
     (case snd (mempool_add E U (ns_store st) tx (ns_mempool st)) of
        Inr added \<Rightarrow> if ap_newly_added added then broadcast_except src (NewTx tx) (ns_peers st) else ns_peers st
      | Inl e \<Rightarrow> ns_peers st)"
  by (auto simp: handle_new_tx_def Let_def case_prod_beta split: sum.split option.split)

lemma dispatch_ok:
  assumes E: "swap_remove_deletes E" "orders_permute E" and ok: "node_ok E B babs inv n st" and n: "n \<noteq> - 1"
    and d: "dispatch Env bytes src st = (st', r)"
  shows "\<exists>m. (m = n \<or> m = n + 1) \<and> node_ok E B babs inv m st'"
proof (cases "unjson_message (ne_net Env) bytes")
  case (Inr msg)
  have pool: "pool_inv E (ns_mempool st)" and peers: "peers_ok (ns_peers st)" and inv: "inv (ns_store st)"
    and chain: "chain_ok E B babs n (ns_store st)" using ok by (simp_all add: node_ok_def)
  have add: "pool_inv E (fst (mempool_add E U s tx (ns_mempool st)))" for s tx
    using mempool_add_inv [OF E pool] by (metis prod.collapse)
  show ?thesis
  proof (cases msg)
    case (NewBlock b)
    then have "handle_new_block Env src b st = (st', r)" using d Inr by (simp add: dispatch_def)
    note out = new_block_outcome [OF inv chain n this]
    show ?thesis
    proof (cases "ns_store st' = ns_store st \<and> ns_mempool st' = ns_mempool st \<and> peers_ok (ns_peers st')")
      case True
      then show ?thesis using ok unfolding node_ok_def by metis
    next
      case False
      then obtain m where "m = n + 1 \<or> m = n" "inv (ns_store st')" "chain_ok E B babs m (ns_store st')"
        "ns_mempool st' = mempool_remove E (map (transaction_hash E) (txs b)) (ns_mempool st)"
        "ns_peers st' = broadcast_except src (NewBlock b) (ns_peers st)"
        using out peers by (metis peers_ok_broadcast(3))
      then show ?thesis using mempool_remove_inv [OF E(1) pool] peers by (auto simp: node_ok_def)
    qed
  next
    case (NewTx tx)
    then have "st' = handle_new_tx Env src tx st" using d Inr by (simp add: dispatch_def)
    then show ?thesis
      using ok add by (intro exI [of _ n]) (auto simp: node_ok_def new_tx_state split: sum.split)
  qed (use d Inr ok in \<open>auto simp: dispatch_def node_ok_def split: sum.splits\<close>)
qed (use d ok in \<open>auto simp: dispatch_def\<close>)

lemma peer_turn_ok:
  assumes E: "swap_remove_deletes E" "orders_permute E" and ok: "node_ok E B babs inv n st" and n: "n \<noteq> - 1"
    and t: "peer_turn Env a i st = (st', fs, c)"
  shows "\<exists>m. (m = n \<or> m = n + 1) \<and> node_ok E B babs inv m st'"
proof (cases i)
  case (Outbound sent)
  have "peers_ok (AList.update a q (ns_peers st))" if q: "map_of (ns_peers st) a = Some (m # q)" for m q
  proof -
    have "length (m # q) \<le> OUTBOUND_QUEUE"
      using ok map_of_SomeD [OF q] unfolding node_ok_def peers_ok_def by force
    moreover have "map fst (AList.update a q (ns_peers st)) = map fst (ns_peers st)"
      using map_of_SomeD [OF q] by (force simp: update_keys)
    moreover have "\<forall>q' \<in> snd ` set (AList.update a q (ns_peers st)). q' = q \<or> q' \<in> snd ` set (ns_peers st)"
      using in_alist_updateD [of _ a q "ns_peers st"] by fastforce
    ultimately show ?thesis
      using ok peers_ok_same_keys [of "ns_peers st"] unfolding node_ok_def peers_ok_def
      by (metis Suc_leD length_Cons list.map_comp)
  qed
  then have "node_ok E B babs inv n st'" using t ok
    by (auto simp: Outbound node_ok_def Let_def split: option.splits list.splits sum.splits)
  then show ?thesis by blast
next
  case (Frame bytes)
  obtain st1 r where d: "dispatch Env bytes a st = (st1, r)" by fastforce
  then have "dispatch Env bytes a st = (st', r)" using t Frame by simp
  from dispatch_ok [OF E ok n this] show ?thesis .
qed (use t ok in \<open>auto split: sum.splits\<close>)

end

section \<open>A sample node\<close>

definition sample_addr :: socket_addr where
  "sample_addr = SocketV4 1 8333"

definition sample_net :: "message \<Rightarrow> net" where
  "sample_net m = \<lparr>json_message = (\<lambda>_. Inr []), unjson_message = (\<lambda>_. Inr m), show_addr = (\<lambda>_. ''peer''),
     parse_addr = (\<lambda>_. Inr sample_addr), key_order = (\<lambda>as. as)\<rparr>"

definition sample_config :: node_config where
  "sample_config = \<lparr>listen_addr = sample_addr, bootstrap_peers = [], slot_duration_secs = 10,
     http_addr = sample_addr, sled_path = [], mempool_max_size = 10, genesis_path = [],
     my_address = sample_owner, my_signing_key = sample_key\<rparr>"

text \<open>A node whose chain is the block that funds the sample key.\<close>

definition node_sled :: "(byte list, byte list) RBT.rbt sled_store" where
  "node_sled = fst (sled_insert rbt_env ref_ext funded_sled sample_parent)"

definition sample_node :: "(byte list, byte list) RBT.rbt sled_store node_state" where
  "sample_node = node_state_new node_sled sample_config"

definition sample_env :: "(byte list, byte list) RBT.rbt sled_store node_env" where
  "sample_env = sled_node_env rbt_env ref_ext (sample_net GetPeers)"

lemma sample_node_simps [simp]:
  "ns_store sample_node = node_sled" "slot_duration_secs sample_config = 10"
  "ns_peers sample_node = []" "ns_mempool sample_node = mempool_new 10" "ns_config sample_node = sample_config"
  by (simp_all add: sample_node_def node_state_new_def sample_config_def)

lemma node_sled_ok:
  "sled_inv rbt_env ref_ext node_sled" "sled_uabs rbt_env ref_ext node_sled = funded_map"
  "sled_vabs rbt_env ref_ext node_sled = sled_vabs rbt_env ref_ext funded_sled"
  "sled_babs rbt_env ref_ext node_sled 0 = Some sample_parent"
  "chain_ok ref_ext (sled_block_store rbt_env ref_ext) (sled_babs rbt_env ref_ext) 0 node_sled"
proof -
  have parent: "height (header sample_parent) = 0" by (simp add: sample_parent_def)
  obtain s where s: "bs_insert (sled_block_store rbt_env ref_ext) funded_sled sample_parent = (s, Inr ())"
    "sled_inv rbt_env ref_ext s" "sled_babs rbt_env ref_ext s = (sled_babs rbt_env ref_ext funded_sled)(0 \<mapsto> sample_parent)"
    using rbt_sled.insert_ok [OF funded_sled_ok(1), of sample_parent] by (auto simp: parent)
  have n: "node_sled = s" using s(1) by (simp add: node_sled_def sled_block_store_def)
  obtain s1 where s1: "sled_upsert rbt_env ref_ext (sled_new_temporary rbt_env) (sample_validator 1 5) = (s1, Inr ())"
    "sled_inv rbt_env ref_ext s1" "sled_babs rbt_env ref_ext s1 = Map.empty"
    using rbt_sled.upsert_ok [OF rbt_new(1), of "sample_validator 1 5"] rbt_sled.upsert_frame [OF rbt_new(1), of "sample_validator 1 5"]
    by (fastforce simp: sled_validator_store_def rbt_new sample_validator_def)
  obtain s2 r where s2: "sled_apply_block rbt_env ref_ext s1 (sample_block 0 [sample_fund]) = (s2, r)" by fastforce
  have "funded_sled = s2"
    by (simp add: funded_sled_def sled_run_def sled_utxo_store_def sled_validator_store_def s1(1) s2)
  then have empty: "sled_babs rbt_env ref_ext funded_sled = Map.empty"
    using rbt_sled.sled_apply_block_abs [OF s1(2) s2] s1(3) by simp
  then have tip: "bs_tip (sled_block_store rbt_env ref_ext) s = Inr (Some (0, hash_of_block ref_ext sample_parent))"
    using rbt_sled.tip_insert [OF funded_sled_ok(1) s(1)] by (simp add: parent)
  show "sled_inv rbt_env ref_ext node_sled" "sled_babs rbt_env ref_ext node_sled 0 = Some sample_parent"
    using s by (simp_all add: n)
  show "sled_uabs rbt_env ref_ext node_sled = funded_map"
    "sled_vabs rbt_env ref_ext node_sled = sled_vabs rbt_env ref_ext funded_sled"
    using rbt_sled.insert_frame [OF funded_sled_ok(1) s(1)] by (simp_all add: n funded_sled_ok(2))
  have "h \<le> 0 \<longleftrightarrow> h = 0" for h :: u64 by simp
  then show "chain_ok ref_ext (sled_block_store rbt_env ref_ext) (sled_babs rbt_env ref_ext) 0 node_sled"
    using s tip empty by (auto simp: chain_ok_def chain_to_def n)
qed

end
