(* ===== verification/Bcc_Connector.thy ===== *)
theory Bcc_Connector
  imports Bcc_P2p
begin

text \<open>
  \<open>p2p/connector.rs\<close> and \<open>p2p/server.rs\<close>: outbound dialling with exponential backoff, and the listener with
  its limit on inbound connections.  Instants are seconds; the backoff map is an association list.
  The connector does not remember its pending dials: a peer that does not answer is dialled again at
  every tick.
\<close>

definition BASE_BACKOFF_SECS :: nat where
  "BASE_BACKOFF_SECS = 2"

definition MAX_BACKOFF_SECS :: nat where
  "MAX_BACKOFF_SECS = 64"

definition MAX_INBOUND_PEERS :: nat where
  "MAX_INBOUND_PEERS = 50"

type_synonym backoff_map = "(socket_addr \<times> (nat \<times> nat)) list"

text \<open>The addresses a tick of the connector dials.\<close>

definition dial_targets :: "socket_addr list \<Rightarrow> peer_set \<Rightarrow> backoff_map \<Rightarrow> nat \<Rightarrow> socket_addr list" where
  "dial_targets peers connected backoff now =
     filter (\<lambda>a. a \<notin> fst ` set connected \<and>
       (case map_of backoff a of Some (next_attempt, _) \<Rightarrow> \<not> now < next_attempt | None \<Rightarrow> True)) peers"

definition dial_succeeded :: "socket_addr \<Rightarrow> backoff_map \<Rightarrow> backoff_map" where
  "dial_succeeded a backoff = AList.delete a backoff"

definition dial_failed :: "socket_addr \<Rightarrow> nat \<Rightarrow> backoff_map \<Rightarrow> backoff_map" where
  "dial_failed a now backoff =
     (let cur = (case map_of backoff a of Some (_, b) \<Rightarrow> b | None \<Rightarrow> BASE_BACKOFF_SECS);
          nxt = min (cur * 2) MAX_BACKOFF_SECS
      in AList.update a (now + cur, nxt) backoff)"

text \<open>The server takes a connection only below its limit.\<close>

definition server_accepts :: "'s node_state \<Rightarrow> bool" where
  "server_accepts st \<longleftrightarrow> \<not> MAX_INBOUND_PEERS \<le> peers_len (ns_peers st)"

text \<open>
  The connector with the tasks it has spawned: a tick with the peers registered at that moment, and
  the end of a dial.
\<close>

record connector =
  cn_backoff :: backoff_map
  cn_dialling :: "socket_addr list"

datatype connector_event =
    ConnectorTick nat peer_set
  | DialOk socket_addr
  | DialErr socket_addr nat
  | ConnectorCancelled

fun connector_loop :: "socket_addr list \<Rightarrow> connector_event list \<Rightarrow> connector \<Rightarrow> connector" where
  "connector_loop peers [] c = c"
| "connector_loop peers (ConnectorTick now connected # es) c =
     connector_loop peers es (c\<lparr>cn_dialling := cn_dialling c @ dial_targets peers connected (cn_backoff c) now\<rparr>)"
| "connector_loop peers (DialOk a # es) c =
     connector_loop peers es (c\<lparr>cn_backoff := dial_succeeded a (cn_backoff c), cn_dialling := remove1 a (cn_dialling c)\<rparr>)"
| "connector_loop peers (DialErr a now # es) c =
     connector_loop peers es (c\<lparr>cn_backoff := dial_failed a now (cn_backoff c), cn_dialling := remove1 a (cn_dialling c)\<rparr>)"
| "connector_loop peers (ConnectorCancelled # es) c = c"

definition run_connector :: "node_config \<Rightarrow> connector_event list \<Rightarrow> connector option" where
  "run_connector cfg es =
     (if bootstrap_peers cfg = [] then None
      else Some (connector_loop (bootstrap_peers cfg) es \<lparr>cn_backoff = [], cn_dialling = []\<rparr>))"

text \<open>
  The loop of a listener, up to its cancellation: the connections it accepts.  The server of the peer
  protocol drops those above its limit, by the peers registered when they arrive.
\<close>

datatype 'c accept_input = AcceptConn 'c | AcceptFailed | AcceptCancelled

fun accept_loop :: "'c accept_input list \<Rightarrow> 'c list" where
  "accept_loop [] = []"
| "accept_loop (AcceptConn c # is) = c # accept_loop is"
| "accept_loop (AcceptFailed # is) = accept_loop is"
| "accept_loop (AcceptCancelled # is) = []"

definition run_server :: "bool \<Rightarrow> (socket_addr \<times> 's node_state) accept_input list \<Rightarrow> socket_addr list" where
  "run_server bound inputs =
     (if bound then map fst (filter (\<lambda>(_, st). server_accepts st) (accept_loop inputs)) else [])"

lemma dial_failed_known:
  "map_of m a = Some (x, b) \<Longrightarrow> map_of (dial_failed a t m) a = Some (t + b, min (b * 2) 64)"
  by (simp add: dial_failed_def Let_def MAX_BACKOFF_SECS_def)

text \<open>A series of failures at the given instants.\<close>

lemma dial_failures:
  assumes "map_of backoff a = None"
  shows "map_of (fold (dial_failed a) (ts @ [t]) backoff) a =
    Some (t + min (2 ^ (length ts + 1)) 64, min (2 ^ (length ts + 2)) 64)"
proof (induction ts arbitrary: t rule: rev_induct)
  case Nil
  then show ?case using assms by (simp add: dial_failed_def Let_def BASE_BACKOFF_SECS_def MAX_BACKOFF_SECS_def)
next
  case (snoc u ts)
  have "map_of (fold (dial_failed a) ((ts @ [u]) @ [t]) backoff) a =
      Some (t + min (2 ^ (length ts + 2)) 64, min (min (2 ^ (length ts + 2)) 64 * 2) 64)"
    using dial_failed_known [OF snoc.IH [of u], of t] by simp
  moreover have "min (min (2 ^ (length ts + 2)) 64 * 2) 64 = min (2 ^ (length (ts @ [u]) + 2)) (64 :: nat)"
    by (simp add: min_def)
  ultimately show ?case by simp
qed

section \<open>Properties\<close>

text \<open>
  The backoff doubles up to its cap.  After the \<open>k\<close>-th failure in a row the peer is left alone
  for \<open>2^k\<close> seconds, at most 64, and dialled again from then on; a success makes it dialled at once.
\<close>

lemma backoff_schedule:
  assumes "map_of backoff a = None" and "a \<in> set peers" and "a \<notin> fst ` set connected"
  shows "(a \<in> set (dial_targets peers connected (fold (dial_failed a) (ts @ [t]) backoff) now) \<longleftrightarrow>
      t + min (2 ^ (length ts + 1)) 64 \<le> now) \<and>
    a \<in> set (dial_targets peers connected (dial_succeeded a (fold (dial_failed a) (ts @ [t]) backoff)) now)"
  using assms dial_failures [OF assms(1), of ts t]
  by (auto simp: dial_targets_def dial_succeeded_def)

lemma count_list_distinct: "a \<in> set xs \<Longrightarrow> distinct xs \<Longrightarrow> count_list xs a = 1"
  by (induction xs) auto

text \<open>
  A bootstrap peer that is not connected, has not failed and does not answer is dialled anew at every
  tick: after any number of them as many dials are pending.
\<close>

lemma connector_ticks:
  assumes "a \<in> set peers" and "distinct peers" and "map_of (cn_backoff c) a = None"
    and "\<forall>t \<in> set ts. a \<notin> fst ` set (snd t)"
  shows "count_list (cn_dialling (connector_loop peers (map (\<lambda>(now, ps). ConnectorTick now ps) ts) c)) a =
    count_list (cn_dialling c) a + length ts"
  using assms(3,4)
proof (induction ts arbitrary: c)
  case (Cons t ts)
  obtain now ps where t: "t = (now, ps)" by fastforce
  have "a \<in> set (dial_targets peers ps (cn_backoff c) now)" "distinct (dial_targets peers ps (cn_backoff c) now)"
    using assms(1,2) Cons.prems by (auto simp: dial_targets_def t)
  then have "count_list (dial_targets peers ps (cn_backoff c) now) a = 1" by (rule count_list_distinct)
  then show ?case using Cons by (simp add: t)
qed simp

lemma silent_peer_redialled:
  assumes "a \<in> set (bootstrap_peers cfg)" and "distinct (bootstrap_peers cfg)"
    and "\<forall>t \<in> set ts. a \<notin> fst ` set (snd t)"
  shows "\<exists>c. run_connector cfg (map (\<lambda>(now, ps). ConnectorTick now ps) ts) = Some c \<and>
    count_list (cn_dialling c) a = length ts"
  using connector_ticks [OF assms(1,2) _ assms(3), of "\<lparr>cn_backoff = [], cn_dialling = []\<rparr>"] assms(1)
  by (auto simp: run_connector_def)

text \<open>A limit that is reached when a connection arrives is never exceeded by it.\<close>

lemma run_server_limit:
  "a \<in> set (run_server bound inputs) \<Longrightarrow> \<exists>st. AcceptConn (a, st) \<in> set inputs \<and> peers_len (ns_peers st) < 50"
proof -
  assume "a \<in> set (run_server bound inputs)"
  then obtain st where "(a, st) \<in> set (accept_loop inputs)" "server_accepts st"
    by (auto simp: run_server_def split: if_splits)
  moreover have "c \<in> set (accept_loop inputs) \<Longrightarrow> AcceptConn c \<in> set inputs" for c
    by (induction inputs rule: accept_loop.induct) auto
  ultimately show ?thesis by (auto simp: server_accepts_def MAX_INBOUND_PEERS_def not_le)
qed

end
