(* ===== verification/Bcc_Fork_Choice.thy ===== *)
theory Bcc_Fork_Choice
  imports Bcc_P2p
begin

text \<open>
  The fork choice of \<open>p2p/handler.rs\<close> between two nodes.  Competing blocks that do not touch the same
  outputs make nodes converge to the same chain and the same ledger in whatever order they arrive;
  competing blocks that spend a common output do not: the candidate is validated against the UTXO set
  of the block it would replace, so each node keeps what it saw first.
\<close>

text \<open>The state of a node after a peer announced blocks, one after the other.\<close>

definition deliver :: "'s node_env \<Rightarrow> socket_addr \<Rightarrow> block list \<Rightarrow> 's node_state \<Rightarrow> 's node_state" where
  "deliver Env src bs st = fold (\<lambda>b st. fst (handle_new_block Env src b st)) bs st"

section \<open>Validity after another block\<close>

lemma utxo_apply_tx_other:
  "r \<notin> set (tx_refs tx) \<Longrightarrow> r \<notin> fst ` set (tx_created E tx) \<Longrightarrow> utxo_apply_tx E tx M r = M r"
  by (simp add: utxo_apply_tx_def map_insert_all_notin map_remove_all_apply)

lemma utxo_apply_other:
  assumes "r \<notin> set (block_refs b)" and "r \<notin> fst ` set (block_created E b)"
  shows "utxo_apply E b M r = M r"
proof -
  have "\<forall>tx \<in> set ts. r \<notin> set (tx_refs tx) \<and> r \<notin> fst ` set (tx_created E tx) \<Longrightarrow>
      fold (utxo_apply_tx E) ts M r = M r" for ts
    by (induction ts arbitrary: M) (auto simp: utxo_apply_tx_other)
  moreover have "\<forall>tx \<in> set (txs b). r \<notin> set (tx_refs tx) \<and> r \<notin> fst ` set (tx_created E tx)"
    using assms by (auto simp: block_refs_def block_created_def)
  ultimately show ?thesis by (simp add: utxo_apply_def)
qed

lemma utxo_apply_spent:
  assumes "r \<in> set (block_refs b)" and "r \<notin> fst ` set (block_created E b)"
  shows "utxo_apply E b M r = None"
proof -
  have created: "\<forall>tx \<in> set (txs b). r \<notin> fst ` set (tx_created E tx)"
    using assms(2) by (auto simp: block_created_def)
  have none: "fold (utxo_apply_tx E) ts M r = None"
    if "\<forall>tx \<in> set ts. r \<notin> fst ` set (tx_created E tx)" "M r = None \<or> (\<exists>tx \<in> set ts. r \<in> set (tx_refs tx))" for ts M
    using that
  proof (induction ts arbitrary: M)
    case (Cons t ts)
    have "utxo_apply_tx E t M r = (if r \<in> set (tx_refs t) then None else M r)"
      using Cons.prems(1) by (simp add: utxo_apply_tx_def map_insert_all_notin map_remove_all_apply)
    then show ?case using Cons by auto
  qed simp
  show ?thesis
    unfolding utxo_apply_def using assms(1) by (intro none) (auto simp: created block_refs_def)
qed

lemma acceptable_cong:
  assumes "\<And>r. r \<in> set (tx_refs tx) \<Longrightarrow> M' r = M r"
  shows "tx_acceptable E M' tx = tx_acceptable E M tx"
proof -
  have "amount_at M' r = amount_at M r" if "r \<in> set (tx_refs tx)" for r
    using assms [OF that] by (simp add: amount_at_def)
  then have "map (amount_at M') (tx_refs tx) = map (amount_at M) (tx_refs tx)" by (rule map_cong [OF refl])
  moreover have "input_ok E M' m i = input_ok E M m i" if "i \<in> set (tx_inputs tx)" for m i
    using assms [of "in_out_ref i"] that by (simp add: input_ok_def tx_refs_def)
  ultimately show ?thesis unfolding tx_acceptable_def by (simp only: cong: ball_cong)
qed

context node_backend
begin

lemma all_active_cong:
  assumes "inv s" and "inv s'" and "vabs s' = vabs s"
  shows "vs_all_active V s' n = vs_all_active V s n"
  using all_active [OF assms(1), of n] all_active [OF assms(2), of n] assms(3)
  by (metis strict_sorted_key_eq)

text \<open>Validity depends on the validators and on the outputs the block refers to.\<close>

lemma validity_cong:
  assumes "inv s" and "inv s'" and "vabs s' = vabs s" and "\<And>r. r \<in> set (block_refs b) \<Longrightarrow> uabs s' r = uabs s r"
  shows "validate_block E U V s' b p d = Inr () \<longleftrightarrow> validate_block E U V s b p d = Inr ()"
proof -
  have "tx_acceptable E (uabs s') tx = tx_acceptable E (uabs s) tx" if "tx \<in> set (txs b)" for tx
    using that by (intro acceptable_cong assms(4)) (auto simp: block_refs_def)
  then show ?thesis
    by (simp add: validate_block_accepts all_active_cong [OF assms(1-3)] validate_txs_iff [OF assms(1)]
        validate_txs_iff [OF assms(2)])
qed

lemma missing_input_invalid:
  assumes "inv s" and "r \<in> set (block_refs b)" and "uabs s r = None"
  shows "validate_block E U V s b p d \<noteq> Inr ()"
proof
  assume "validate_block E U V s b p d = Inr ()"
  then have "\<forall>tx \<in> set (txs b). set (tx_refs tx) \<subseteq> dom (uabs s)"
    using acceptable_refs unfolding validate_block_accepts validate_txs_iff [OF assms(1)] by blast
  then show False using assms(2,3) by (auto simp: block_refs_def)
qed

lemma valid_refs:
  assumes "inv s" and "validate_block E U V s b p d = Inr ()"
  shows "set (block_refs b) \<subseteq> dom (uabs s)"
  using missing_input_invalid [OF assms(1)] assms(2) by blast

section \<open>Deliveries\<close>

lemma deliver_extends:
  assumes "inv (ns_store st)" and "chain_ok E B babs n (ns_store st)" and "n \<noteq> - 1"
    and "babs (ns_store st) n = Some p" and "bs_get_by_hash B (ns_store st) (hash_of_block E b) = Inr None"
    and "validate_block E U V (ns_store st) b p (slot_duration_secs (ns_config st)) = Inr ()"
  obtains st' s1 where "handle_new_block Env src b st = (st', Inr ())" "inv (ns_store st')"
    "chain_ok E B babs (n + 1) (ns_store st')" "babs (ns_store st') = (babs (ns_store st))(n + 1 \<mapsto> b)"
    "uabs (ns_store st') = utxo_apply E b (uabs (ns_store st))" "vabs (ns_store st') = vabs (ns_store st)"
    "ns_config st' = ns_config st" "bs_insert B (ns_store st) b = (s1, Inr ())"
    "us_apply_block U s1 b = (ns_store st', Inr ())"
proof -
  have h: "height (header b) = n + 1"
    using assms(6) babs_height [OF assms(1,4)] by (simp add: validate_block_accepts)
  obtain t where t: "bs_tip B (ns_store st) = Inr (Some (n, hash_of_block E t))" by (rule chain_ok_tip [OF assms(2)])
  have "handle_new_block Env src b st = extend_tip Env src b n st"
    using assms(5) t h by (simp add: handle_new_block_def Let_def)
  then show ?thesis using extend_tip_accepts [OF assms(1,2,4,6,3), of src] that by auto
qed

lemma deliver_fork:
  assumes "inv (ns_store st)" and "chain_ok E B babs n (ns_store st)" and "babs (ns_store st) n = Some t"
    and "height (header b) = n" and "bs_get_by_hash B (ns_store st) (hash_of_block E b) = Inr None"
  shows "handle_new_block Env src b st = fork_choice Env src b n (hash_of_block E t) st"
proof -
  have "bs_tip B (ns_store st) = Inr (Some (n, hash_of_block E t))"
    using assms(2,3) by (simp add: chain_ok_def)
  moreover have "n \<noteq> n + 1" by simp
  ultimately show ?thesis using assms(4,5) by (simp add: handle_new_block_def Let_def)
qed

text \<open>A candidate that is not adopted leaves the store alone.\<close>

lemma deliver_kept:
  assumes "inv (ns_store st)" and "chain_ok E B babs n (ns_store st)" and "height (header b) = n"
    and "\<not> fork_adopts Env babs b n (ns_store st) (slot_duration_secs (ns_config st))"
  shows "fst (handle_new_block Env src b st) = st"
proof -
  obtain t where t: "babs (ns_store st) n = Some t" by (rule chain_ok_tip [OF assms(2)])
  obtain p where p: "babs (ns_store st) (saturating_sub n 1) = Some p"
    using chain_ok_below [OF assms(2) saturating_sub_le] by blast
  obtain x where x: "bs_get_by_hash B (ns_store st) (hash_of_block E b) = Inr x" using reads_ok [OF assms(1)] by blast
  show ?thesis
  proof (cases x)
    case None
    then show ?thesis
      using deliver_fork [OF assms(1,2) t assms(3)] x fork_choice_keeps [OF assms(1) t assms(3) p assms(4)] by simp
  next
    case (Some y)
    then show ?thesis using x by (simp add: handle_new_block_def Let_def)
  qed
qed

lemma reorg_uabs:
  assumes "inv s" and "us_rollback_block U s old = (s1, Inr ())" and "inv s1"
    and "reorg_block Env old b s = (s', Inr ())"
  shows "uabs s' = utxo_apply E b (uabs s1)"
proof -
  obtain s2 where s2: "bs_insert B s1 b = (s2, Inr ())" "inv s2" using insert_ok [OF assms(3)] by blast
  then have "us_apply_block U s2 b = (s', Inr ())" using assms(2,4) by (simp add: reorg_block_def)
  then show ?thesis using apply_ok [OF s2(2), of b] insert_frame [OF assms(3) s2(1)] by auto
qed

lemma deliver_simps: "deliver Env src [b] st = fst (handle_new_block Env src b st)"
  "deliver Env src [b, c] st = fst (handle_new_block Env src c (deliver Env src [b] st))"
  by (simp_all add: deliver_def)

text \<open>The better block first: the other one is not adopted.\<close>

lemma better_first:
  assumes "inv (ns_store st)" and "chain_ok E B babs n (ns_store st)" and "n \<noteq> - 1"
    and "babs (ns_store st) n = Some p" and "bs_get_by_hash B (ns_store st) (hash_of_block E b) = Inr None"
    and "validate_block E U V (ns_store st) b p (slot_duration_secs (ns_config st)) = Inr ()"
    and "height (header c) = n + 1"
    and "hash_of_block E b \<le> hash_of_block E c \<or>
      (\<forall>s. inv s \<longrightarrow> uabs s = utxo_apply E b (uabs (ns_store st)) \<longrightarrow>
        (\<forall>q d. validate_block E U V s c q d \<noteq> Inr ()))"
  shows "babs (ns_store (deliver Env src [b, c] st)) = (babs (ns_store st))(n + 1 \<mapsto> b) \<and>
    uabs (ns_store (deliver Env src [b, c] st)) = utxo_apply E b (uabs (ns_store st)) \<and>
    bs_tip B (ns_store (deliver Env src [b, c] st)) = Inr (Some (n + 1, hash_of_block E b))"
proof -
  obtain st' s1 where st': "handle_new_block Env src b st = (st', Inr ())" "inv (ns_store st')"
    "chain_ok E B babs (n + 1) (ns_store st')" "babs (ns_store st') = (babs (ns_store st))(n + 1 \<mapsto> b)"
    "uabs (ns_store st') = utxo_apply E b (uabs (ns_store st))" "vabs (ns_store st') = vabs (ns_store st)"
    "ns_config st' = ns_config st" "bs_insert B (ns_store st) b = (s1, Inr ())"
    "us_apply_block U s1 b = (ns_store st', Inr ())"
    by (rule deliver_extends [OF assms(1-6)])
  have "\<not> fork_adopts Env babs c (n + 1) (ns_store st') (slot_duration_secs (ns_config st'))"
    using assms(8) st'(2,4,5) by (auto simp: fork_adopts_def)
  from deliver_kept [OF st'(2,3) assms(7) this, of src]
  have "deliver Env src [b, c] st = st'" by (simp add: deliver_simps st'(1))
  moreover have "bs_tip B (ns_store st') = Inr (Some (n + 1, hash_of_block E b))"
    using st'(3,4) by (simp add: chain_ok_def)
  ultimately show ?thesis using st' by simp
qed

text \<open>The better block second: the tip is rolled back and replaced.\<close>

lemma better_second:
  assumes "inv (ns_store st)" and "chain_ok E B babs n (ns_store st)" and "n \<noteq> - 1"
    and "babs (ns_store st) n = Some p" and "bs_get_by_hash B (ns_store st) (hash_of_block E hi) = Inr None"
    and "validate_block E U V (ns_store st) hi p (slot_duration_secs (ns_config st)) = Inr ()"
    and "validate_block E U V (ns_store st) lo p (slot_duration_secs (ns_config st)) = Inr ()"
    and "hash_of_block E lo < hash_of_block E hi" and "set (block_refs lo) \<inter> set (block_refs hi) = {}"
    and "fst ` set (block_created E hi) \<inter> dom (uabs (ns_store st)) = {}"
    and "bs_get_by_hash B (ns_store (deliver Env src [hi] st)) (hash_of_block E lo) = Inr None"
  shows "babs (ns_store (deliver Env src [hi, lo] st)) = (babs (ns_store st))(n + 1 \<mapsto> lo) \<and>
    uabs (ns_store (deliver Env src [hi, lo] st)) = utxo_apply E lo (uabs (ns_store st)) \<and>
    bs_tip B (ns_store (deliver Env src [hi, lo] st)) = Inr (Some (n + 1, hash_of_block E lo))"
proof -
  let ?s = "ns_store st" and ?d = "slot_duration_secs (ns_config st)"
  obtain st' s1 where st': "handle_new_block Env src hi st = (st', Inr ())" "inv (ns_store st')"
    "chain_ok E B babs (n + 1) (ns_store st')" "babs (ns_store st') = (babs ?s)(n + 1 \<mapsto> hi)"
    "uabs (ns_store st') = utxo_apply E hi (uabs ?s)" "vabs (ns_store st') = vabs ?s"
    "ns_config st' = ns_config st" "bs_insert B ?s hi = (s1, Inr ())"
    "us_apply_block U s1 hi = (ns_store st', Inr ())"
    by (rule deliver_extends [OF assms(1-6)])
  have hi_ok: "block_applicable E (uabs ?s) hi"
    using valid_refs [OF assms(1,6)] assms(10) by (simp add: block_applicable_def)
  have "uabs (ns_store st') r = uabs ?s r" if "r \<in> set (block_refs lo)" for r
  proof -
    have "r \<in> dom (uabs ?s)" using that valid_refs [OF assms(1,7)] by blast
    then have "r \<notin> fst ` set (block_created E hi)" using assms(10) by blast
    moreover have "r \<notin> set (block_refs hi)" using that assms(9) by blast
    ultimately show ?thesis by (simp add: st'(5) utxo_apply_other)
  qed
  then have valid: "validate_block E U V (ns_store st') lo p ?d = Inr ()"
    using validity_cong [OF assms(1) st'(2,6)] assms(7) by blast
  have tip: "babs (ns_store st') (n + 1) = Some hi" and parent: "babs (ns_store st') n = Some p"
    using st'(4) assms(4) inc_less [OF assms(3)] by auto
  have "n + 1 \<noteq> 0" using assms(3) by (metis add.commute add_diff_cancel_right' diff_0)
  then have adopts: "fork_adopts Env babs lo (n + 1) (ns_store st') (slot_duration_secs (ns_config st'))"
    using tip parent valid assms(8) st'(7) by (auto simp: fork_adopts_def)
  obtain s' where s': "fst (fork_choice Env src lo (n + 1) (hash_of_block E hi) st') = emit (BlockReorged
      (height (header lo)) (hex_encode E (hash_of_block E lo)) (hex_encode E (hash_of_block E hi)))
      (after_adoption Env src lo (st'\<lparr>ns_store := s'\<rparr>))"
    "inv s'" "chain_ok E B babs (n + 1) s'" "babs s' = (babs (ns_store st'))(n + 1 \<mapsto> lo)"
    "reorg_block Env hi lo (ns_store st') = (s', Inr ())"
    using fork_choice_adopts [OF st'(2,3) tip adopts, of src] by auto
  have "height (header lo) = n + 1"
    using assms(7) babs_height [OF assms(1,4)] by (simp add: validate_block_accepts)
  from deliver_fork [OF st'(2,3) tip this, of src] assms(11)
  have d: "ns_store (deliver Env src [hi, lo] st) = s'"
    using s'(1) by (simp add: deliver_simps st'(1))
  have fr: "uabs s1 = uabs ?s" "inv s1"
    using insert_frame [OF assms(1) st'(8)] insert_ok [OF assms(1), of hi] st'(8) by auto
  then obtain s2 where s2: "us_rollback_block U (ns_store st') hi = (s2, Inr ())" "inv s2" "uabs s2 = uabs ?s"
    using rollback_ok [OF fr(2) _ st'(9)] hi_ok by auto
  have "uabs s' = utxo_apply E lo (uabs ?s)" using reorg_uabs [OF st'(2) s2(1,2) s'(5)] s2(3) by simp
  then show ?thesis using s'(3,4) d st'(4) by (simp add: chain_ok_def)
qed

end

section \<open>Properties\<close>

text \<open>
  Claim C20: competing blocks converge.  Let two valid blocks extend the same tip, spend no common
  output and create new references.  In whichever order a node receives them, it ends with the block
  of the lower hash as its tip, with the same chain and with the same unspent outputs.
\<close>

theorem competing_blocks_converge:
  assumes "node_backend E B babs U uabs V vabs ok Env" and "ok (ns_store st)"
    and "chain_ok E B babs n (ns_store st)" and "n \<noteq> - 1" and "babs (ns_store st) n = Some p"
    and "validate_block E U V (ns_store st) lo p (slot_duration_secs (ns_config st)) = Inr ()"
    and "validate_block E U V (ns_store st) hi p (slot_duration_secs (ns_config st)) = Inr ()"
    and "hash_of_block E lo < hash_of_block E hi" and "set (block_refs lo) \<inter> set (block_refs hi) = {}"
    and "fst ` set (block_created E hi) \<inter> dom (uabs (ns_store st)) = {}"
    and "bs_get_by_hash B (ns_store st) (hash_of_block E lo) = Inr None"
    and "bs_get_by_hash B (ns_store st) (hash_of_block E hi) = Inr None"
    and "bs_get_by_hash B (ns_store (deliver Env src [hi] st)) (hash_of_block E lo) = Inr None"
  shows "\<forall>s \<in> {ns_store (deliver Env src [lo, hi] st), ns_store (deliver Env src [hi, lo] st)}.
    babs s = (babs (ns_store st))(n + 1 \<mapsto> lo) \<and> uabs s = utxo_apply E lo (uabs (ns_store st)) \<and>
    bs_tip B s = Inr (Some (n + 1, hash_of_block E lo))"
proof -
  have "height (header hi) = n + 1"
    using assms(7) chain_store.axioms(1) [OF node_backend.axioms(1) [OF assms(1)]] block_iface.babs_height assms(2,5)
    by (fastforce simp: validate_block_accepts)
  moreover have "hash_of_block E lo \<le> hash_of_block E hi" using assms(8) by simp
  ultimately show ?thesis
    using node_backend.better_first [OF assms(1-5,11,6), of hi src]
      node_backend.better_second [OF assms(1-5,12,7,6,8,9,10,13)] by simp
qed

text \<open>The two blocks of the witnesses extend the sample chain: one is empty, the other pays.\<close>

definition sample_paying :: "u64 \<Rightarrow> block" where
  "sample_paying k = sample_next [sample_payment [sample_ref] [sample_output k]]"

lemma sample_index:
  "t_get rbt_env (sl_blocks_idx node_sled) g \<noteq> None \<longleftrightarrow> g = hash_of_block ref_ext sample_parent"
  by (simp add: node_sled_def funded_sled_def sled_run_def sled_insert_def sled_upsert_def sled_apply_block_def
      sled_utxo_store_def sled_validator_store_def sled_new_temporary_def rbt_env_def Let_def case_prod_beta)

lemma sample_unseen:
  assumes "hash_of_block ref_ext b \<noteq> hash_of_block ref_ext sample_parent"
  shows "bs_get_by_hash (sled_block_store rbt_env ref_ext) node_sled (hash_of_block ref_ext b) = Inr None"
  using assms sample_index [of "hash_of_block ref_ext b"]
  by (simp add: sled_block_store_def sled_get_by_hash_def rbt_env_def)

lemma sample_unseen_after:
  assumes "validate_block ref_ext (sled_utxo_store rbt_env ref_ext) (sled_validator_store rbt_env ref_ext)
      node_sled hi sample_parent 10 = Inr ()"
    and "hash_of_block ref_ext hi \<noteq> hash_of_block ref_ext sample_parent"
    and "hash_of_block ref_ext lo \<notin> {hash_of_block ref_ext sample_parent, hash_of_block ref_ext hi}"
  shows "bs_get_by_hash (sled_block_store rbt_env ref_ext)
    (ns_store (deliver sample_env sample_addr [hi] sample_node)) (hash_of_block ref_ext lo) = Inr None"
proof -
  obtain st' s1 where st': "handle_new_block sample_env sample_addr hi sample_node = (st', Inr ())"
    "bs_insert (sled_block_store rbt_env ref_ext) node_sled hi = (s1, Inr ())"
    "us_apply_block (sled_utxo_store rbt_env ref_ext) s1 hi = (ns_store st', Inr ())"
    using node_backend.deliver_extends [OF rbt_sled.is_node_backend, of sample_node 0 sample_parent hi
        "sample_net GetPeers" sample_addr] node_sled_ok assms(1) sample_unseen [OF assms(2)]
    by (simp add: sample_env_def) blast
  have "sl_blocks_idx (fst (sled_apply_block rbt_env ref_ext s1 hi)) = sl_blocks_idx s1"
    by (simp add: sled_apply_block_def rbt_env_def Let_def case_prod_beta)
  then have "sl_blocks_idx (ns_store st') = sl_blocks_idx s1" using st'(3) by (simp add: sled_utxo_store_def)
  also have "\<dots> = t_insert rbt_env (hash_of_block ref_ext hi) (height_key (height (header hi))) (sl_blocks_idx node_sled)"
    using st'(2) by (auto simp: sled_block_store_def sled_insert_def rbt_env_def Let_def)
  finally show ?thesis
    using st'(1) assms(3) sample_index [of "hash_of_block ref_ext lo"]
    by (simp add: deliver_def sled_block_store_def sled_get_by_hash_def rbt_env_def)
qed

lemma sample_paying_valid:
  assumes "k \<in> {3, 4}"
  shows "validate_block ref_ext (sled_utxo_store rbt_env ref_ext) (sled_validator_store rbt_env ref_ext)
      node_sled (sample_paying k) sample_parent 10 = Inr ()" (is "?V node_sled")
    and "fst ` set (block_created ref_ext (sample_paying k)) \<inter> dom (sled_uabs rbt_env ref_ext node_sled) = {}"
proof -
  have "tx_acceptable ref_ext funded_map (sample_payment [sample_ref] [sample_output k])"
    using assms by (intro payment_acceptable) (auto simp: sample_output_def)
  then have "?V funded_sled"
    unfolding sample_paying_def
    by (intro sample_next_accepted)
      (simp add: rbt_sled.validate_txs_iff [OF funded_sled_ok(1)] funded_sled_ok(2) del: validate_txs.simps)
  then show "?V node_sled"
    using node_backend.validity_cong [OF rbt_sled.is_node_backend funded_sled_ok(1) node_sled_ok(1) node_sled_ok(3)]
    by (simp add: node_sled_ok(2) funded_sled_ok(2))
  have "transaction_hash ref_ext (sample_payment [sample_ref] [sample_output 3]) \<noteq> transaction_hash ref_ext sample_fund"
    "transaction_hash ref_ext (sample_payment [sample_ref] [sample_output 4]) \<noteq> transaction_hash ref_ext sample_fund"
    by code_simp+
  then have "transaction_hash ref_ext (sample_payment [sample_ref] [sample_output k]) \<noteq> transaction_hash ref_ext sample_fund"
    using assms by auto
  then show "fst ` set (block_created ref_ext (sample_paying k)) \<inter> dom (sled_uabs rbt_env ref_ext node_sled) = {}"
    by (auto simp: node_sled_ok(2) funded_map_eq sample_ref_def block_created_def tx_created_def sample_paying_def
        sample_next_def out_ref_at_def Let_def)
qed

lemma sample_empty_valid:
  "validate_block ref_ext (sled_utxo_store rbt_env ref_ext) (sled_validator_store rbt_env ref_ext)
      node_sled (sample_next []) sample_parent 10 = Inr ()"
  using node_backend.validity_cong [OF rbt_sled.is_node_backend funded_sled_ok(1) node_sled_ok(1) node_sled_ok(3),
      of "sample_next []"] sample_next_accepted [of "[]"]
  by (simp add: node_sled_ok(2) funded_sled_ok(2))

lemma hash_next: "hash_of_block ref_ext (sample_next []) = [146, 89] @ replicate 30 0"
  by code_simp

lemma hash_paying_3: "hash_of_block ref_ext (sample_paying 3) = [23, 103] @ replicate 30 0"
  by code_simp

lemma hash_paying_4: "hash_of_block ref_ext (sample_paying 4) = [123, 216] @ replicate 30 0"
  by code_simp

lemma hash_parent: "hash_of_block ref_ext sample_parent = [121, 74] @ replicate 30 0"
  by code_simp

lemma sample_hashes:
  "hash_of_block ref_ext (sample_next []) \<noteq> hash_of_block ref_ext sample_parent"
  "hash_of_block ref_ext (sample_paying 3) \<noteq> hash_of_block ref_ext sample_parent"
  "hash_of_block ref_ext (sample_paying 4) \<noteq> hash_of_block ref_ext sample_parent"
  "hash_of_block ref_ext (sample_paying 3) < hash_of_block ref_ext (sample_next [])"
  unfolding hash_next hash_paying_3 hash_paying_4 hash_parent by simp_all

theorem competing_blocks_converge_witness:
  "bs_tip (sled_block_store rbt_env ref_ext) (ns_store (deliver sample_env sample_addr
      [sample_paying 3, sample_next []] sample_node)) = Inr (Some (1, hash_of_block ref_ext (sample_paying 3))) \<and>
   bs_tip (sled_block_store rbt_env ref_ext) (ns_store (deliver sample_env sample_addr
      [sample_next [], sample_paying 3] sample_node)) = Inr (Some (1, hash_of_block ref_ext (sample_paying 3)))"
proof -
  have "block_refs (sample_next []) = []" "block_created ref_ext (sample_next []) = []"
    by (simp_all add: block_refs_def block_created_def sample_next_def Let_def)
  moreover have "hash_of_block ref_ext (sample_paying 3) \<noteq> hash_of_block ref_ext (sample_next [])"
    using sample_hashes(4) by simp
  ultimately show ?thesis
    using competing_blocks_converge [OF rbt_sled.is_node_backend [of "sample_net GetPeers", folded sample_env_def],
      of sample_node 0 sample_parent "sample_paying 3" "sample_next []" sample_addr]
      node_sled_ok sample_paying_valid(1) [of 3] sample_empty_valid sample_hashes
      sample_unseen [OF sample_hashes(1)] sample_unseen [OF sample_hashes(2)]
      sample_unseen_after [of "sample_next []" "sample_paying 3"]
    by simp
qed

text \<open>
  Claim C21: competing blocks that spend a common output do not converge.  Two nodes with the same
  ledger that receive such blocks in opposite orders keep different tips, whatever the hashes: the
  block that arrives second is validated against the unspent outputs left by the first.
\<close>

theorem conflicting_blocks_diverge:
  assumes "node_backend E B babs U uabs V vabs ok Env" and "ok (ns_store st)"
    and "chain_ok E B babs n (ns_store st)" and "n \<noteq> - 1" and "babs (ns_store st) n = Some p"
    and "validate_block E U V (ns_store st) b p (slot_duration_secs (ns_config st)) = Inr ()"
    and "validate_block E U V (ns_store st) c p (slot_duration_secs (ns_config st)) = Inr ()"
    and "r \<in> set (block_refs b) \<inter> set (block_refs c)"
    and "(fst ` set (block_created E b) \<union> fst ` set (block_created E c)) \<inter> dom (uabs (ns_store st)) = {}"
    and "bs_get_by_hash B (ns_store st) (hash_of_block E b) = Inr None"
    and "bs_get_by_hash B (ns_store st) (hash_of_block E c) = Inr None"
  shows "bs_tip B (ns_store (deliver Env src [b, c] st)) = Inr (Some (n + 1, hash_of_block E b)) \<and>
    bs_tip B (ns_store (deliver Env src [c, b] st)) = Inr (Some (n + 1, hash_of_block E c))"
proof -
  note be = block_iface.babs_height [OF chain_store.axioms(1) [OF node_backend.axioms(1) [OF assms(1)]] assms(2,5)]
  have h: "height (header b) = n + 1" "height (header c) = n + 1"
    using assms(6,7) be by (simp_all add: validate_block_accepts)
  have "r \<in> dom (uabs (ns_store st))"
    using node_backend.valid_refs [OF assms(1,2,6)] assms(8) by blast
  then have none: "utxo_apply E b (uabs (ns_store st)) r = None" "utxo_apply E c (uabs (ns_store st)) r = None"
    using assms(8,9) by (auto intro!: utxo_apply_spent)
  then show ?thesis
    using node_backend.better_first [OF assms(1-5,10,6) h(2), of src]
      node_backend.better_first [OF assms(1-5,11,7) h(1), of src]
      node_backend.missing_input_invalid [OF assms(1)] assms(8) by (metis IntE)
qed

theorem conflicting_blocks_diverge_witness:
  "bs_tip (sled_block_store rbt_env ref_ext) (ns_store (deliver sample_env sample_addr
      [sample_paying 3, sample_paying 4] sample_node)) = Inr (Some (1, hash_of_block ref_ext (sample_paying 3))) \<and>
   bs_tip (sled_block_store rbt_env ref_ext) (ns_store (deliver sample_env sample_addr
      [sample_paying 4, sample_paying 3] sample_node)) = Inr (Some (1, hash_of_block ref_ext (sample_paying 4)))"
proof -
  have "sample_ref \<in> set (block_refs (sample_paying 3)) \<inter> set (block_refs (sample_paying 4))"
    by (simp add: block_refs_def tx_refs_def sample_paying_def sample_next_def sample_payment_def Let_def)
  then show ?thesis
    using conflicting_blocks_diverge [OF rbt_sled.is_node_backend, of sample_node 0 sample_parent "sample_paying 3"
        "sample_paying 4" sample_ref "sample_net GetPeers" sample_addr]
      node_sled_ok sample_paying_valid [of 3] sample_paying_valid [of 4] sample_unseen [OF sample_hashes(2)]
      sample_unseen [OF sample_hashes(3)]
    by (simp add: Int_Un_distrib2 sample_env_def)
qed

end
