(* ===== verification/Bcc_Slot_Ticker.thy ===== *)
theory Bcc_Slot_Ticker
  imports Bcc_Fork_Choice "HOL-Library.Signed_Division"
begin

text \<open>
  \<open>bcc-node/src/slot_ticker.rs\<close>: block production.  One turn of the slot loop is a function of the
  clock reading \<open>now\<close>; the sleep at its end is its result.  What an honest node proposes is accepted by
  every node with the same ledger, no slot gets a second block from the node, and a tip whose slot lies
  in the future silences it.
\<close>

section \<open>\<open>propose_block\<close>\<close>

definition MAX_TXS_PER_BLOCK :: nat where
  "MAX_TXS_PER_BLOCK = 512"

definition MIN_PROPOSE_WINDOW_SECS :: int where
  "MIN_PROPOSE_WINDOW_SECS = 1"

definition proposal :: "ext \<Rightarrow> node_config \<Rightarrow> transaction list \<Rightarrow> u64 \<Rightarrow> block_hash \<Rightarrow> u64 \<Rightarrow> i64 \<Rightarrow> block" where
  "proposal E c ts tip_height tip_hash slot_no now =
     (let hd = \<lparr>prev_hash = tip_hash, merkle_root = compute_merkle_root E ts, timestamp = now,
            height = tip_height + 1, slot = slot_no, proposer = my_address c\<rparr>
      in \<lparr>header = hd, block_signature = ed_sign E (my_signing_key c) (json_header E hd), txs = ts\<rparr>)"

definition propose_block ::
  "'s node_env \<Rightarrow> u64 \<Rightarrow> block_hash \<Rightarrow> u64 \<Rightarrow> i64 \<Rightarrow> 's node_state \<Rightarrow> 's node_state" where
  "propose_block Env tip_height tip_hash slot_no now st =
     (let E = ne_ext Env;
          st1 = emit (MempoolDrain slot_no (mempool_len (ns_mempool st))) st;
          ts = mempool_drain E MAX_TXS_PER_BLOCK (ns_mempool st1);
          b = proposal E (ns_config st1) ts tip_height tip_hash slot_no now
      in case bs_insert (ne_blocks Env) (ns_store st1) b of
        (s1, Inl _) \<Rightarrow> st1\<lparr>ns_store := s1\<rparr>
      | (s1, Inr _) \<Rightarrow>
        (case us_apply_block (ne_utxo Env) s1 b of
           (s2, Inl _) \<Rightarrow> st1\<lparr>ns_store := s2\<rparr>
         | (s2, Inr _) \<Rightarrow>
           (let st2 = st1\<lparr>ns_store := s2,
                  ns_mempool := mempool_remove E (map (transaction_hash E) (txs b)) (ns_mempool st1),
                  ns_new_block := ns_new_block st1 @ [b]\<rparr>
            in emit (BlockProposed (height (header b)) (hex_encode E (hash_of_block E b)) slot_no (length (txs b))
                 (as_str (my_address (ns_config st1)))) st2)))"

section \<open>The slot loop\<close>

text \<open>\<open>(target - now).max(0) as u64\<close>: how long \<open>sleep_until_secs\<close> waits.\<close>

definition sleep_remaining :: "i64 \<Rightarrow> i64 \<Rightarrow> u64" where
  "sleep_remaining target now = (if sint (target - now) < 0 then 0 else target - now)"

text \<open>\<open>now / slot_duration\<close> on \<open>i64\<close>, truncated towards zero.\<close>

definition slot_of :: "i64 \<Rightarrow> i64 \<Rightarrow> i64" where
  "slot_of now dur = of_int (sint now sdiv sint dur)"

definition tip_already_this_slot :: "'s node_env \<Rightarrow> 's \<Rightarrow> u64 \<Rightarrow> u64 \<Rightarrow> bool" where
  "tip_already_this_slot Env s tip_height slot_no =
     (case bs_get_by_height (ne_blocks Env) s tip_height of Inr (Some b) \<Rightarrow> slot_no \<le> slot (header b) | _ \<Rightarrow> False)"

text \<open>
  One turn: the new state and the end of the slot to sleep until; \<open>None\<close> is the panic of the division
  when the slot duration is 0.
\<close>

definition slot_turn :: "'s node_env \<Rightarrow> i64 \<Rightarrow> 's node_state \<Rightarrow> ('s node_state \<times> i64) option" where
  "slot_turn Env now st =
     (let E = ne_ext Env; dur = slot_duration_secs (ns_config st); s = ns_store st in
      if dur = 0 then None
      else let slot_no = slot_of now dur; se = (slot_no + 1) * dur in
        Some (
          if sint se \<le> sint now then st
          else case bs_tip (ne_blocks Env) s of
            Inl _ \<Rightarrow> st
          | Inr None \<Rightarrow> st
          | Inr (Some (tip_height, tip_hash)) \<Rightarrow>
            (case vs_all_active (ne_validators Env) s slot_no of
               Inl _ \<Rightarrow> st
             | Inr validators \<Rightarrow>
               (let st1 = emit (SlotTick slot_no tip_height) st in
                if tip_already_this_slot Env s tip_height slot_no then st1
                else case elect_proposer E slot_no tip_hash validators of
                  None \<Rightarrow> st1
                | Some v \<Rightarrow>
                  if v_address v = my_address (ns_config st) \<and> MIN_PROPOSE_WINDOW_SECS < sint (se - now)
                  then propose_block Env tip_height tip_hash slot_no now st1
                  else emit (SlotNotProposer slot_no (as_str (v_address v))) st1)), se))"

text \<open>The loop for the clock readings at which it wakes up, until it is cancelled or panics.\<close>

fun run_slot_ticker :: "'s node_env \<Rightarrow> i64 list \<Rightarrow> 's node_state \<Rightarrow> 's node_state option" where
  "run_slot_ticker Env [] st = Some st"
| "run_slot_ticker Env (now # nows) st =
     (case slot_turn Env now st of None \<Rightarrow> None | Some (st', _) \<Rightarrow> run_slot_ticker Env nows st')"

section \<open>Over any store\<close>

lemma proposal_simps [simp]:
  "height (header (proposal E c ts h g k now)) = h + 1" "prev_hash (header (proposal E c ts h g k now)) = g"
  "merkle_root (header (proposal E c ts h g k now)) = compute_merkle_root E ts"
  "timestamp (header (proposal E c ts h g k now)) = now" "slot (header (proposal E c ts h g k now)) = k"
  "proposer (header (proposal E c ts h g k now)) = my_address c" "txs (proposal E c ts h g k now) = ts"
  "block_signature (proposal E c ts h g k now) =
     ed_sign E (my_signing_key c) (json_header E (header (proposal E c ts h g k now)))"
  by (simp_all add: proposal_def Let_def)

context node_backend
begin

lemma propose_extends:
  fixes st n p k now
  assumes "inv (ns_store st)" and "chain_ok E B babs n (ns_store st)" and "babs (ns_store st) n = Some p" and "n \<noteq> - 1"
  defines "b \<equiv> proposal E (ns_config st) (mempool_drain E MAX_TXS_PER_BLOCK (ns_mempool st)) n (hash_of_block E p) k now"
  shows "\<exists>s'. inv s' \<and> chain_ok E B babs (n + 1) s' \<and> babs s' = (babs (ns_store st))(n + 1 \<mapsto> b) \<and>
    uabs s' = utxo_apply E b (uabs (ns_store st)) \<and> vabs s' = vabs (ns_store st) \<and>
    ns_store (propose_block Env n (hash_of_block E p) k now st) = s' \<and>
    ns_new_block (propose_block Env n (hash_of_block E p) k now st) = ns_new_block st @ [b] \<and>
    ns_mempool (propose_block Env n (hash_of_block E p) k now st) =
      mempool_remove E (map (transaction_hash E) (txs b)) (ns_mempool st) \<and>
    ns_peers (propose_block Env n (hash_of_block E p) k now st) = ns_peers st \<and>
    ns_config (propose_block Env n (hash_of_block E p) k now st) = ns_config st"
proof -
  have "block_extends E p b"
    using babs_height [OF assms(1,3)] by (simp add: block_extends_def b_def)
  then obtain s1 s2 where "bs_insert B (ns_store st) b = (s1, Inr ())" "us_apply_block U s1 b = (s2, Inr ())"
    "inv s2" "chain_ok E B babs (n + 1) s2" "babs s2 = (babs (ns_store st))(n + 1 \<mapsto> b)"
    "uabs s2 = utxo_apply E b (uabs (ns_store st))" "vabs s2 = vabs (ns_store st)"
    using insert_apply_chain [OF assms(1-3) _ assms(4)] by blast
  then show ?thesis by (auto simp: propose_block_def Let_def b_def)
qed

text \<open>A turn either proposes on top of the tip or leaves everything but the events alone.\<close>

lemma slot_turn_outcome:
  fixes st n p now st' se
  assumes "inv (ns_store st)" and "chain_ok E B babs n (ns_store st)" and "babs (ns_store st) n = Some p"
    and "slot_turn Env now st = Some (st', se)"
  defines "k \<equiv> slot_of now (slot_duration_secs (ns_config st))"
  shows "ns_store st' = ns_store st \<and> ns_mempool st' = ns_mempool st \<and> ns_peers st' = ns_peers st \<and>
      ns_config st' = ns_config st \<and> ns_new_block st' = ns_new_block st \<or>
    slot (header p) < k \<and> sint now < sint ((k + 1) * slot_duration_secs (ns_config st)) \<and>
    (\<exists>vs v. vs_all_active V (ns_store st) k = Inr vs \<and> elect_proposer E k (hash_of_block E p) vs = Some v \<and>
       v_address v = my_address (ns_config st)) \<and>
    st' = propose_block Env n (hash_of_block E p) k now (emit (SlotTick k n) st)"
proof -
  have "bs_tip B (ns_store st) = Inr (Some (n, hash_of_block E p))"
    using assms(2,3) by (simp add: chain_ok_def)
  then show ?thesis
    using assms(4) get_by_height [OF assms(1), of n] assms(3)
    by (auto simp: slot_turn_def tip_already_this_slot_def Let_def k_def split: if_splits sum.splits option.splits)
qed

lemma slot_turn_ok:
  assumes E: "swap_remove_deletes E" and ok: "node_ok E B babs inv n st" and n: "n \<noteq> - 1"
    and t: "slot_turn Env now st = Some (st', se)"
  shows "\<exists>m. (m = n \<or> m = n + 1) \<and> node_ok E B babs inv m st'"
proof -
  have inv: "inv (ns_store st)" and chain: "chain_ok E B babs n (ns_store st)" using ok by (simp_all add: node_ok_def)
  obtain p where p: "babs (ns_store st) n = Some p" by (rule chain_ok_tip [OF chain])
  let ?st = "emit (SlotTick (slot_of now (slot_duration_secs (ns_config st))) n) st"
  have "inv (ns_store ?st)" "chain_ok E B babs n (ns_store ?st)" "babs (ns_store ?st) n = Some p"
    using inv chain p by simp_all
  from propose_extends [OF this n, of _ now] slot_turn_outcome [OF inv chain p t]
  show ?thesis
  proof (elim disjE conjE, goal_cases)
    case 1
    then show ?case using ok by (intro exI [of _ n]) (simp add: node_ok_def)
  next
    case 2
    then show ?case using ok mempool_remove_inv [OF E]
      by (intro exI [of _ "n + 1"]) (auto simp: node_ok_def)
  qed
qed

lemma turn_proposes:
  assumes "inv (ns_store st)" and "chain_ok E B babs n (ns_store st)" and "babs (ns_store st) n = Some p" and "n \<noteq> - 1"
    and "slot_turn Env now st = Some (st', se)" and "ns_new_block st' \<noteq> ns_new_block st"
  shows "\<exists>k. k = slot_of now (slot_duration_secs (ns_config st)) \<and> slot (header p) < k \<and>
    sint now < sint ((k + 1) * slot_duration_secs (ns_config st)) \<and>
    (\<exists>vs v. vs_all_active V (ns_store st) k = Inr vs \<and> elect_proposer E k (hash_of_block E p) vs = Some v \<and>
       v_address v = my_address (ns_config st)) \<and>
    ns_new_block st' = ns_new_block st @ [proposal E (ns_config st) (mempool_drain E MAX_TXS_PER_BLOCK (ns_mempool st)) n
      (hash_of_block E p) k now] \<and>
    inv (ns_store st') \<and> chain_ok E B babs (n + 1) (ns_store st') \<and>
    babs (ns_store st') (n + 1) = Some (proposal E (ns_config st) (mempool_drain E MAX_TXS_PER_BLOCK (ns_mempool st)) n
      (hash_of_block E p) k now) \<and> ns_config st' = ns_config st"
proof -
  let ?k = "slot_of now (slot_duration_secs (ns_config st))"
  let ?st = "emit (SlotTick ?k n) st"
  have st: "inv (ns_store ?st)" "chain_ok E B babs n (ns_store ?st)" "babs (ns_store ?st) n = Some p"
    using assms(1-3) by simp_all
  from slot_turn_outcome [OF assms(1-3,5)] assms(6)
  have out: "slot (header p) < ?k" "sint now < sint ((?k + 1) * slot_duration_secs (ns_config st))"
    "\<exists>vs v. vs_all_active V (ns_store st) ?k = Inr vs \<and> elect_proposer E ?k (hash_of_block E p) vs = Some v \<and>
       v_address v = my_address (ns_config st)"
    "st' = propose_block Env n (hash_of_block E p) ?k now ?st"
    by simp_all
  then show ?thesis using propose_extends [OF st assms(4), of ?k now] by auto
qed

end

section \<open>A sample turn\<close>

text \<open>At second 12 the sample node is elected for slot 1 and proposes; at second 5 its slot is taken.\<close>

lemma sample_slots: "slot_of 12 10 = 1" "slot_of 5 10 = 0" "sint ((12 :: i64)) < sint ((2 :: i64) * 10)"
    "MIN_PROPOSE_WINDOW_SECS < sint ((2 :: i64) * 10 - 12)"
  by code_simp+

lemma sample_turn:
  obtains st' se where "slot_turn sample_env 12 sample_node = Some (st', se)" "ns_new_block st' \<noteq> ns_new_block sample_node"
proof -
  obtain vs v where vs: "vs_all_active (sled_validator_store rbt_env ref_ext) node_sled 1 = Inr vs"
    "elect_proposer ref_ext 1 (hash_of_block ref_ext sample_parent) vs = Some v" "v_address v = sample_owner"
    using sample_empty_valid unfolding validate_block_accepts by (auto simp: sample_next_def Let_def)
  have tip: "bs_tip (sled_block_store rbt_env ref_ext) node_sled = Inr (Some (0, hash_of_block ref_ext sample_parent))"
    using node_sled_ok(4,5) by (simp add: chain_ok_def)
  have env: "ne_ext sample_env = ref_ext" "ne_blocks sample_env = sled_block_store rbt_env ref_ext"
    "ne_validators sample_env = sled_validator_store rbt_env ref_ext"
    by (simp_all add: sample_env_def sled_node_env_def)
  have "\<not> tip_already_this_slot sample_env node_sled 0 1"
    using rbt_sled.get_by_height [OF node_sled_ok(1), of 0] node_sled_ok(4)
    by (simp add: tip_already_this_slot_def env sample_parent_def sample_block_def)
  moreover have "my_address sample_config = sample_owner" by (simp add: sample_config_def)
  ultimately have "slot_turn sample_env 12 sample_node = Some (propose_block sample_env 0 (hash_of_block ref_ext sample_parent) 1 12
      (emit (SlotTick 1 0) sample_node), 20)"
    using vs tip sample_slots by (simp add: slot_turn_def env Let_def)
  moreover have "ns_new_block (propose_block sample_env 0 (hash_of_block ref_ext sample_parent) 1 12
      (emit (SlotTick 1 0) sample_node)) \<noteq> ns_new_block sample_node"
    using node_backend.propose_extends [OF rbt_sled.is_node_backend [of "sample_net GetPeers", folded sample_env_def],
        of "emit (SlotTick 1 0) sample_node" 0 sample_parent 1 12] node_sled_ok by auto
  ultimately show ?thesis by (rule that)
qed

section \<open>Properties\<close>



text \<open>
  Claim C26: a slot gets at most one block of the node.  Two turns of the loop within one slot propose at
  most once, since the second finds a tip of that slot.
\<close>

theorem slot_produces_once:
  assumes "node_backend E B babs U uabs V vabs ok Env" and "ok (ns_store st)"
    and "chain_ok E B babs n (ns_store st)" and "n \<noteq> - 1" and "n + 1 \<noteq> - 1"
    and "slot_turn Env now st = Some (st1, se)" and "slot_turn Env now' st1 = Some (st2, se')"
    and "slot_of now' (slot_duration_secs (ns_config st)) = slot_of now (slot_duration_secs (ns_config st))"
  shows "length (ns_new_block st2) \<le> length (ns_new_block st) + 1"
proof -
  obtain p where p: "babs (ns_store st) n = Some p" using assms(3) by (auto simp: chain_ok_def)
  show ?thesis
  proof (cases "ns_new_block st1 = ns_new_block st")
    case True
    have st1: "ns_store st1 = ns_store st"
      using node_backend.slot_turn_outcome [OF assms(1-3) p assms(6)] True
        node_backend.turn_proposes [OF assms(1-3) p assms(4,6)]
        node_backend.propose_extends [OF assms(1), of "emit _ st" n p _ now] assms(2-4) p
      by fastforce
    then show ?thesis
      using node_backend.turn_proposes [OF assms(1) _ _ _ assms(4,7), of p] assms(2,3) p True
      by (cases "ns_new_block st2 = ns_new_block st1") auto
  next
    case False
    from node_backend.turn_proposes [OF assms(1-3) p assms(4,6) False]
    obtain b where b: "ns_new_block st1 = ns_new_block st @ [b]" "ok (ns_store st1)"
      "chain_ok E B babs (n + 1) (ns_store st1)" "babs (ns_store st1) (n + 1) = Some b"
      "slot (header b) = slot_of now (slot_duration_secs (ns_config st))" "ns_config st1 = ns_config st"
      by auto
    have "ns_new_block st2 = ns_new_block st1"
      using node_backend.turn_proposes [OF assms(1) b(2-4) assms(5,7)] b(5,6) assms(8) by auto
    then show ?thesis using b(1) by simp
  qed
qed

theorem slot_produces_once_witness:
  "\<exists>st1 st2 se. slot_turn sample_env 12 sample_node = Some (st1, se) \<and> slot_turn sample_env 12 st1 = Some (st2, se) \<and>
     length (ns_new_block st2) \<le> 1"
proof -
  obtain st1 se where t: "slot_turn sample_env 12 sample_node = Some (st1, se)" "ns_new_block st1 \<noteq> ns_new_block sample_node"
    by (rule sample_turn)
  note nb = rbt_sled.is_node_backend [of "sample_net GetPeers", folded sample_env_def]
  have c: "ns_config st1 = sample_config"
    using node_backend.turn_proposes [OF nb _ _ _ _ t, of 0 sample_parent] node_sled_ok by auto
  have "slot_turn sample_env 12 st1 = Some (fst (the (slot_turn sample_env 12 st1)), se)"
    using t(1) c by (auto simp: slot_turn_def Let_def split: if_splits)
  then obtain st2 where t2: "slot_turn sample_env 12 st1 = Some (st2, se)" by blast
  from slot_produces_once [OF nb _ _ _ _ t(1) t2, of 0] node_sled_ok
  have "length (ns_new_block st2) \<le> length (ns_new_block sample_node) + 1" by simp
  then show ?thesis using t t2 by (auto simp: sample_node_def node_state_new_def)
qed

text \<open>
  A tip from a future slot silences the node.  \<open>validate_block\<close> does not compare the slot of a
  block with the clock; once a block of slot \<open>k\<close> is the tip, no turn at a slot up to \<open>k\<close> proposes.
\<close>

lemma future_tip_silences:
  assumes "node_backend E B babs U uabs V vabs ok Env" and "ok (ns_store st)"
    and "chain_ok E B babs n (ns_store st)" and "babs (ns_store st) n = Some p" and "n \<noteq> - 1"
    and "slot_turn Env now st = Some (st', se)"
    and "slot_of now (slot_duration_secs (ns_config st)) \<le> slot (header p)"
  shows "ns_store st' = ns_store st \<and> ns_new_block st' = ns_new_block st"
  using node_backend.slot_turn_outcome [OF assms(1-4,6)] assms(7) by auto

text \<open>
  The slot arithmetic keeps its bounds.  For a clock after 1970 and a positive slot duration
  whose sum fits 63 bits, the current slot ends after now and at most one slot duration later, so the
  loop neither skips the slot nor sleeps longer than a slot.
\<close>

lemma slot_bounds:
  assumes "0 \<le> sint now" and "0 < sint dur" and "sint now + sint dur < 2 ^ 63"
  shows "sint now < sint ((slot_of now dur + 1) * dur) \<and> sint ((slot_of now dur + 1) * dur) \<le> sint now + sint dur \<and>
    uint (sleep_remaining ((slot_of now dur + 1) * dur) now) \<le> sint dur"
proof -
  define q where "q = sint now div sint dur"
  have q: "sint now sdiv sint dur = q"
    using assms by (cases "sint now = 0") (simp_all add: signed_divide_int_def q_def)
  have "sint now = q * sint dur + sint now mod sint dur" by (simp add: q_def)
  moreover have "0 \<le> sint now mod sint dur" "sint now mod sint dur < sint dur" using assms(2) by simp_all
  moreover have "(q + 1) * sint dur = q * sint dur + sint dur" by (simp add: distrib_right)
  ultimately have lo: "sint now < (q + 1) * sint dur" and hi: "(q + 1) * sint dur \<le> sint now + sint dur"
    by linarith+
  have w: "sint (of_int i :: i64) = i" if "0 \<le> i" "i < 2 ^ 63" for i
    using that by (simp add: signed_of_int signed_take_bit_int_eq_self)
  have se: "(slot_of now dur + 1) * dur = of_int ((q + 1) * sint dur)"
    by (simp add: slot_of_def q)
  moreover have "(slot_of now dur + 1) * dur - now = of_int ((q + 1) * sint dur - sint now)"
    by (simp add: se)
  moreover have "uint x = sint x" if "0 \<le> sint x" "sint x < 2 ^ 63" for x :: i64
    using that by (simp add: uint_sint take_bit_int_eq_self)
  ultimately show ?thesis
    using lo hi assms w [of "(q + 1) * sint dur"] w [of "(q + 1) * sint dur - sint now"]
    by (simp only: sleep_remaining_def if_False) simp
qed

end
