(* ===== verification/Bcc_Gossip.thy ===== *)
theory Bcc_Gossip
  imports Bcc_Fork_Choice
begin

text \<open>
  What \<open>dispatch\<close> of \<open>p2p/handler.rs\<close> does with the messages of a peer: announced blocks, transactions
  and the answers to its own requests.
\<close>

section \<open>Properties\<close>

text \<open>
  Claim C19: only valid blocks are adopted.  When a peer announces a block, a node with a well-formed
  chain either keeps its store and pool, or the block passed \<open>validate_block\<close> against the stored block
  below it and is now the tip of a well-formed chain, its transactions have left the pool and it is
  queued for every other peer.
\<close>

theorem announced_block_outcome:
  assumes "node_backend E B babs U uabs V vabs ok Env" and "ok (ns_store st)"
    and "chain_ok E B babs n (ns_store st)" and "n \<noteq> - 1"
    and "unjson_message (ne_net Env) bytes = Inr (NewBlock b)" and "dispatch Env bytes src st = (st', r)"
  shows "r = Inr () \<and>
    (ns_store st' = ns_store st \<and> ns_mempool st' = ns_mempool st \<or>
     (\<exists>m p. (m = n + 1 \<or> m = n \<and> n \<noteq> 0) \<and> babs (ns_store st) (m - 1) = Some p \<and>
       validate_block E U V (ns_store st) b p (slot_duration_secs (ns_config st)) = Inr () \<and>
       chain_ok E B babs m (ns_store st') \<and> babs (ns_store st') = (babs (ns_store st))(m \<mapsto> b) \<and>
       ns_mempool st' = mempool_remove E (map (transaction_hash E) (txs b)) (ns_mempool st) \<and>
       ns_peers st' = broadcast_except src (NewBlock b) (ns_peers st)))"
proof -
  have "handle_new_block Env src b st = (st', r)" using assms(5,6) by (simp add: dispatch_def)
  from node_backend.new_block_outcome [OF assms(1-4) this] show ?thesis by blast
qed

theorem announced_block_outcome_witness:
  "snd (dispatch (sled_node_env rbt_env ref_ext (sample_net (NewBlock sample_parent))) [] sample_addr sample_node) = Inr ()"
proof -
  obtain st' r where d: "dispatch (sled_node_env rbt_env ref_ext (sample_net (NewBlock sample_parent))) [] sample_addr
      sample_node = (st', r)" by fastforce
  then show ?thesis
    using announced_block_outcome [OF rbt_sled.is_node_backend _ _ _ _ d, of 0 sample_parent] node_sled_ok
    by (simp add: sled_node_env_def sample_net_def)
qed


text \<open>A peer set of two for the witness.\<close>

definition sample_peers :: peer_set where
  "sample_peers = [(sample_addr, []), (SocketV4 2 8333, [])]"


text \<open>
  Claim C24: catching up over gossip never works.  A node that hears of a block more than one above its
  tip asks the sender for the missing blocks; the answer, and any other \<open>Blocks\<close> message, changes nothing.
\<close>

theorem catch_up_answer_ignored:
  assumes "node_backend E B babs U uabs V vabs ok Env" and "ok (ns_store st)"
    and "chain_ok E B babs n (ns_store st)"
    and "unjson_message (ne_net Env) bytes = Inr (NewBlock b)" and "n + 1 < height (header b)" and "n \<noteq> - 1"
    and "bs_get_by_hash B (ns_store st) (hash_of_block E b) = Inr None"
    and "unjson_message (ne_net Env) answer = Inr (Blocks bs)"
  shows "dispatch Env bytes src st = (st\<lparr>ns_peers := reply src (GetBlocks (n + 1)) (ns_peers st)\<rparr>, Inr ()) \<and>
    (\<forall>st2 src2. dispatch Env answer src2 st2 = (st2, Inr ()))"
proof -
  have "n < height (header b)" using assms(5) inc_less [OF assms(6)] by (rule order.strict_trans [rotated])
  moreover obtain t where "bs_tip B (ns_store st) = Inr (Some (n, hash_of_block E t))"
    using assms(3) by (auto simp: chain_ok_def)
  ultimately show ?thesis
    using assms(4,5,7,8) node_backend.env_fields [OF assms(1)]
    by (auto simp: dispatch_def handle_new_block_def Let_def)
qed

theorem catch_up_answer_ignored_witness:
  "\<exists>Env. dispatch Env [] sample_addr sample_node =
      (sample_node\<lparr>ns_peers := reply sample_addr (GetBlocks 1) (ns_peers sample_node)\<rparr>, Inr ()) \<and>
    dispatch Env [1] sample_addr sample_node = (sample_node, Inr ())"
proof -
  let ?b = "sample_block 5 []"
  let ?N = "(sample_net GetPeers)\<lparr>unjson_message := (\<lambda>bs. if bs = [] then Inr (NewBlock ?b) else Inr (Blocks [?b]))\<rparr>"
  let ?Env = "sled_node_env rbt_env ref_ext ?N"
  have "hash_of_block ref_ext ?b \<noteq> hash_of_block ref_ext sample_parent" by code_simp
  then have "bs_get_by_hash (sled_block_store rbt_env ref_ext) node_sled (hash_of_block ref_ext ?b) = Inr None"
    by (rule sample_unseen)
  moreover have "(0 :: u64) + 1 < 5" by simp
  ultimately show ?thesis
    using catch_up_answer_ignored [OF rbt_sled.is_node_backend [of ?N], of sample_node 0 "[]" ?b "[1]" "[?b]" sample_addr]
      node_sled_ok
    by (intro exI [of _ ?Env]) (simp add: sled_node_env_def)
qed

end
