(* ===== verification/Bcc_Ibd.thy ===== *)
theory Bcc_Ibd
  imports Bcc_Gossip
begin

text \<open>
  \<open>bcc-node/src/ibd.rs\<close>: the initial block download from the bootstrap peers.  The network is the
  script of what each connection attempt yields; a script that ends early leaves the download
  waiting (\<open>None\<close>).  Against unreachable peers the download ends after its retries, from an honest
  peer it brings the node to the tip of the peer, and from a dishonest one it takes any block that
  claims height 0.
\<close>

section \<open>State and inputs\<close>

definition MAX_CONSECUTIVE_TIMEOUTS :: nat where
  "MAX_CONSECUTIVE_TIMEOUTS = 3"

definition BLOCKS_PER_REQUEST :: u64 where
  "BLOCKS_PER_REQUEST = 256"

definition MAX_IBD_RETRIES :: nat where
  "MAX_IBD_RETRIES = 5"

text \<open>The local variables of \<open>run_ibd\<close>.\<close>

record ibd_vars =
  iv_initial_from_height :: u64
  iv_from_height :: u64
  iv_peer_idx :: nat
  iv_consecutive_timeouts :: nat
  iv_retry_count :: nat

text \<open>What one turn of the inner loop meets, and how a connection attempt ends (\<open>None\<close>: refused).\<close>

datatype ibd_input =
    IbdCancelled
  | IbdSendError
  | IbdTimeout
  | IbdClosed
  | IbdFramingError string
  | IbdFrame "byte list"

type_synonym ibd_script = "ibd_input list option list"

section \<open>Applying a batch\<close>

definition ibd_block :: "'s node_env \<Rightarrow> u64 \<Rightarrow> block \<Rightarrow> 's \<Rightarrow> 's \<times> (node_error + unit)" where
  "ibd_block Env dur b s =
     (let E = ne_ext Env; h = height (header b);
          checked =
            (if 0 < h then
               (case bs_get_by_height (ne_blocks Env) s (h - 1) of
                  Inl e \<Rightarrow> Inl (NodeStore e)
                | Inr None \<Rightarrow> Inl (P2p (''IBD: parent block at height '' @ show_nat (unat (h - 1)) @ '' not found''))
                | Inr (Some parent) \<Rightarrow>
                  (case validate_block E (ne_utxo Env) (ne_validators Env) s b parent dur of
                     Inl e \<Rightarrow> Inl (Validation (''IBD: invalid block at height '' @ show_nat (unat h) @ '': '' @ show_block_error e))
                   | Inr _ \<Rightarrow> Inr ()))
             else Inr ())
      in case checked of
        Inl e \<Rightarrow> (s, Inl e)
      | Inr _ \<Rightarrow>
        (case bs_insert (ne_blocks Env) s b of
           (s1, Inl e) \<Rightarrow> (s1, Inl (NodeStore e))
         | (s1, Inr _) \<Rightarrow>
           (case us_apply_block (ne_utxo Env) s1 b of
              (s2, Inl e) \<Rightarrow> (s2, Inl (NodeStore e))
            | (s2, Inr _) \<Rightarrow> (s2, Inr ()))))"

fun ibd_batch :: "'s node_env \<Rightarrow> u64 \<Rightarrow> block list \<Rightarrow> 's \<Rightarrow> 's \<times> (node_error + unit)" where
  "ibd_batch Env dur [] s = (s, Inr ())"
| "ibd_batch Env dur (b # bs) s =
     (case ibd_block Env dur b s of
        (s1, Inl e) \<Rightarrow> (s1, Inl e)
      | (s1, Inr _) \<Rightarrow> ibd_batch Env dur bs s1)"

section \<open>The loops\<close>

text \<open>After a turn: go on with this peer, try the next one, or leave the download.\<close>

datatype ibd_next = IbdContinue | IbdNextPeer | IbdDone "node_error + unit"

definition ibd_message ::
  "'s node_env \<Rightarrow> message \<Rightarrow> ibd_vars \<Rightarrow> 's node_state \<Rightarrow> ibd_vars \<times> 's node_state \<times> ibd_next" where
  "ibd_message Env msg iv st =
     (case msg of
        Blocks bs \<Rightarrow>
          if bs = [] then (iv, st, IbdDone (Inr ()))
          else (case ibd_batch Env (slot_duration_secs (ns_config st)) bs (ns_store st) of
              (s', Inl e) \<Rightarrow> (iv, st\<lparr>ns_store := s'\<rparr>, IbdDone (Inl e))
            | (s', Inr _) \<Rightarrow>
              (iv\<lparr>iv_from_height := height (header (last bs)) + 1\<rparr>, st\<lparr>ns_store := s'\<rparr>,
               if of_nat (length bs) < BLOCKS_PER_REQUEST then IbdDone (Inr ()) else IbdContinue))
      | _ \<Rightarrow> (iv, st, IbdContinue))"

definition ibd_turn ::
  "'s node_env \<Rightarrow> ibd_input \<Rightarrow> ibd_vars \<Rightarrow> 's node_state \<Rightarrow> ibd_vars \<times> 's node_state \<times> ibd_next" where
  "ibd_turn Env inp iv st =
     (if inp = IbdCancelled then (iv, st, IbdDone (Inl Shutdown))
      else case json_message (ne_net Env) (GetBlocks (iv_from_height iv)) of
        Inl e \<Rightarrow> (iv, st, IbdDone (Inl (P2p e)))
      | Inr _ \<Rightarrow>
        (case inp of
           IbdTimeout \<Rightarrow>
             (let n = iv_consecutive_timeouts iv + 1 in
              if MAX_CONSECUTIVE_TIMEOUTS \<le> n
              then (iv\<lparr>iv_peer_idx := iv_peer_idx iv + 1, iv_consecutive_timeouts := 0\<rparr>, st, IbdNextPeer)
              else (iv\<lparr>iv_consecutive_timeouts := n\<rparr>, st, IbdContinue))
         | IbdFrame bytes \<Rightarrow>
             (let iv' = iv\<lparr>iv_consecutive_timeouts := 0\<rparr> in
              case unjson_message (ne_net Env) bytes of
                Inl _ \<Rightarrow> (iv', st, IbdContinue)
              | Inr msg \<Rightarrow> ibd_message Env msg iv' st)
         | _ \<Rightarrow> (iv\<lparr>iv_peer_idx := iv_peer_idx iv + 1\<rparr>, st, IbdNextPeer)))"

text \<open>The inner loop; \<open>None\<close> is a script that ends while the loop waits.\<close>

fun ibd_session ::
  "'s node_env \<Rightarrow> ibd_input list \<Rightarrow> ibd_vars \<Rightarrow> 's node_state \<Rightarrow> (ibd_vars \<times> 's node_state \<times> (node_error + unit) option) option" where
  "ibd_session Env [] iv st = None"
| "ibd_session Env (i # is) iv st =
     (case ibd_turn Env i iv st of
        (iv', st', IbdContinue) \<Rightarrow> ibd_session Env is iv' st'
      | (iv', st', IbdNextPeer) \<Rightarrow> Some (iv', st', None)
      | (iv', st', IbdDone r) \<Rightarrow> Some (iv', st', Some r))"

text \<open>The outer loop over the peers.\<close>

function ibd_outer ::
  "'s node_env \<Rightarrow> nat \<Rightarrow> ibd_script \<Rightarrow> ibd_vars \<Rightarrow> 's node_state \<Rightarrow> ('s node_state \<times> (node_error + unit)) option" where
  "ibd_outer Env n_peers conns iv st =
     (if n_peers \<le> iv_peer_idx iv then
        (if iv_from_height iv = iv_initial_from_height iv \<and> iv_retry_count iv < MAX_IBD_RETRIES
         then ibd_outer Env n_peers conns
                (iv\<lparr>iv_retry_count := iv_retry_count iv + 1, iv_peer_idx := 0, iv_consecutive_timeouts := 0\<rparr>) st
         else Some (st, Inr ()))
      else case conns of
        [] \<Rightarrow> None
      | None # cs \<Rightarrow> ibd_outer Env n_peers cs (iv\<lparr>iv_peer_idx := iv_peer_idx iv + 1\<rparr>) st
      | Some is # cs \<Rightarrow>
        (case ibd_session Env is iv st of
           None \<Rightarrow> None
         | Some (iv', st', None) \<Rightarrow> ibd_outer Env n_peers cs iv' st'
         | Some (iv', st', Some r) \<Rightarrow> Some (st', r)))"
  by pat_completeness auto

termination
  by (relation "measures [\<lambda>(_, _, conns, _, _). length conns, \<lambda>(_, _, _, iv, _). MAX_IBD_RETRIES - iv_retry_count iv]")
    auto

declare ibd_outer.simps [simp del]

definition run_ibd :: "'s node_env \<Rightarrow> ibd_script \<Rightarrow> 's node_state \<Rightarrow> ('s node_state \<times> (node_error + unit)) option" where
  "run_ibd Env conns st =
     (let peers = bootstrap_peers (ns_config st) in
      if peers = [] then Some (st, Inr ())
      else case bs_tip (ne_blocks Env) (ns_store st) of
        Inl e \<Rightarrow> Some (st, Inl (NodeStore e))
      | Inr t \<Rightarrow>
        (let start = (case t of Some (h, _) \<Rightarrow> h | None \<Rightarrow> 0) + 1
         in ibd_outer Env (length peers) conns
              \<lparr>iv_initial_from_height = start, iv_from_height = start, iv_peer_idx = 0,
               iv_consecutive_timeouts = 0, iv_retry_count = 0\<rparr> st))"

section \<open>Over any store\<close>

text \<open>Blocks that extend a chain one after the other, each valid in the state its predecessors leave.\<close>

fun valid_run :: "'s node_env \<Rightarrow> u64 \<Rightarrow> block \<Rightarrow> block list \<Rightarrow> 's \<Rightarrow> bool" where
  "valid_run Env dur p [] s \<longleftrightarrow> True"
| "valid_run Env dur p (b # bs) s \<longleftrightarrow>
     validate_block (ne_ext Env) (ne_utxo Env) (ne_validators Env) s b p dur = Inr () \<and>
     valid_run Env dur b bs (fst (us_apply_block (ne_utxo Env) (fst (bs_insert (ne_blocks Env) s b)) b))"

lemma height_bound:
  assumes "unat n + length (b # bs) \<le> u64_max"
  shows "n \<noteq> - 1" and "unat (n + 1 :: u64) + length bs \<le> u64_max"
proof -
  show n: "n \<noteq> - 1" using assms by auto
  show "unat (n + 1) + length bs \<le> u64_max" using assms unat_inc [OF n] by simp
qed

context node_backend
begin

lemma ibd_block_extends:
  assumes "inv s" and "chain_ok E B babs n s" and "babs s n = Some p" and "n \<noteq> - 1"
    and "validate_block E U V s b p dur = Inr ()"
  obtains s1 s' where "bs_insert B s b = (s1, Inr ())" "us_apply_block U s1 b = (s', Inr ())"
    "ibd_block Env dur b s = (s', Inr ())" "inv s'" "chain_ok E B babs (n + 1) s'" "babs s' (n + 1) = Some b"
proof -
  have h: "height (header b) = n + 1"
    using assms(5) babs_height [OF assms(1,3)] by (simp add: validate_block_accepts)
  have "0 < n + 1" using inc_less [OF assms(4)] word_zero_le order.strict_trans1 by blast
  obtain s1 s' where s: "bs_insert B s b = (s1, Inr ())" "us_apply_block U s1 b = (s', Inr ())" "inv s'"
    "chain_ok E B babs (n + 1) s'" "babs s' = (babs s)(n + 1 \<mapsto> b)"
    using insert_apply_chain [OF assms(1-3) accepted_extends [OF assms(5)] assms(4)] by blast
  moreover have "ibd_block Env dur b s = (s', Inr ())"
    using \<open>0 < n + 1\<close> s(1,2) assms(3,5) get_by_height [OF assms(1), of n] by (simp add: ibd_block_def h Let_def)
  ultimately show ?thesis using s(5) by (intro that [of s1 s']) auto
qed

lemma ibd_batch_extends:
  assumes "inv s" and "chain_ok E B babs n s" and "babs s n = Some p" and "valid_run Env dur p bs s"
    and "unat n + length bs \<le> u64_max"
  shows "\<exists>s'. ibd_batch Env dur bs s = (s', Inr ()) \<and> inv s' \<and> chain_ok E B babs (n + of_nat (length bs)) s' \<and>
    babs s' (n + of_nat (length bs)) = Some (last (p # bs))"
  using assms
proof (induction bs arbitrary: s n p)
  case (Cons b bs)
  note bound = height_bound [OF Cons.prems(5)]
  obtain s1 s2 where s: "bs_insert B s b = (s1, Inr ())" "us_apply_block U s1 b = (s2, Inr ())"
    "ibd_block Env dur b s = (s2, Inr ())" "inv s2" "chain_ok E B babs (n + 1) s2" "babs s2 (n + 1) = Some b"
    by (rule ibd_block_extends [OF Cons.prems(1-3) bound(1), of b dur]) (use Cons.prems(4) in auto)
  have "valid_run Env dur b bs s2" using Cons.prems(4) s(1,2) by simp
  from Cons.IH [OF s(4-6) this bound(2)] show ?case using s(3) by (auto simp: add.assoc)
qed simp

text \<open>A block of height 0 is stored and applied without any check.\<close>

lemma ibd_block_zero:
  assumes "inv s" and "height (header g) = 0"
  shows "\<exists>s'. ibd_block Env dur g s = (s', Inr ()) \<and> inv s' \<and> babs s' = (babs s)(0 \<mapsto> g) \<and>
    uabs s' = utxo_apply E g (uabs s)"
proof -
  obtain s1 where s1: "bs_insert B s g = (s1, Inr ())" "inv s1" "babs s1 = (babs s)(0 \<mapsto> g)"
    using insert_ok [OF assms(1), of g] by (auto simp: assms(2))
  obtain s2 where "us_apply_block U s1 g = (s2, Inr ())" "inv s2" "uabs s2 = utxo_apply E g (uabs s1)"
    using apply_ok [OF s1(2), of g] by auto
  then show ?thesis
    using s1 apply_frame [OF s1(2)] insert_frame [OF assms(1) s1(1)] by (auto simp: ibd_block_def Let_def assms(2))
qed

end

section \<open>Unreachable peers\<close>

text \<open>As many refusals as there are peers left use up a round.\<close>

lemma ibd_refused_round:
  assumes "iv_peer_idx iv + k = n_peers"
  shows "ibd_outer Env n_peers (replicate k None @ cs) iv st =
    ibd_outer Env n_peers cs (iv\<lparr>iv_peer_idx := n_peers\<rparr>) st"
  using assms
proof (induction k arbitrary: iv)
  case (Suc k)
  then have "\<not> n_peers \<le> iv_peer_idx iv" by simp
  then have "ibd_outer Env n_peers (replicate (Suc k) None @ cs) iv st =
      ibd_outer Env n_peers (replicate k None @ cs) (iv\<lparr>iv_peer_idx := iv_peer_idx iv + 1\<rparr>) st"
    by (subst ibd_outer.simps) simp
  then show ?case using Suc.IH [of "iv\<lparr>iv_peer_idx := iv_peer_idx iv + 1\<rparr>"] Suc.prems by simp
next
  case 0
  then have "iv\<lparr>iv_peer_idx := n_peers\<rparr> = iv" by (cases iv) simp
  then show ?case by simp
qed

lemma ibd_refused_rounds:
  assumes "iv_from_height iv = iv_initial_from_height iv" and "iv_peer_idx iv = n_peers"
    and "iv_retry_count iv + k = MAX_IBD_RETRIES"
  shows "ibd_outer Env n_peers (replicate (k * n_peers) None) iv st = Some (st, Inr ())"
  using assms
proof (induction k arbitrary: iv)
  case 0
  then show ?case by (subst ibd_outer.simps) simp
next
  case (Suc k)
  let ?iv = "iv\<lparr>iv_retry_count := iv_retry_count iv + 1, iv_peer_idx := 0, iv_consecutive_timeouts := 0\<rparr>"
  have r: "replicate (Suc k * n_peers) (None :: ibd_input list option) =
      replicate n_peers None @ replicate (k * n_peers) None"
    by (simp add: replicate_add)
  have "ibd_outer Env n_peers (replicate (Suc k * n_peers) None) iv st =
      ibd_outer Env n_peers (replicate (Suc k * n_peers) None) ?iv st"
    using Suc.prems by (subst ibd_outer.simps) simp
  also have "\<dots> = ibd_outer Env n_peers (replicate (k * n_peers) None) (?iv\<lparr>iv_peer_idx := n_peers\<rparr>) st"
    unfolding r by (rule ibd_refused_round) simp
  also have "\<dots> = Some (st, Inr ())" using Suc.prems by (intro Suc.IH) simp_all
  finally show ?case .
qed

section \<open>Properties\<close>

text \<open>
  The download gives up.  If every connection is refused, it ends after the first round and
  five retries over all bootstrap peers, without an error and with the state as it was.
\<close>

lemma ibd_unreachable_ends:
  assumes "bs_tip (ne_blocks Env) (ns_store st) = Inr t"
  shows "run_ibd Env (replicate ((MAX_IBD_RETRIES + 1) * length (bootstrap_peers (ns_config st))) None) st =
    Some (st, Inr ())"
proof (cases "bootstrap_peers (ns_config st) = []")
  case True
  then show ?thesis by (simp add: run_ibd_def)
next
  case False
  let ?n = "length (bootstrap_peers (ns_config st))"
  define start where "start = (case t of Some (h, _) \<Rightarrow> h | None \<Rightarrow> 0) + (1 :: u64)"
  let ?iv = "\<lparr>iv_initial_from_height = start, iv_from_height = start, iv_peer_idx = 0,
    iv_consecutive_timeouts = 0, iv_retry_count = 0\<rparr>"
  have "run_ibd Env conns st = ibd_outer Env ?n conns ?iv st" for conns
    using False assms by (simp add: run_ibd_def Let_def start_def)
  moreover have "replicate ((MAX_IBD_RETRIES + 1) * ?n) (None :: ibd_input list option) =
      replicate ?n None @ replicate (MAX_IBD_RETRIES * ?n) None"
    by (simp add: replicate_add [symmetric])
  ultimately show ?thesis
    using ibd_refused_round [of ?iv ?n ?n Env "replicate (MAX_IBD_RETRIES * ?n) None" st]
      ibd_refused_rounds [of "?iv\<lparr>iv_peer_idx := ?n\<rparr>" ?n MAX_IBD_RETRIES Env st]
    by simp
qed



text \<open>
  Claim C31: the download trusts blocks of height 0.  A bootstrap peer that answers with any block that
  claims height 0 replaces the genesis block of the node and credits every output of that block,
  without a signature, a parent or an input.
\<close>

theorem ibd_replaces_genesis:
  assumes "node_backend E B babs U uabs V vabs ok Env" and "ok (ns_store st)"
    and "bootstrap_peers (ns_config st) \<noteq> []" and "\<forall>m. \<exists>req. json_message (ne_net Env) m = Inr req"
    and "unjson_message (ne_net Env) bytes = Inr (Blocks [g])" and "height (header g) = 0"
  shows "\<exists>st'. run_ibd Env (Some [IbdFrame bytes] # conns) st = Some (st', Inr ()) \<and>
    babs (ns_store st') 0 = Some g \<and> uabs (ns_store st') = utxo_apply E g (uabs (ns_store st))"
proof -
  obtain s' where s': "ibd_block Env (slot_duration_secs (ns_config st)) g (ns_store st) = (s', Inr ())"
    "babs s' = (babs (ns_store st))(0 \<mapsto> g)" "uabs s' = utxo_apply E g (uabs (ns_store st))"
    using node_backend.ibd_block_zero [OF assms(1,2,6)] by blast
  obtain t where t: "bs_tip B (ns_store st) = Inr t"
    using block_iface.reads_ok [OF chain_store.axioms(1) [OF node_backend.axioms(1) [OF assms(1)]] assms(2)] by blast
  have "(1 :: u64) < BLOCKS_PER_REQUEST" by (simp add: BLOCKS_PER_REQUEST_def)
  moreover obtain req where "json_message (ne_net Env) (GetBlocks ((case t of Some (h, _) \<Rightarrow> h | None \<Rightarrow> 0) + 1)) = Inr req"
    using assms(4) by blast
  ultimately have "run_ibd Env (Some [IbdFrame bytes] # conns) st = Some (st\<lparr>ns_store := s'\<rparr>, Inr ())"
    using assms(3,5) s'(1) t node_backend.env_fields [OF assms(1)]
    by (simp add: run_ibd_def Let_def) (subst ibd_outer.simps, simp add: ibd_turn_def ibd_message_def Let_def)
  then show ?thesis using s' by auto
qed

theorem ibd_replaces_genesis_witness:
  "\<exists>Env st'. run_ibd Env [Some [IbdFrame []]]
      (sample_node\<lparr>ns_config := sample_config\<lparr>bootstrap_peers := [sample_addr]\<rparr>\<rparr>) = Some (st', Inr ()) \<and>
    sled_babs rbt_env ref_ext (ns_store st') 0 = Some (sample_block 0 [sample_tx 1000])"
proof -
  let ?N = "sample_net (Blocks [sample_block 0 [sample_tx 1000]])"
  let ?st = "sample_node\<lparr>ns_config := sample_config\<lparr>bootstrap_peers := [sample_addr]\<rparr>\<rparr>"
  show ?thesis
    using ibd_replaces_genesis [OF rbt_sled.is_node_backend [of ?N], of ?st "[]" "sample_block 0 [sample_tx 1000]" "[]"]
      node_sled_ok(1)
    by (simp add: sled_node_env_def sample_net_def sample_config_def) blast
qed

end
