(* ===== verification/Bcc_Genesis.thy ===== *)
theory Bcc_Genesis
  imports Bcc_Node_State
begin

text \<open>
  \<open>bcc-node/src/genesis.rs\<close>: the genesis block and the initial validators.  On an empty store
  \<open>apply_genesis\<close> starts a chain of height 0 with the configured allocations and validators; on a
  store that has a block at height 0 it does nothing, also when an earlier run failed half way.
\<close>

section \<open>Configuration\<close>

definition GENESIS_MESSAGE :: string where
  "GENESIS_MESSAGE = ''Slipping Jimmy, counselor at law.''"

record genesis_validator =
  gv_address :: string
  gv_pubkey :: string
  gv_stake :: u64

record genesis_account =
  ga_address :: string
  ga_balance :: u64

record genesis_config =
  gc_timestamp :: i64
  gc_validators :: "genesis_validator list"
  gc_accounts :: "genesis_account list"

section \<open>The genesis block\<close>

definition genesis_merkle_root :: "ext \<Rightarrow> block_hash" where
  "genesis_merkle_root E = sha256d E (str_bytes GENESIS_MESSAGE)"

definition build_genesis_block :: "ext \<Rightarrow> i64 \<Rightarrow> transaction list \<Rightarrow> block" where
  "build_genesis_block E ts alloc_txs =
     \<lparr>header = \<lparr>prev_hash = replicate 32 0, merkle_root = genesis_merkle_root E, timestamp = ts, height = 0,
        slot = 0, proposer = from_pubkey_bytes E (replicate 32 0)\<rparr>,
      block_signature = replicate 64 0, txs = alloc_txs\<rparr>"

definition allocation :: "address \<Rightarrow> u64 \<Rightarrow> transaction" where
  "allocation a n = \<lparr>tx_kind = Transfer, tx_inputs = [], tx_outputs = [\<lparr>out_amount = n, out_address = a\<rparr>]\<rparr>"

fun alloc_txs :: "genesis_account list \<Rightarrow> node_error + transaction list" where
  "alloc_txs [] = Inr []"
| "alloc_txs (entry # es) =
     (case validate_address (ga_address entry) of
        Inl e \<Rightarrow> Inl (NodeConfigErr (''genesis account address: '' @ show_address_error e))
      | Inr a \<Rightarrow> (case alloc_txs es of Inl e \<Rightarrow> Inl e | Inr ts \<Rightarrow> Inr (allocation a (ga_balance entry) # ts)))"

section \<open>\<open>apply_genesis\<close>\<close>

definition parse_validator :: "ext \<Rightarrow> genesis_validator \<Rightarrow> node_error + validator" where
  "parse_validator E entry =
     (case validate_address (gv_address entry) of
        Inl e \<Rightarrow> Inl (NodeConfigErr (''genesis validator address: '' @ show_address_error e))
      | Inr a \<Rightarrow>
        (case hex_decode E (gv_pubkey entry) of
           Inl e \<Rightarrow> Inl (NodeConfigErr (''genesis validator pubkey hex: '' @ e))
         | Inr bytes \<Rightarrow>
           if length bytes \<noteq> 32 then Inl (NodeConfigErr ''genesis validator pubkey must be 32 bytes'')
           else (case vk_from_bytes E bytes of
               Inl e \<Rightarrow> Inl (NodeConfigErr (''genesis validator pubkey: '' @ e))
             | Inr pk \<Rightarrow> Inr \<lparr>v_address = a, v_pubkey = pk, v_stake = gv_stake entry, v_active_since = 0\<rparr>)))"

fun register_validators ::
  "ext \<Rightarrow> 's validator_store \<Rightarrow> genesis_validator list \<Rightarrow> 's \<Rightarrow> 's \<times> (node_error + unit)" where
  "register_validators E V [] s = (s, Inr ())"
| "register_validators E V (entry # es) s =
     (case parse_validator E entry of
        Inl e \<Rightarrow> (s, Inl e)
      | Inr v \<Rightarrow>
        (case vs_upsert V s v of
           (s1, Inl e) \<Rightarrow> (s1, Inl (NodeStore e))
         | (s1, Inr _) \<Rightarrow> register_validators E V es s1))"

definition apply_genesis ::
  "ext \<Rightarrow> 's block_store \<Rightarrow> 's utxo_store \<Rightarrow> 's validator_store \<Rightarrow> genesis_config \<Rightarrow> 's \<Rightarrow>
   's \<times> (node_error + unit)" where
  "apply_genesis E B U V cfg s =
     (case bs_get_by_height B s 0 of
        Inl e \<Rightarrow> (s, Inl (NodeStore e))
      | Inr (Some _) \<Rightarrow> (s, Inr ())
      | Inr None \<Rightarrow>
        (case alloc_txs (gc_accounts cfg) of
           Inl e \<Rightarrow> (s, Inl e)
         | Inr ts \<Rightarrow>
           (let genesis = build_genesis_block E (gc_timestamp cfg) ts in
            case bs_insert B s genesis of
              (s1, Inl e) \<Rightarrow> (s1, Inl (NodeStore e))
            | (s1, Inr _) \<Rightarrow>
              (case us_apply_block U s1 genesis of
                 (s2, Inl e) \<Rightarrow> (s2, Inl (NodeStore e))
               | (s2, Inr _) \<Rightarrow> register_validators E V (gc_validators cfg) s2))))"

section \<open>Over any store\<close>

lemma genesis_height [simp]: "height (header (build_genesis_block E t ts)) = 0" "txs (build_genesis_block E t ts) = ts"
  by (simp_all add: build_genesis_block_def)

context chain_store
begin

text \<open>Registration touches the validators only.\<close>

lemma register_frame:
  assumes "inv s" and "register_validators E V es s = (s', r)"
  shows "inv s' \<and> babs s' = babs s \<and> uabs s' = uabs s \<and> bs_tip B s' = bs_tip B s"
  using assms
proof (induction es arbitrary: s)
  case (Cons e es)
  show ?case
  proof (cases "parse_validator E e")
    case (Inr v)
    obtain s1 q where u: "vs_upsert V s v = (s1, q)" by fastforce
    have "inv s1"
      using upsert_ok [OF Cons.prems(1), of v] upsert_mismatch [of v s] u Cons.prems(1)
      by (cases "v_address v = from_pubkey_bytes E (v_pubkey v)") auto
    then show ?thesis
      using Cons.prems(2) Cons.IH [of s1] upsert_frame [OF Cons.prems(1) u] u Inr by (auto split: sum.splits)
  qed (use Cons.prems in auto)
qed simp

lemma genesis_block_stored:
  assumes "inv s" and "babs s = Map.empty" and "alloc_txs (gc_accounts cfg) = Inr ts"
  obtains s1 s2 where "bs_insert B s (build_genesis_block E (gc_timestamp cfg) ts) = (s1, Inr ())"
    "us_apply_block U s1 (build_genesis_block E (gc_timestamp cfg) ts) = (s2, Inr ())"
    "inv s2" "babs s2 = [0 \<mapsto> build_genesis_block E (gc_timestamp cfg) ts]"
    "uabs s2 = utxo_apply E (build_genesis_block E (gc_timestamp cfg) ts) (uabs s)" "vabs s2 = vabs s"
    "bs_tip B s2 = Inr (Some (0, hash_of_block E (build_genesis_block E (gc_timestamp cfg) ts)))"
    "apply_genesis E B U V cfg s = register_validators E V (gc_validators cfg) s2"
proof -
  let ?g = "build_genesis_block E (gc_timestamp cfg) ts"
  obtain s1 where s1: "bs_insert B s ?g = (s1, Inr ())" "inv s1" "babs s1 = [0 \<mapsto> ?g]"
    using insert_ok [OF assms(1), of ?g] assms(2) by auto
  obtain s2 where s2: "us_apply_block U s1 ?g = (s2, Inr ())" "inv s2" "uabs s2 = utxo_apply E ?g (uabs s1)"
    using apply_ok [OF s1(2), of ?g] by auto
  have "bs_tip B s1 = Inr (Some (0, hash_of_block E ?g))"
    using tip_insert [OF assms(1) s1(1)] assms(2) by simp
  then show ?thesis
    using s1 s2 assms apply_frame [OF s1(2) s2(1)] apply_tip [OF s1(2) s2(1)] insert_frame [OF assms(1) s1(1)]
      get_by_height [OF assms(1), of 0]
    by (intro that [of s1 s2]) (simp_all add: apply_genesis_def)
qed

text \<open>After a run that passed the accounts, the store has a genesis block, whatever came of the rest.\<close>

lemma genesis_run:
  assumes "inv s" and "babs s = Map.empty" and "alloc_txs (gc_accounts cfg) = Inr ts"
    and "apply_genesis E B U V cfg s = (s', r)"
  shows "inv s' \<and> chain_ok E B babs 0 s' \<and> babs s' = [0 \<mapsto> build_genesis_block E (gc_timestamp cfg) ts] \<and>
    uabs s' = utxo_apply E (build_genesis_block E (gc_timestamp cfg) ts) (uabs s)"
proof -
  obtain s1 s2 where s2: "inv s2" "babs s2 = [0 \<mapsto> build_genesis_block E (gc_timestamp cfg) ts]"
    "uabs s2 = utxo_apply E (build_genesis_block E (gc_timestamp cfg) ts) (uabs s)"
    "bs_tip B s2 = Inr (Some (0, hash_of_block E (build_genesis_block E (gc_timestamp cfg) ts)))"
    "apply_genesis E B U V cfg s = register_validators E V (gc_validators cfg) s2"
    by (rule genesis_block_stored [OF assms(1-3)])
  have "register_validators E V (gc_validators cfg) s2 = (s', r)" using s2(5) assms(4) by simp
  note fr = register_frame [OF s2(1) this]
  moreover have "h \<le> 0 \<longleftrightarrow> h = 0" for h :: u64 by simp
  ultimately show ?thesis using s2(2-4) by (auto simp: chain_ok_def chain_to_def)
qed

text \<open>A registration without error leaves every configured validator in the registry.\<close>

lemma register_all:
  assumes "inv s" and "register_validators E V es s = (s', Inr ())"
  shows "dom (vabs s) \<subseteq> dom (vabs s') \<and> (\<forall>e \<in> set es. \<exists>v. parse_validator E e = Inr v \<and> v_address v \<in> dom (vabs s'))"
  using assms
proof (induction es arbitrary: s)
  case (Cons e es)
  obtain v where v: "parse_validator E e = Inr v" using Cons.prems(2) by (auto split: sum.splits)
  obtain s1 q where u: "vs_upsert V s v = (s1, q)" by fastforce
  then have ok: "v_address v = from_pubkey_bytes E (v_pubkey v)"
    using Cons.prems(2) v upsert_mismatch [of v s] by (cases "v_address v = from_pubkey_bytes E (v_pubkey v)") auto
  obtain s1' where s1': "vs_upsert V s v = (s1', Inr ())" "inv s1'" "vabs s1' = (vabs s)(v_address v \<mapsto> v)"
    using upsert_ok [OF Cons.prems(1) ok] by blast
  then have s1: "inv s1" "vabs s1 = (vabs s)(v_address v \<mapsto> v)" "q = Inr ()" using u by simp_all
  have "register_validators E V es s1 = (s', Inr ())" using Cons.prems(2) v u s1(3) by simp
  note ih = Cons.IH [OF s1(1) this]
  moreover have "dom (vabs s1) = insert (v_address v) (dom (vabs s))" by (simp add: s1(2) del: fun_upd_apply)
  ultimately show ?case using v by simp
qed simp

lemma genesis_idempotent: "inv s \<Longrightarrow> babs s 0 = Some b \<Longrightarrow> apply_genesis E B U V cfg s = (s, Inr ())"
  by (simp add: apply_genesis_def get_by_height)

end

section \<open>Properties\<close>

text \<open>
  Claim C27: a successful genesis on an empty store starts a chain: the genesis block is the tip at
  height 0, its allocations are the unspent outputs added, every configured validator is registered,
  and running it again changes nothing.
\<close>

theorem genesis_starts_chain:
  assumes "chain_store E B babs U uabs V vabs ok" and "ok s" and "babs s = Map.empty"
    and "apply_genesis E B U V cfg s = (s', Inr ())"
  shows "\<exists>ts. alloc_txs (gc_accounts cfg) = Inr ts \<and> ok s' \<and> chain_ok E B babs 0 s' \<and>
    babs s' = [0 \<mapsto> build_genesis_block E (gc_timestamp cfg) ts] \<and>
    uabs s' = utxo_apply E (build_genesis_block E (gc_timestamp cfg) ts) (uabs s) \<and>
    (\<forall>e \<in> set (gc_validators cfg). \<exists>v. parse_validator E e = Inr v \<and> v_address v \<in> dom (vabs s')) \<and>
    apply_genesis E B U V cfg s' = (s', Inr ())"
proof -
  have g0: "bs_get_by_height B s 0 = Inr None"
    using block_iface.get_by_height [OF chain_store.axioms(1) [OF assms(1)] assms(2)] assms(3) by simp
  then obtain ts where ts: "alloc_txs (gc_accounts cfg) = Inr ts"
    using assms(4) by (auto simp: apply_genesis_def split: sum.splits)
  obtain s1 s2 where "ok s2" "apply_genesis E B U V cfg s = register_validators E V (gc_validators cfg) s2"
    by (rule chain_store.genesis_block_stored [OF assms(1-3) ts])
  then have "\<forall>e \<in> set (gc_validators cfg). \<exists>v. parse_validator E e = Inr v \<and> v_address v \<in> dom (vabs s')"
    using chain_store.register_all [OF assms(1)] assms(4) by metis
  with chain_store.genesis_run [OF assms(1-3) ts assms(4)] chain_store.genesis_idempotent [OF assms(1)]
  show ?thesis using ts by auto
qed

definition sample_genesis :: "genesis_validator list \<Rightarrow> genesis_config" where
  "sample_genesis vs = \<lparr>gc_timestamp = 7, gc_validators = vs, gc_accounts = []\<rparr>"

theorem genesis_starts_chain_witness:
  "\<exists>s'. apply_genesis ref_ext (sled_block_store rbt_env ref_ext) (sled_utxo_store rbt_env ref_ext)
      (sled_validator_store rbt_env ref_ext) (sample_genesis []) (sled_new_temporary rbt_env) = (s', Inr ()) \<and>
    chain_ok ref_ext (sled_block_store rbt_env ref_ext) (sled_babs rbt_env ref_ext) 0 s'"
proof -
  obtain s1 s2 where "apply_genesis ref_ext (sled_block_store rbt_env ref_ext) (sled_utxo_store rbt_env ref_ext)
      (sled_validator_store rbt_env ref_ext) (sample_genesis []) (sled_new_temporary rbt_env) =
      register_validators ref_ext (sled_validator_store rbt_env ref_ext) (gc_validators (sample_genesis [])) s2"
    by (rule rbt_sled.genesis_block_stored [OF rbt_new(1) rbt_new(3), of "sample_genesis []" "[]"])
      (simp_all add: sample_genesis_def)
  then have "apply_genesis ref_ext (sled_block_store rbt_env ref_ext) (sled_utxo_store rbt_env ref_ext)
      (sled_validator_store rbt_env ref_ext) (sample_genesis []) (sled_new_temporary rbt_env) = (s2, Inr ())"
    by (simp add: sample_genesis_def)
  with genesis_starts_chain [OF rbt_sled.is_chain_store rbt_new(1) rbt_new(3) this] show ?thesis by blast
qed

text \<open>
  Claim C28: a genesis that fails at a validator cannot be repaired.  The block is stored before the
  validators are read, so when the first entry is malformed the call reports the error and registers
  nobody, and every later call, with whatever configuration, succeeds without doing anything.
\<close>

theorem genesis_failure_sticks:
  assumes "chain_store E B babs U uabs V vabs ok" and "ok s" and "babs s = Map.empty"
    and "alloc_txs (gc_accounts cfg) = Inr ts" and "gc_validators cfg = entry # es"
    and "parse_validator E entry = Inl e"
  shows "\<exists>s'. apply_genesis E B U V cfg s = (s', Inl e) \<and> vabs s' = vabs s \<and>
    (\<forall>cfg'. apply_genesis E B U V cfg' s' = (s', Inr ()))"
proof -
  obtain s1 s2 where s2: "ok s2" "babs s2 = [0 \<mapsto> build_genesis_block E (gc_timestamp cfg) ts]" "vabs s2 = vabs s"
    "apply_genesis E B U V cfg s = register_validators E V (gc_validators cfg) s2"
    by (rule chain_store.genesis_block_stored [OF assms(1-4)])
  then show ?thesis
    using chain_store.genesis_idempotent [OF assms(1) s2(1)] assms(5,6) by (intro exI [of _ s2]) auto
qed

theorem genesis_failure_sticks_witness:
  "\<exists>s' e. apply_genesis ref_ext (sled_block_store rbt_env ref_ext) (sled_utxo_store rbt_env ref_ext)
      (sled_validator_store rbt_env ref_ext)
      (sample_genesis [\<lparr>gv_address = ''nobody'', gv_pubkey = ''00'', gv_stake = 1\<rparr>])
      (sled_new_temporary rbt_env) = (s', Inl e) \<and> sled_vabs rbt_env ref_ext s' = Map.empty"
proof -
  let ?g = "\<lparr>gv_address = ''nobody'', gv_pubkey = ''00'', gv_stake = 1\<rparr>"
  have "validate_address ''nobody'' = Inl InvalidPrefix" by (simp add: validate_address_def PREFIX_def)
  then have "parse_validator ref_ext ?g =
      Inl (NodeConfigErr (''genesis validator address: '' @ show_address_error InvalidPrefix))"
    by (simp only: parse_validator_def genesis_validator.simps sum.case)
  from genesis_failure_sticks [OF rbt_sled.is_chain_store rbt_new(1) rbt_new(3), of "sample_genesis [?g]" "[]" ?g "[]", OF _ _ this]
  show ?thesis by (auto simp: sample_genesis_def rbt_new)
qed

text \<open>
  Equal allocations collapse.  Two genesis accounts with the same address and balance give
  transactions with the same hash, hence one unspent output: the supply is one balance, not two.
\<close>

lemma genesis_duplicate_account_lost:
  assumes "chain_store E B babs U uabs V vabs ok" and "ok s" and "babs s = Map.empty" and "uabs s = Map.empty"
    and "gc_accounts cfg = [\<lparr>ga_address = a, ga_balance = n\<rparr>, \<lparr>ga_address = a, ga_balance = n\<rparr>]"
    and "validate_address a = Inr addr" and "apply_genesis E B U V cfg s = (s', r)"
  shows "total_supply (uabs s') = unat n"
proof -
  let ?tx = "allocation addr n"
  have "alloc_txs (gc_accounts cfg) = Inr [?tx, ?tx]" using assms(5,6) by simp
  from chain_store.genesis_run [OF assms(1-3) this assms(7)]
  have "uabs s' = [out_ref_at E ?tx 0 \<mapsto> \<lparr>out_amount = n, out_address = addr\<rparr>]"
    using assms(4) by (simp add: utxo_apply_def utxo_apply_tx_def tx_refs_def tx_created_def allocation_def)
  then show ?thesis by (simp add: total_supply_def amount_at_def)
qed

end
