(* ===== verification/Bcc_Start.thy ===== *)
theory Bcc_Start
  imports Bcc_Ibd Bcc_Genesis
begin

text \<open>
  The start of a node in \<open>bcc-node/src/main.rs\<close>: genesis, the shared state and the initial block
  download.  The download checks every block against its parent but not that the blocks are those it
  asked for; when they are, a start that succeeds leaves a well-formed chain.
\<close>

definition node_starting :: "'s node_env \<Rightarrow> node_config \<Rightarrow> debug_event" where
  "node_starting Env cfg = NodeStarting (as_str (my_address cfg)) (show_addr (ne_net Env) (http_addr cfg))
     (show_addr (ne_net Env) (listen_addr cfg))"

text \<open>The state the download starts from.\<close>

definition boot_state :: "'s node_env \<Rightarrow> node_config \<Rightarrow> 's \<Rightarrow> 's node_state" where
  "boot_state Env cfg s = emit (node_starting Env cfg) (node_state_new s cfg)"

text \<open>A failed start leaves the store and the error; \<open>None\<close> is a download still waiting for its peers.\<close>

definition boot ::
  "'s node_env \<Rightarrow> genesis_config \<Rightarrow> node_config \<Rightarrow> ibd_script \<Rightarrow> 's \<Rightarrow> ('s \<times> node_error + 's node_state) option" where
  "boot Env g cfg conns s =
     (case apply_genesis (ne_ext Env) (ne_blocks Env) (ne_utxo Env) (ne_validators Env) g s of
        (s', Inl e) \<Rightarrow> Some (Inl (s', e))
      | (s', Inr _) \<Rightarrow>
        (case run_ibd Env conns (boot_state Env cfg s') of
           None \<Rightarrow> None
         | Some (st, Inl e) \<Rightarrow> Some (Inl (ns_store st, e))
         | Some (st, Inr _) \<Rightarrow> Some (Inr st)))"

section \<open>Downloads in order\<close>

text \<open>A condition on every turn of a download, along the states the turns go through.\<close>

fun session_all ::
  "(ibd_input \<Rightarrow> ibd_vars \<Rightarrow> bool) \<Rightarrow> 's node_env \<Rightarrow> ibd_input list \<Rightarrow> ibd_vars \<Rightarrow> 's node_state \<Rightarrow> bool" where
  "session_all Q Env [] iv st \<longleftrightarrow> True"
| "session_all Q Env (i # is) iv st \<longleftrightarrow> Q i iv \<and>
     (case ibd_turn Env i iv st of (iv', st', IbdContinue) \<Rightarrow> session_all Q Env is iv' st' | _ \<Rightarrow> True)"

function download_all ::
  "(ibd_input \<Rightarrow> ibd_vars \<Rightarrow> bool) \<Rightarrow> 's node_env \<Rightarrow> nat \<Rightarrow> ibd_script \<Rightarrow> ibd_vars \<Rightarrow> 's node_state \<Rightarrow> bool" where
  "download_all Q Env n_peers conns iv st \<longleftrightarrow>
     (if n_peers \<le> iv_peer_idx iv then
        (if iv_from_height iv = iv_initial_from_height iv \<and> iv_retry_count iv < MAX_IBD_RETRIES
         then download_all Q Env n_peers conns
                (iv\<lparr>iv_retry_count := iv_retry_count iv + 1, iv_peer_idx := 0, iv_consecutive_timeouts := 0\<rparr>) st
         else True)
      else case conns of
        [] \<Rightarrow> True
      | None # cs \<Rightarrow> download_all Q Env n_peers cs (iv\<lparr>iv_peer_idx := iv_peer_idx iv + 1\<rparr>) st
      | Some is # cs \<Rightarrow> session_all Q Env is iv st \<and>
        (case ibd_session Env is iv st of
           Some (iv', st', None) \<Rightarrow> download_all Q Env n_peers cs iv' st'
         | _ \<Rightarrow> True))"
  by pat_completeness auto

termination
  by (relation "measures [\<lambda>(_, _, _, conns, _, _). length conns, \<lambda>(_, _, _, _, iv, _). MAX_IBD_RETRIES - iv_retry_count iv]")
    auto

declare download_all.simps [simp del]

text \<open>Blocks of consecutive heights, and batches that start at the height that was requested.\<close>

fun consecutive :: "u64 \<Rightarrow> block list \<Rightarrow> bool" where
  "consecutive h [] \<longleftrightarrow> True"
| "consecutive h (b # bs) \<longleftrightarrow> 0 < h \<and> height (header b) = h \<and> consecutive (h + 1) bs"

definition answers :: "'s node_env \<Rightarrow> ibd_input \<Rightarrow> ibd_vars \<Rightarrow> bool" where
  "answers Env i iv \<longleftrightarrow>
     (case i of
        IbdFrame bytes \<Rightarrow>
          (case unjson_message (ne_net Env) bytes of Inr (Blocks bs) \<Rightarrow> consecutive (iv_from_height iv) bs | _ \<Rightarrow> True)
      | _ \<Rightarrow> True)"

definition answered :: "'s node_env \<Rightarrow> ibd_script \<Rightarrow> 's node_state \<Rightarrow> bool" where
  "answered Env conns st \<longleftrightarrow>
     (\<forall>h hash. bs_tip (ne_blocks Env) (ns_store st) = Inr (Some (h, hash)) \<longrightarrow>
        download_all (answers Env) Env (length (bootstrap_peers (ns_config st))) conns
          \<lparr>iv_initial_from_height = h + 1, iv_from_height = h + 1, iv_peer_idx = 0,
           iv_consecutive_timeouts = 0, iv_retry_count = 0\<rparr> st)"

lemma download_all_empty: "download_all Q Env k [] iv st"
proof (induction iv rule: measure_induct_rule [where f = "\<lambda>iv. MAX_IBD_RETRIES - iv_retry_count iv"])
  case (less iv)
  let ?iv = "iv\<lparr>iv_retry_count := iv_retry_count iv + 1, iv_peer_idx := 0, iv_consecutive_timeouts := 0\<rparr>"
  show ?case using less.IH [of ?iv] by (subst download_all.simps) auto
qed

lemma answered_empty [simp]: "answered Env [] st"
  by (simp add: answered_def download_all_empty)

lemma consecutive_last: "consecutive h bs \<Longrightarrow> bs \<noteq> [] \<Longrightarrow> height (header (last bs)) + 1 = h + of_nat (length bs)"
  by (induction h bs rule: consecutive.induct) auto

context node_backend
begin

lemma ibd_block_ok:
  assumes "inv s" and "chain_ok E B babs n s" and "height (header b) = n + 1" and "0 < n + 1"
    and "ibd_block Env dur b s = (s', Inr ())"
  shows "inv s' \<and> chain_ok E B babs (n + 1) s'"
proof -
  obtain p where p: "babs s n = Some p" using assms(2) by (auto simp: chain_ok_def)
  have n: "n \<noteq> - 1" using assms(4) by auto
  have v: "validate_block E U V s b p dur = Inr ()"
    using assms(3-5) p get_by_height [OF assms(1), of n]
    by (auto simp: ibd_block_def Let_def split: sum.splits)
  obtain s1 s2 where "ibd_block Env dur b s = (s2, Inr ())" "inv s2" "chain_ok E B babs (n + 1) s2"
    by (rule ibd_block_extends [OF assms(1,2) p n v])
  then show ?thesis using assms(5) by simp
qed

lemma ibd_batch_ok:
  assumes "inv s" and "chain_ok E B babs n s" and "consecutive (n + 1) bs" and "ibd_batch Env dur bs s = (s', Inr ())"
  shows "inv s' \<and> chain_ok E B babs (n + of_nat (length bs)) s'"
  using assms
proof (induction bs arbitrary: s n)
  case (Cons b bs)
  then obtain s1 where s1: "ibd_block Env dur b s = (s1, Inr ())" "ibd_batch Env dur bs s1 = (s', Inr ())"
    by (auto split: prod.splits sum.splits)
  have "inv s1 \<and> chain_ok E B babs (n + 1) s1" using Cons.prems s1(1) by (intro ibd_block_ok [of s n b dur]) auto
  then show ?case using Cons.IH [of s1 "n + 1"] Cons.prems(3) s1(2) by (simp add: add.assoc)
qed auto

text \<open>The invariant of a download: the next height to ask for follows the tip.\<close>

definition syncing :: "ibd_vars \<Rightarrow> 's node_state \<Rightarrow> bool" where
  "syncing iv st \<longleftrightarrow> (\<exists>n. node_ok E B babs inv n st \<and> iv_from_height iv = n + 1)"

lemma syncing_vars [simp]:
  "syncing (iv\<lparr>iv_peer_idx := i\<rparr>) st \<longleftrightarrow> syncing iv st"
  "syncing (iv\<lparr>iv_consecutive_timeouts := i\<rparr>) st \<longleftrightarrow> syncing iv st"
  "syncing (iv\<lparr>iv_retry_count := i\<rparr>) st \<longleftrightarrow> syncing iv st"
  by (simp_all add: syncing_def)

lemma ibd_message_syncing:
  assumes "syncing iv st" and "\<And>bs. msg = Blocks bs \<Longrightarrow> consecutive (iv_from_height iv) bs"
    and "ibd_message Env msg iv st = (iv', st', r)" and "\<And>e. r \<noteq> IbdDone (Inl e)"
  shows "syncing iv' st'"
proof (cases "\<exists>bs. msg = Blocks bs \<and> bs \<noteq> []")
  case False
  then have "iv' = iv \<and> st' = st" using assms(3) by (cases msg) (auto simp: ibd_message_def)
  then show ?thesis using assms(1) by simp
next
  case True
  then obtain bs where bs: "msg = Blocks bs" "bs \<noteq> []" by blast
  obtain n where n: "node_ok E B babs inv n st" "iv_from_height iv = n + 1" using assms(1) by (auto simp: syncing_def)
  obtain s' r' where b: "ibd_batch Env (slot_duration_secs (ns_config st)) bs (ns_store st) = (s', r')"
    by fastforce
  have c: "consecutive (n + 1) bs" using assms(2) [OF bs(1)] n(2) by simp
  have r': "r' = Inr ()" using assms(3,4) bs b by (cases r') (auto simp: ibd_message_def)
  have "inv s' \<and> chain_ok E B babs (n + of_nat (length bs)) s'"
    using n(1) b r' c by (intro ibd_batch_ok [of "ns_store st" n bs "slot_duration_secs (ns_config st)"]) (auto simp: node_ok_def)
  moreover have "iv' = iv\<lparr>iv_from_height := height (header (last bs)) + 1\<rparr>" "st' = st\<lparr>ns_store := s'\<rparr>"
    using assms(3) bs b r' by (auto simp: ibd_message_def)
  ultimately show ?thesis
    using n(1) consecutive_last [OF c bs(2)]
    by (auto simp: syncing_def node_ok_def intro!: exI [of _ "n + of_nat (length bs)"])
qed

lemma ibd_turn_syncing:
  assumes "syncing iv st" and "answers Env i iv" and "ibd_turn Env i iv st = (iv', st', r)"
    and "\<And>e. r \<noteq> IbdDone (Inl e)"
  shows "syncing iv' st'"
proof (cases "\<exists>bytes msg. i = IbdFrame bytes \<and> unjson_message (ne_net Env) bytes = Inr msg")
  case True
  then obtain bytes msg where "i = IbdFrame bytes" "unjson_message (ne_net Env) bytes = Inr msg" by blast
  moreover from this have "ibd_message Env msg (iv\<lparr>iv_consecutive_timeouts := 0\<rparr>) st = (iv', st', r)"
    using assms(3,4) by (auto simp: ibd_turn_def split: sum.splits)
  ultimately show ?thesis using assms(1,2,4)
    by (intro ibd_message_syncing [of "iv\<lparr>iv_consecutive_timeouts := 0\<rparr>" st msg iv' st' r]) (auto simp: answers_def)
next
  case False
  then show ?thesis using assms(1,3,4) by (auto simp: ibd_turn_def Let_def split: ibd_input.splits sum.splits if_splits)
qed

lemma ibd_session_syncing:
  assumes "syncing iv st" and "session_all (answers Env) Env is iv st"
    and "ibd_session Env is iv st = Some (iv', st', r)" and "\<And>e. r \<noteq> Some (Inl e)"
  shows "syncing iv' st'"
  using assms(1-3)
proof (induction "is" arbitrary: iv st)
  case (Cons i "is")
  obtain iv1 st1 r1 where t: "ibd_turn Env i iv st = (iv1, st1, r1)" by (cases "ibd_turn Env i iv st") auto
  have "r1 \<noteq> IbdDone (Inl e)" for e using Cons.prems(3) assms(4) [of e] t by auto
  then have "syncing iv1 st1" using Cons.prems(1,2) by (intro ibd_turn_syncing [OF _ _ t]) auto
  then show ?case using Cons t by (cases r1) auto
qed simp

lemma ibd_outer_syncing:
  assumes "Env0 = Env" and "syncing iv st" and "download_all (answers Env0) Env0 k conns iv st"
    and "ibd_outer Env0 k conns iv st = Some (st', Inr ())"
  shows "\<exists>iv'. syncing iv' st'"
  using assms
proof (induction Env0 k conns iv st rule: ibd_outer.induct)
  case (1 Env0 k conns iv st)
  note unfold = ibd_outer.simps [of Env0 k conns iv st] download_all.simps [of "answers Env0" Env0 k conns iv st]
  show ?case
  proof (cases "k \<le> iv_peer_idx iv")
    case True
    then show ?thesis
      using "1.IH"(1) "1.prems" unfold by (auto split: if_splits)
  next
    case False
    show ?thesis
    proof (cases conns)
      case Nil
      then show ?thesis using False "1.prems" unfold by simp
    next
      case (Cons c cs)
      show ?thesis
      proof (cases c)
        case None
        then show ?thesis using False Cons "1.IH"(2) "1.prems" unfold by simp
      next
        case (Some "is")
        obtain iv1 st1 r where r: "ibd_session Env0 is iv st = Some (iv1, st1, r)"
          using False Cons Some "1.prems"(4) unfold by (auto split: option.splits)
        have "r \<noteq> Some (Inl e)" for e using r False Cons Some "1.prems"(4) unfold by auto
        then have s1: "syncing iv1 st1"
          using r False Cons Some "1.prems" unfold by (intro ibd_session_syncing [of iv st "is" iv1 st1 r]) auto
        show ?thesis
        proof (cases r)
          case None
          then show ?thesis using "1.IH"(3) [OF False Cons Some r] r s1 False Cons Some "1.prems" unfold by simp
        next
          case (Some x)
          then show ?thesis using r s1 False Cons \<open>c = Some is\<close> "1.prems" unfold by auto
        qed
      qed
    qed
  qed
qed

lemma run_ibd_ok:
  assumes "node_ok E B babs inv n st" and "answered Env conns st" and "run_ibd Env conns st = Some (st', Inr ())"
  shows "\<exists>m. node_ok E B babs inv m st'"
proof (cases "bootstrap_peers (ns_config st) = []")
  case True
  then show ?thesis using assms by (auto simp: run_ibd_def)
next
  case False
  obtain b where tip: "bs_tip B (ns_store st) = Inr (Some (n, hash_of_block E b))"
    using assms(1) by (auto simp: node_ok_def chain_ok_def)
  let ?iv = "\<lparr>iv_initial_from_height = n + 1, iv_from_height = n + 1, iv_peer_idx = 0,
    iv_consecutive_timeouts = 0, iv_retry_count = 0\<rparr>"
  have "syncing ?iv st" using assms(1) by (auto simp: syncing_def)
  moreover have "download_all (answers Env) Env (length (bootstrap_peers (ns_config st))) conns ?iv st"
    using assms(2) tip by (simp add: answered_def)
  moreover have "ibd_outer Env (length (bootstrap_peers (ns_config st))) conns ?iv st = Some (st', Inr ())"
    using assms(3) False tip by (simp add: run_ibd_def Let_def)
  ultimately obtain iv' where "syncing iv' st'" using ibd_outer_syncing [OF refl] by blast
  then show ?thesis by (auto simp: syncing_def)
qed

lemma boot_ok:
  assumes "inv s" and "babs s = Map.empty" and "boot Env g cfg conns s = Some (Inr st)"
    and "answered Env conns (boot_state Env cfg (fst (apply_genesis E B U V g s)))"
  shows "\<exists>n. node_ok E B babs inv n st"
proof -
  have "bs_get_by_height B s 0 = Inr None" using get_by_height [OF assms(1)] assms(2) by simp
  obtain s' where g: "apply_genesis E B U V g s = (s', Inr ())"
    and r: "run_ibd Env conns (boot_state Env cfg s') = Some (st, Inr ())"
    using assms(3) by (auto simp: boot_def split: prod.splits sum.splits option.splits)
  obtain ts where "alloc_txs (gc_accounts g) = Inr ts"
    using g \<open>bs_get_by_height B s 0 = Inr None\<close> by (auto simp: apply_genesis_def split: sum.splits)
  from genesis_run [OF assms(1,2) this g]
  have "node_ok E B babs inv 0 (boot_state Env cfg s')"
    by (simp add: node_ok_def boot_state_def node_state_new_def emit_def mempool_new_def pool_inv_def peers_ok_def)
  from run_ibd_ok [OF this _ r] show ?thesis using assms(4) g by simp
qed

end

end
