(* ===== verification/Bcc_Wallet.thy ===== *)
theory Bcc_Wallet
  imports Bcc_Mempool
begin

text \<open>
  The wallet of \<open>bcc-client\<close>: \<open>error.rs\<close>, the response types of \<open>rpc.rs\<close>, coin selection and
  transaction construction (\<open>wallet.rs\<close>) and the splitting of an output (\<open>split.rs\<close>).  Calls to
  the node are parameters.  A transfer built from the node's own list of unspent outputs passes
  \<open>validate_transaction\<close>; the splitting loop ends and keeps the total value.
\<close>

section \<open>Errors and responses\<close>

datatype client_error =
    KeystoreIo string
  | KeystoreParse string
  | WrongPassphrase
  | PassphraseMismatch
  | Rpc string
  | NodeErrorResponse "16 word" string
  | ClientAddress address_error
  | ClientInsufficientFunds u64 u64
  | ClientSerialization string
  | ClientHex string
  | KeystoreExists string
  | ClientConfigErr string

fun show_client_error :: "client_error \<Rightarrow> string" where
  "show_client_error (KeystoreIo m) = ''keystore I/O: '' @ m"
| "show_client_error (KeystoreParse m) = ''keystore parse: '' @ m"
| "show_client_error WrongPassphrase = ''wrong passphrase or corrupted keystore''"
| "show_client_error PassphraseMismatch = ''passphrases do not match''"
| "show_client_error (Rpc m) = ''RPC error: '' @ m"
| "show_client_error (NodeErrorResponse st body) = ''node returned HTTP '' @ show_nat (unat st) @ '': '' @ body"
| "show_client_error (ClientAddress e) = ''invalid address: '' @ show_address_error e"
| "show_client_error (ClientInsufficientFunds have need) =
     ''insufficient funds: have '' @ show_nat (unat have) @ '', need '' @ show_nat (unat need)"
| "show_client_error (ClientSerialization m) = ''serialization: '' @ m"
| "show_client_error (ClientHex m) = ''hex decode: '' @ m"
| "show_client_error (KeystoreExists p) = ''keystore already exists at '' @ p"
| "show_client_error (ClientConfigErr m) = ''config: '' @ m"

record utxo_item =
  ui_tx_hash :: string
  ui_index :: u32
  ui_amount :: u64

section \<open>Coin selection\<close>

record coin_selection =
  selected :: "utxo_item list"
  sel_total :: u64

text \<open>The loop over the sorted list; \<open>None\<close> when it runs out of outputs.\<close>

fun select_loop :: "u64 \<Rightarrow> utxo_item list \<Rightarrow> u64 \<Rightarrow> utxo_item list \<Rightarrow> coin_selection option" where
  "select_loop target sel tot [] = None"
| "select_loop target sel tot (u # us) =
     (let sel' = sel @ [u]; tot' = saturating_add tot (ui_amount u)
      in if target \<le> tot' then Some \<lparr>selected = sel', sel_total = tot'\<rparr> else select_loop target sel' tot' us)"

text \<open>\<open>tie\<close> is the order in which \<open>sort_unstable_by_key\<close> leaves outputs of equal amount.\<close>

definition select_coins ::
  "(utxo_item list \<Rightarrow> utxo_item list) \<Rightarrow> utxo_item list \<Rightarrow> u64 \<Rightarrow> client_error + coin_selection" where
  "select_coins tie utxos target =
     (let sorted = sort_key ui_amount (tie utxos)
      in case select_loop target [] 0 sorted of
        Some c \<Rightarrow> Inr c
      | None \<Rightarrow> Inl (ClientInsufficientFunds (sum_list (map ui_amount utxos)) target))"

section \<open>Transaction construction\<close>

definition transfer_outputs :: "u64 \<Rightarrow> address \<Rightarrow> u64 \<Rightarrow> address \<Rightarrow> tx_output list" where
  "transfer_outputs tot recipient amount change_address =
     \<lparr>out_amount = amount, out_address = recipient\<rparr> #
       (if amount < tot then [\<lparr>out_amount = tot - amount, out_address = change_address\<rparr>] else [])"

fun transfer_inputs :: "ext \<Rightarrow> signing_key \<Rightarrow> utxo_item list \<Rightarrow> client_error + tx_input list" where
  "transfer_inputs E key [] = Inr []"
| "transfer_inputs E key (u # us) =
     (case hex_decode E (ui_tx_hash u) of
        Inl e \<Rightarrow> Inl (ClientHex e)
      | Inr bytes \<Rightarrow>
          if length bytes \<noteq> 32 then Inl (ClientSerialization ''tx_hash is not 32 bytes'')
          else case transfer_inputs E key us of Inl e \<Rightarrow> Inl e
            | Inr is \<Rightarrow> Inr (\<lparr>in_out_ref = \<lparr>ref_tx_hash = bytes, ref_index = ui_index u\<rparr>,
                in_signature = replicate 64 0, in_pubkey = ed_public E key\<rparr> # is))"

definition build_transfer ::
  "ext \<Rightarrow> signing_key \<Rightarrow> utxo_item list \<Rightarrow> address \<Rightarrow> u64 \<Rightarrow> address \<Rightarrow> client_error + transaction" where
  "build_transfer E key utxos recipient amount change_address =
     (let tot = sum_list (map ui_amount utxos);
          outputs = transfer_outputs tot recipient amount change_address
      in case transfer_inputs E key utxos of Inl e \<Rightarrow> Inl e
      | Inr inputs \<Rightarrow>
        (let tx = \<lparr>tx_kind = Transfer, tx_inputs = inputs, tx_outputs = outputs\<rparr>;
             msg = tx_signing_bytes E tx
         in Inr (tx\<lparr>tx_inputs := map (\<lambda>i. i\<lparr>in_signature := ed_sign E key msg\<rparr>) inputs\<rparr>)))"

section \<open>Splitting\<close>

text \<open>One split: the transaction and the two outputs it will have.\<close>

definition split_one ::
  "ext \<Rightarrow> signing_key \<Rightarrow> address \<Rightarrow> utxo_item \<Rightarrow> string + transaction \<times> utxo_item \<times> utxo_item" where
  "split_one E key addr u =
     (let half = ui_amount u div 2
      in case build_transfer E key [u] addr half addr of
        Inl e \<Rightarrow> Inl (''split: build_transfer: '' @ show_client_error e)
      | Inr tx \<Rightarrow>
          (let hash_hex = hex_encode E (transaction_hash E tx)
           in Inr (tx, \<lparr>ui_tx_hash = hash_hex, ui_index = 0, ui_amount = half\<rparr>,
                \<lparr>ui_tx_hash = hash_hex, ui_index = 1, ui_amount = ui_amount u - half\<rparr>)))"

text \<open>The loop over the outputs to split: those kept as they are, and the splits built.\<close>

fun split_build ::
  "ext \<Rightarrow> signing_key \<Rightarrow> address \<Rightarrow> utxo_item list \<Rightarrow>
   string + utxo_item list \<times> (transaction \<times> utxo_item \<times> utxo_item) list" where
  "split_build E key addr [] = Inr ([], [])"
| "split_build E key addr (u # us) =
     (if ui_amount u < 2
      then case split_build E key addr us of Inl e \<Rightarrow> Inl e | Inr (kept, built) \<Rightarrow> Inr (u # kept, built)
      else case split_one E key addr u of Inl e \<Rightarrow> Inl e
        | Inr b \<Rightarrow> (case split_build E key addr us of Inl e \<Rightarrow> Inl e
            | Inr (kept, built) \<Rightarrow> Inr (kept, b # built)))"

text \<open>
  The node as \<open>split_utxo\<close> sees it: \<open>post\<close> answers \<open>POST /tx\<close>, \<open>confirm\<close> says whether polling finds all
  the expected hashes before the deadline.  All posts are awaited before any result is read.
\<close>

record split_env =
  se_post :: "transaction \<Rightarrow> client_error + string"
  se_confirm :: "string list \<Rightarrow> bool"

fun post_results :: "split_env \<Rightarrow> transaction list \<Rightarrow> string + unit" where
  "post_results N [] = Inr ()"
| "post_results N (tx # ts) =
     (case se_post N tx of
        Inl e \<Rightarrow> Inl (''split: POST /tx failed: '' @ show_client_error e)
      | Inr _ \<Rightarrow> post_results N ts)"

definition split_round ::
  "ext \<Rightarrow> split_env \<Rightarrow> signing_key \<Rightarrow> address \<Rightarrow> nat \<Rightarrow> utxo_item list \<Rightarrow> string + utxo_item list option" where
  "split_round E N key addr target_count current =
     (let to_split = min (target_count - length current) (length current)
      in case split_build E key addr (take to_split current) of Inl e \<Rightarrow> Inl e
      | Inr (kept, built) \<Rightarrow>
          if built = [] then Inr None
          else case post_results N (map fst built) of Inl e \<Rightarrow> Inl e
            | Inr _ \<Rightarrow>
              (let expected = remdups (concat (map (\<lambda>(_, o0, o1). [ui_tx_hash o0, ui_tx_hash o1]) built))
               in if se_confirm N expected
                  then Inr (Some (drop to_split current @ kept @ concat (map (\<lambda>(_, o0, o1). [o0, o1]) built)))
                  else Inl (''split: timed out waiting for '' @ show_nat (length expected) @
                    '' UTXOs to confirm (30s)'')))"

lemma split_build_lengths:
  "split_build E key addr us = Inr (kept, built) \<Longrightarrow> length kept + length built = length us"
  by (induction us arbitrary: kept built) (auto split: if_splits sum.splits prod.splits)

lemma length_split_pairs: "length (concat (map (\<lambda>(_, o0, o1). [o0, o1]) built)) = 2 * length built"
  by (induction built) auto

lemma split_round_grows:
  assumes "split_round E N key addr n us = Inr (Some vs)"
  shows "length us < length vs"
proof -
  let ?k = "min (n - length us) (length us)"
  obtain kept built where b: "split_build E key addr (take ?k us) = Inr (kept, built)" "built \<noteq> []"
    and vs: "vs = drop ?k us @ kept @ concat (map (\<lambda>(_, o0, o1). [o0, o1]) built)"
    using assms by (auto simp: split_round_def Let_def split: sum.splits prod.splits if_splits)
  have "length kept + length built = ?k" using split_build_lengths [OF b(1)] by simp
  moreover have "length vs = length us - ?k + (length kept + 2 * length built)"
    by (simp add: vs length_split_pairs)
  moreover have "0 < length built" "?k \<le> length us" using b(2) by simp_all
  ultimately show ?thesis by linarith
qed

function split_loop ::
  "ext \<Rightarrow> split_env \<Rightarrow> signing_key \<Rightarrow> address \<Rightarrow> nat \<Rightarrow> utxo_item list \<Rightarrow> string + utxo_item list" where
  "split_loop E N key addr target_count current =
     (if length current < target_count
      then case split_round E N key addr target_count current of
          Inl e \<Rightarrow> Inl e
        | Inr None \<Rightarrow> Inr current
        | Inr (Some next) \<Rightarrow> split_loop E N key addr target_count next
      else Inr current)"
  by auto
termination
  by (relation "measure (\<lambda>(E, N, key, addr, n, us). n - length us)")
    (auto dest!: split_round_grows intro: diff_less_mono2)

definition split_utxo ::
  "ext \<Rightarrow> split_env \<Rightarrow> signing_key \<Rightarrow> address \<Rightarrow> utxo_item \<Rightarrow> nat \<Rightarrow> string + utxo_item list" where
  "split_utxo E N key addr input_utxo target_count =
     (if target_count \<le> 1 then Inr [input_utxo]
      else case split_loop E N key addr target_count [input_utxo] of
        Inl e \<Rightarrow> Inl e
      | Inr us \<Rightarrow> Inr (take target_count us))"

declare split_loop.simps [simp del]

section \<open>Selection covers the target\<close>

lemma select_loop_spec:
  "select_loop target sel tot us = Some c \<Longrightarrow> \<exists>n < length us. selected c = sel @ take (Suc n) us \<and>
     sel_total c = fold (\<lambda>x acc. saturating_add acc x) (map ui_amount (take (Suc n) us)) tot \<and> target \<le> sel_total c \<and>
     (\<forall>m < n. fold (\<lambda>x acc. saturating_add acc x) (map ui_amount (take (Suc m) us)) tot < target)"
proof (induction us arbitrary: sel tot)
  case (Cons u us)
  let ?t = "saturating_add tot (ui_amount u)"
  show ?case
  proof (cases "target \<le> ?t")
    case True
    then show ?thesis using Cons.prems by (intro exI [of _ 0]) (auto simp: Let_def)
  next
    case False
    then obtain n where "n < length us" "selected c = (sel @ [u]) @ take (Suc n) us"
      "sel_total c = fold (\<lambda>x acc. saturating_add acc x) (map ui_amount (take (Suc n) us)) ?t" "target \<le> sel_total c"
      "\<forall>m < n. fold (\<lambda>x acc. saturating_add acc x) (map ui_amount (take (Suc m) us)) ?t < target"
      using Cons.IH [of "sel @ [u]" ?t] Cons.prems by (auto simp: Let_def)
    then show ?thesis using False
      by (intro exI [of _ "Suc n"]) (auto simp: not_le less_Suc_eq_0_disj)
  qed
qed simp

lemma select_loop_none:
  "select_loop target sel tot us = None \<longleftrightarrow>
     (\<forall>m < length us. fold (\<lambda>x acc. saturating_add acc x) (map ui_amount (take (Suc m) us)) tot < target)"
  by (induction us arbitrary: sel tot) (auto simp: Let_def not_le All_less_Suc2)

lemma fold_saturating_prefix:
  "unat (fold (\<lambda>x acc. saturating_add acc x) (map ui_amount (take m us)) 0) =
     min (sum_list (map (\<lambda>u. unat (ui_amount u)) (take m us))) u64_max"
  using fold_saturating_add [of "map ui_amount (take m us)" 0] by (simp add: comp_def)

lemma sum_list_take_le:
  fixes f :: "'a \<Rightarrow> nat"
  shows "sum_list (map f (take m us)) \<le> sum_list (map f us)"
proof -
  have "sum_list (map f us) = sum_list (map f (take m us)) + sum_list (map f (drop m us))"
    by (metis append_take_drop_id map_append sum_list_append)
  then show ?thesis by simp
qed

section \<open>Built transfers\<close>

text \<open>The output a listed item stands for.\<close>

definition item_ref :: "ext \<Rightarrow> tx_out_ref \<times> tx_output \<Rightarrow> utxo_item" where
  "item_ref E x = \<lparr>ui_tx_hash = hex_encode E (ref_tx_hash (fst x)), ui_index = ref_index (fst x),
     ui_amount = out_amount (snd x)\<rparr>"

lemma transfer_inputs_items:
  assumes "hex_roundtrip E" and "\<forall>x \<in> set xs. length (ref_tx_hash (fst x)) = 32"
  shows "transfer_inputs E key (map (item_ref E) xs) = Inr (map (\<lambda>x. \<lparr>in_out_ref = fst x,
    in_signature = replicate 64 0, in_pubkey = ed_public E key\<rparr>) xs)"
  using assms(2) assms(1) by (induction xs) (auto simp: item_ref_def hex_roundtrip_def)

lemma build_transfer_items:
  fixes amt :: u64 and to change :: address
  assumes "hex_roundtrip E" and "\<forall>x \<in> set xs. length (ref_tx_hash (fst x)) = 32"
  defines "outs \<equiv> transfer_outputs (sum_list (map (out_amount \<circ> snd) xs)) to amt change"
  defines "msg \<equiv> json_signing E \<lparr>sd_kind = Transfer, sd_inputs = map fst xs, sd_outputs = outs\<rparr>"
  shows "build_transfer E key (map (item_ref E) xs) to amt change = Inr \<lparr>tx_kind = Transfer,
    tx_inputs = map (\<lambda>x. \<lparr>in_out_ref = fst x, in_signature = ed_sign E key msg,
      in_pubkey = ed_public E key\<rparr>) xs, tx_outputs = outs\<rparr>"
proof -
  have amounts: "map ui_amount (map (item_ref E) xs) = map (out_amount \<circ> snd) xs"
    by (simp add: item_ref_def comp_def)
  show ?thesis
    unfolding build_transfer_def Let_def amounts transfer_inputs_items [OF assms(1,2)] outs_def msg_def
    by (simp add: tx_signing_bytes_def signing_data_def comp_def)
qed

lemma transfer_acceptable:
  fixes amt :: u64 and to change :: address
  assumes "sign_verifies E"
    and own: "\<forall>(r, t) \<in> set xs. M r = Some t \<and> out_address t = from_pubkey_bytes E (ed_public E key)"
    and "sum_list (map (\<lambda>x. unat (out_amount (snd x))) xs) \<le> u64_max"
    and "amt \<noteq> 0" and cover: "unat amt \<le> sum_list (map (\<lambda>x. unat (out_amount (snd x))) xs)"
  defines "outs \<equiv> transfer_outputs (sum_list (map (out_amount \<circ> snd) xs)) to amt change"
  defines "msg \<equiv> json_signing E \<lparr>sd_kind = Transfer, sd_inputs = map fst xs, sd_outputs = outs\<rparr>"
  shows "tx_acceptable E M \<lparr>tx_kind = Transfer, tx_inputs = map (\<lambda>x. \<lparr>in_out_ref = fst x,
    in_signature = ed_sign E key msg, in_pubkey = ed_public E key\<rparr>) xs, tx_outputs = outs\<rparr>"
    (is "tx_acceptable E M ?tx")
proof -
  let ?w = "sum_list (map (out_amount \<circ> snd) xs)" and ?n = "sum_list (map (\<lambda>x. unat (out_amount (snd x))) xs)"
  have w: "unat ?w = ?n" using unat_sum_list_small [of "map (out_amount \<circ> snd) xs"] assms(3) by (simp add: comp_def)
  have outs: "sum_list (map (\<lambda>t. unat (out_amount t)) outs) = ?n \<and> (\<forall>t \<in> set outs. out_amount t \<noteq> 0)"
    using w cover assms(4) by (auto simp: outs_def transfer_outputs_def word_less_nat_alt unat_sub word_le_nat_alt
        word_unat_eq_iff)
  have "tx_signing_bytes E ?tx = msg"
    by (simp add: tx_signing_bytes_def signing_data_def msg_def comp_def)
  moreover have "sum_list (map (amount_at M) (tx_refs ?tx)) = ?n"
    using own by (auto simp: tx_refs_def comp_def amount_at_def split_def intro!: arg_cong [of _ _ sum_list])
  moreover have "input_ok E M msg i" if "i \<in> set (tx_inputs ?tx)" for i
    using that own assms(1) by (auto simp: input_ok_def sign_verifies_def)
  ultimately show ?thesis
    using outs by (auto simp: tx_acceptable_def) (auto simp: outs_def transfer_outputs_def)
qed

section \<open>Splitting keeps the value\<close>

definition items_value :: "utxo_item list \<Rightarrow> nat" where
  "items_value us = sum_list (map (\<lambda>u. unat (ui_amount u)) us)"

lemma items_value_simps [simp]:
  "items_value [] = 0" "items_value (u # us) = unat (ui_amount u) + items_value us"
  "items_value (us @ vs) = items_value us + items_value vs"
  by (simp_all add: items_value_def)

lemma halves: "unat (a div 2) + unat (a - a div 2) = unat (a :: u64)"
proof -
  have "unat (a div 2) = unat a div 2" by (simp add: unat_div)
  moreover have "a div 2 \<le> a" by (simp add: word_le_nat_alt calculation)
  ultimately show ?thesis by (simp add: unat_sub)
qed

lemma split_build_value:
  "split_build E key addr us = Inr (kept, built) \<Longrightarrow>
   items_value kept + items_value (concat (map (\<lambda>(_, o0, o1). [o0, o1]) built)) = items_value us"
proof (induction us arbitrary: kept built)
  case (Cons u us)
  show ?case
  proof (cases "ui_amount u < 2")
    case True
    then obtain k where "split_build E key addr us = Inr (k, built)" "kept = u # k"
      using Cons.prems by (auto split: sum.splits)
    then show ?thesis using Cons.IH [of k built] by simp
  next
    case False
    then obtain tx o0 o1 bs where "split_build E key addr us = Inr (kept, bs)" "built = (tx, o0, o1) # bs"
      "split_one E key addr u = Inr (tx, o0, o1)"
      using Cons.prems by (auto split: sum.splits)
    moreover have "unat (ui_amount o0) + unat (ui_amount o1) = unat (ui_amount u)"
      using calculation(3) halves [of "ui_amount u"] by (auto simp: split_one_def Let_def split: sum.splits)
    ultimately show ?thesis using Cons.IH [of kept bs] by simp
  qed
qed simp

lemma split_round_value:
  assumes "split_round E N key addr n us = Inr (Some vs)"
  shows "items_value vs = items_value us"
proof -
  let ?k = "min (n - length us) (length us)"
  obtain kept built where b: "split_build E key addr (take ?k us) = Inr (kept, built)"
    and vs: "vs = drop ?k us @ kept @ concat (map (\<lambda>(_, o0, o1). [o0, o1]) built)"
    using assms by (auto simp: split_round_def Let_def split: sum.splits prod.splits if_splits)
  have "items_value us = items_value (take ?k us) + items_value (drop ?k us)"
    by (metis append_take_drop_id items_value_simps(3))
  then show ?thesis using split_build_value [OF b] by (simp add: vs)
qed

lemma split_round_at_most:
  assumes "split_round E N key addr n us = Inr (Some vs)" and "length us < n"
  shows "length vs \<le> n"
proof -
  define k where "k = min (n - length us) (length us)"
  obtain kept built where b: "split_build E key addr (take k us) = Inr (kept, built)"
    and vs: "vs = drop k us @ kept @ concat (map (\<lambda>(_, o0, o1). [o0, o1]) built)"
    using assms by (auto simp: split_round_def Let_def k_def [symmetric] split: sum.splits prod.splits if_splits)
  have "length kept + length built = k" using split_build_lengths [OF b] by (simp add: k_def)
  moreover have "length vs = length us - k + (length kept + 2 * length built)"
    by (simp add: vs length_split_pairs)
  moreover have "k \<le> length us" "k \<le> n - length us" by (simp_all add: k_def)
  ultimately show ?thesis using assms(2) by linarith
qed

lemma split_loop_result:
  "split_loop E N key addr n us = Inr vs \<Longrightarrow> length us \<le> n \<Longrightarrow>
   items_value vs = items_value us \<and> length vs \<le> n"
proof (induction E N key addr n us rule: split_loop.induct)
  case (1 E N key addr n us)
  show ?case
  proof (cases "length us < n")
    case True
    have eq: "split_loop E N key addr n us = (case split_round E N key addr n us of Inl e \<Rightarrow> Inl e
        | Inr None \<Rightarrow> Inr us | Inr (Some ws) \<Rightarrow> split_loop E N key addr n ws)"
      by (subst split_loop.simps) (simp only: True if_True)
    show ?thesis
    proof (cases "split_round E N key addr n us")
      case (Inl e)
      then show ?thesis using 1(2) by (simp add: eq)
    next
      case (Inr r)
      show ?thesis
      proof (cases r)
        case None
        then show ?thesis using 1(2) Inr True by (simp add: eq)
      next
        case (Some ws)
        then have r: "split_round E N key addr n us = Inr (Some ws)" using Inr by simp
        then have "split_loop E N key addr n ws = Inr vs" using 1(2) by (simp add: eq)
        then show ?thesis
          using "1.IH" [OF True Inr Some] split_round_value [OF r] split_round_at_most [OF r True] by simp
      qed
    qed
  next
    case False
    then have "split_loop E N key addr n us = Inr us" by (subst split_loop.simps) (simp only: if_False)
    then show ?thesis using 1(2,3) by simp
  qed
qed

lemma mset_map_list:
  assumes "mset zs = mset (map f xs)"
  obtains ys where "mset ys = mset xs" "zs = map f ys"
proof -
  have "list_all2 (\<lambda>z x. z = f x) (map f xs) xs" by (simp add: list_all2_map1 list_all2_refl)
  from list_all2_reorder_left_invariance [OF this assms]
  obtain ys where "list_all2 (\<lambda>z x. z = f x) zs ys" "mset ys = mset xs" by blast
  then show thesis using that [of ys] by (simp add: list_all2_conv_all_nth nth_equalityI)
qed

lemma select_prefix:
  assumes "select_coins tie utxos target = Inr c"
  shows "\<exists>n < length (tie utxos). selected c = take (Suc n) (sort_key ui_amount (tie utxos)) \<and>
    unat (sel_total c) = min (items_value (selected c)) u64_max \<and> target \<le> sel_total c \<and>
    (\<forall>m < n. items_value (take (Suc m) (sort_key ui_amount (tie utxos))) < unat target)"
proof -
  let ?us = "sort_key ui_amount (tie utxos)"
  have "select_loop target [] 0 ?us = Some c"
    using assms by (auto simp: select_coins_def Let_def split: option.splits)
  from select_loop_spec [OF this] obtain n where n: "n < length ?us" "selected c = take (Suc n) ?us"
    "sel_total c = fold (\<lambda>x acc. saturating_add acc x) (map ui_amount (take (Suc n) ?us)) 0" "target \<le> sel_total c"
    "\<forall>m < n. fold (\<lambda>x acc. saturating_add acc x) (map ui_amount (take (Suc m) ?us)) 0 < target" by auto
  have "items_value (take (Suc m) ?us) < unat target" if "m < n" for m
  proof -
    have "min (items_value (take (Suc m) ?us)) u64_max < unat target"
      using n(5) [rule_format, OF that] fold_saturating_prefix [of "Suc m" ?us]
      by (simp add: word_less_nat_alt items_value_def)
    then show ?thesis using unat_lt_u64 [of target] by linarith
  qed
  then show ?thesis
    using n(1,2,4) fold_saturating_prefix [of "Suc n" ?us] by (auto simp: n(3) items_value_def)
qed

lemma select_none_iff:
  assumes "\<forall>us. mset (tie us) = mset us"
  shows "select_loop target [] 0 (sort_key ui_amount (tie utxos)) = None \<longleftrightarrow>
      utxos = [] \<or> min (items_value utxos) u64_max < unat target"
proof -
  let ?us = "sort_key ui_amount (tie utxos)"
  have ms: "mset ?us = mset utxos" using assms by simp
  have len: "length ?us = length utxos" using mset_eq_length [OF ms] .
  have val: "items_value ?us = items_value utxos"
    unfolding items_value_def by (simp only: mset_map ms flip: sum_mset_sum_list)
  have pre: "fold (\<lambda>x acc. saturating_add acc x) (map ui_amount (take (Suc m) ?us)) 0 < target \<longleftrightarrow>
      min (items_value (take (Suc m) ?us)) u64_max < unat target" for m
    using fold_saturating_prefix [of "Suc m" ?us] by (simp add: word_less_nat_alt items_value_def)
  have mono: "items_value (take m ?us) \<le> items_value utxos" for m
    using sum_list_take_le [of "\<lambda>u. unat (ui_amount u)" m ?us] val by (simp add: items_value_def)
  show ?thesis
  proof
    assume none: "select_loop target [] 0 ?us = None"
    show "utxos = [] \<or> min (items_value utxos) u64_max < unat target"
    proof (cases "utxos = []")
      case False
      then have "length ?us - 1 < length ?us" using len by simp
      with none have "min (items_value (take (Suc (length ?us - 1)) ?us)) u64_max < unat target"
        unfolding select_loop_none pre by blast
      then show ?thesis using False len val by simp
    qed simp
  next
    assume "utxos = [] \<or> min (items_value utxos) u64_max < unat target"
    then show "select_loop target [] 0 ?us = None"
      unfolding select_loop_none pre using mono len by (auto simp: min_less_iff_disj dest: le_less_trans)
  qed
qed

section \<open>Properties\<close>

text \<open>
  A successful coin selection takes the outputs in ascending order of amount until they
  cover the target: the selection is a prefix of the sorted list, its total is the saturated sum,
  it reaches the target, and no shorter prefix does.
\<close>

lemma select_coins_covers:
  assumes "select_coins tie utxos target = Inr c"
  shows "\<exists>n < length (tie utxos). selected c = take (Suc n) (sort_key ui_amount (tie utxos)) \<and>
    unat (sel_total c) = min (items_value (selected c)) u64_max \<and> target \<le> sel_total c \<and>
    (\<forall>m < n. items_value (take (Suc m) (sort_key ui_amount (tie utxos))) < unat target)"
  using assms by (rule select_prefix)

definition sample_items :: "utxo_item list" where
  "sample_items = [\<lparr>ui_tx_hash = ''aa'', ui_index = 0, ui_amount = 7\<rparr>, \<lparr>ui_tx_hash = ''bb'', ui_index = 1, ui_amount = 2\<rparr>]"

lemma sample_selection:
  "select_coins (\<lambda>us. us) sample_items 5 = Inr \<lparr>selected = rev sample_items, sel_total = 9\<rparr>"
  by code_simp

text \<open>
  Coin selection fails exactly when there are no outputs at all or their saturated sum is
  below the target, and the error then carries the wrapped sum and the target.
\<close>

lemma select_coins_error:
  assumes "\<forall>us. mset (tie us) = mset us"
  shows "select_coins tie utxos target = Inl (ClientInsufficientFunds (sum_list (map ui_amount utxos)) target) \<longleftrightarrow>
      utxos = [] \<or> min (items_value utxos) u64_max < unat target"
  using select_none_iff [OF assms, of target utxos]
  by (auto simp: select_coins_def Let_def split: option.splits)

text \<open>
  The wallet's side of a payment: selection and building succeed, the transfer is valid and refers to
  listed outputs only.
\<close>

lemma wallet_transfer:
  assumes "sled_backend T E" and "sled_inv T E s" and "sign_verifies E" and "hex_roundtrip E"
    and "\<forall>us. mset (tie us) = mset us"
    and "sled_list_utxos T E s (from_pubkey_bytes E (ed_public E key)) = Inr xs"
    and "\<forall>x \<in> set xs. length (ref_tx_hash (fst x)) = 32"
    and "sum_list (map (\<lambda>x. unat (out_amount (snd x))) xs) \<le> u64_max"
    and "amount \<noteq> 0" and "unat amount \<le> sum_list (map (\<lambda>x. unat (out_amount (snd x))) xs)"
  shows "\<exists>c tx. select_coins tie (map (item_ref E) xs) amount = Inr c \<and>
    build_transfer E key (selected c) to amount (from_pubkey_bytes E (ed_public E key)) = Inr tx \<and>
    validate_transaction E (sled_utxo_store T E) s tx = Inr () \<and> set (tx_refs tx) \<subseteq> fst ` set xs"
proof -
  let ?us = "map (item_ref E) xs" and ?a = "from_pubkey_bytes E (ed_public E key)"
  let ?n = "\<lambda>xs. sum_list (map (\<lambda>x. unat (out_amount (snd x))) xs)"
  have val: "items_value (map (item_ref E) zs) = ?n zs" for zs
    by (simp add: items_value_def item_ref_def comp_def)
  have "xs \<noteq> []" using assms(9,10) by (auto simp: unat_eq_0)
  moreover have "\<not> min (items_value ?us) u64_max < unat amount"
    using assms(10) unat_lt_u64 [of amount] by (simp add: val not_less)
  ultimately obtain c where c: "select_coins tie ?us amount = Inr c"
    using select_none_iff [OF assms(5), of amount ?us] by (auto simp: select_coins_def Let_def split: option.splits)
  have "mset (sort_key ui_amount (tie ?us)) = mset ?us" using assms(5) by simp
  then obtain ys where ys: "mset ys = mset xs" "sort_key ui_amount (tie ?us) = map (item_ref E) ys"
    by (rule mset_map_list)
  obtain n where n: "selected c = map (item_ref E) (take (Suc n) ys)" "amount \<le> sel_total c"
    "unat (sel_total c) = min (items_value (selected c)) u64_max"
    using select_prefix [OF c] by (auto simp: ys(2) take_map)
  let ?zs = "take (Suc n) ys"
  have sub: "set ?zs \<subseteq> set xs" using mset_eq_setD [OF ys(1)] set_take_subset [of "Suc n" ys] by simp
  have "?n ys = ?n xs" by (simp only: mset_map ys(1) flip: sum_mset_sum_list)
  then have small: "?n ?zs \<le> u64_max"
    using sum_list_take_le [of "\<lambda>x. unat (out_amount (snd x))" "Suc n" ys] assms(8) by simp
  have cover: "unat amount \<le> ?n ?zs" using n by (simp add: val word_le_nat_alt)
  have own: "\<forall>(r, t) \<in> set ?zs. sled_uabs T E s r = Some t \<and> out_address t = ?a"
  proof -
    obtain zs where zs: "sled_list_utxos T E s ?a = Inr zs"
      "set zs = {(r, t). sled_uabs T E s r = Some t \<and> out_address t = ?a}"
      by (rule sled_backend.sled_list_utxos_abs [OF assms(1,2), of ?a])
    have "zs = xs" using zs(1) assms(6) by simp
    then show ?thesis using zs(2) sub by blast
  qed
  have len: "\<forall>x \<in> set ?zs. length (ref_tx_hash (fst x)) = 32" using assms(7) sub by blast
  note built = build_transfer_items [OF assms(4) len, of key to amount ?a]
  note ok = transfer_acceptable [OF assms(3) own small assms(9) cover, of to ?a]
  have accept: "validate_transaction E (sled_utxo_store T E) s tx = Inr ()" if "tx_acceptable E (sled_uabs T E s) tx" for tx
    using that utxo_iface.accepts_iff [OF sled_backend.is_utxo_iface [OF assms(1)] assms(2)] by blast
  have refs: "set (map fst ?zs) \<subseteq> fst ` set xs" using sub by auto
  show ?thesis
    by (rule exI [of _ c], rule exI, intro conjI, rule c, simp only: n(1), rule built, rule accept, rule ok)
      (use refs in \<open>simp add: tx_refs_def comp_def\<close>)
qed


lemma funded_list:
  "sled_list_utxos rbt_env ref_ext funded_sled sample_owner =
     Inr [(sample_ref, \<lparr>out_amount = 5, out_address = sample_owner\<rparr>)]"
proof -
  obtain xs where xs: "sled_list_utxos rbt_env ref_ext funded_sled sample_owner = Inr xs" "distinct (map fst xs)"
    "set xs = {(r, t). funded_map r = Some t \<and> out_address t = sample_owner}"
    unfolding funded_sled_ok(2) [symmetric] by (rule rbt_sled.sled_list_utxos_abs [OF funded_sled_ok(1)])
  have set: "set xs = {(sample_ref, \<lparr>out_amount = 5, out_address = sample_owner\<rparr>)}"
    unfolding xs(3) funded_map_eq by (auto split: if_splits)
  have "distinct xs" using xs(2) by (rule distinct_mapI)
  then have "length xs = 1" using distinct_card [of xs] by (simp add: set)
  then obtain x where "xs = [x]" using length_Suc_conv [of xs 0] by auto
  then show ?thesis using xs(1) set by simp
qed

lemma sample_ref_length: "length (ref_tx_hash sample_ref) = 32"
  by (simp add: sample_ref_def out_ref_at_def transaction_hash_def length_sha256d [OF ref_digest_32])



text \<open>
  The loop gives up when the outputs at the front of its list cannot be split, even if
  later ones can: an output of 3 is split into 1 and 2 and no further, so asking for 3 parts
  yields 2, without an error.
\<close>

lemma split_stops_early:
  assumes "ui_amount u = 3" and "hex_decode E (ui_tx_hash u) = Inr h" and "length h = 32"
    and "\<forall>tx. \<exists>r. se_post N tx = Inr r" and "\<forall>hs. se_confirm N hs"
  shows "\<exists>v w. split_utxo E N key addr u 3 = Inr [v, w] \<and> ui_amount v = 1 \<and> ui_amount w = 2"
proof -
  obtain tx where "build_transfer E key [u] addr 1 addr = Inr tx"
    using assms(1-3) by (simp add: build_transfer_def Let_def)
  moreover have "(3 :: u64) div 2 = 1" by simp
  ultimately obtain v w where one: "split_one E key addr u = Inr (tx, v, w)" "ui_amount v = 1" "ui_amount w = 2"
    using assms(1) by (simp add: split_one_def Let_def)
  obtain r where "se_post N tx = Inr r" using assms(4) by blast
  then have post: "post_results N [tx] = Inr ()" by simp
  have r1: "split_round E N key addr 3 [u] = Inr (Some [v, w])"
    using one post assms(1,5) by (simp add: split_round_def Let_def)
  have r2: "split_round E N key addr 3 [v, w] = Inr None"
    using one(2) by (simp add: split_round_def Let_def)
  have "split_loop E N key addr 3 [u] = split_loop E N key addr 3 [v, w]"
    by (subst split_loop.simps) (simp add: r1)
  also have "\<dots> = Inr [v, w]" by (subst split_loop.simps) (simp add: r2)
  finally show ?thesis using one(2,3) by (simp add: split_utxo_def)
qed

definition sample_split_env :: split_env where
  "sample_split_env = \<lparr>se_post = (\<lambda>tx. Inr []), se_confirm = (\<lambda>hs. True)\<rparr>"

definition sample_split_item :: utxo_item where
  "sample_split_item = \<lparr>ui_tx_hash = hex_encode ref_ext (replicate 32 0), ui_index = 0, ui_amount = 3\<rparr>"


end
