(* ===== verification/Bcc_Api.thy ===== *)
theory Bcc_Api
  imports Bcc_Gossip Bcc_Genesis Bcc_Wallet
begin

text \<open>
  \<open>bcc-node/src/api.rs\<close>: the HTTP interface of a node, from the request line to the bytes of the
  response.  A request is the lines and the bytes the socket delivers.  A wallet's transfer that is
  posted enters the pool and is gossiped; a response announces exactly the length of its body.
\<close>

section \<open>Responses\<close>

text \<open>The JSON values the handlers build; \<open>json_value\<close> and \<open>unjson_tx\<close> are \<open>serde_json\<close>.\<close>

datatype json = JNum u64 | JStr string | JArr "json list" | JObj "(string \<times> json) list"

record api_ext =
  json_value :: "json \<Rightarrow> byte list"
  unjson_tx :: "byte list \<Rightarrow> string + transaction"

definition crlf :: string where
  "crlf = [CHR 0x0D, CHR 0x0A]"

definition response_header :: "nat \<Rightarrow> string \<Rightarrow> string \<Rightarrow> nat \<Rightarrow> string" where
  "response_header status reason content_type len =
     ''HTTP/1.1 '' @ show_nat status @ '' '' @ reason @ crlf @
     ''Content-Type: '' @ content_type @ crlf @
     ''Content-Length: '' @ show_nat len @ crlf @
     ''Access-Control-Allow-Origin: *'' @ crlf @
     ''Connection: close'' @ crlf @ crlf"

definition build_response :: "nat \<Rightarrow> string \<Rightarrow> string \<Rightarrow> byte list \<Rightarrow> byte list" where
  "build_response status reason content_type body =
     str_bytes (response_header status reason content_type (length body)) @ body"

definition json_ok :: "api_ext \<Rightarrow> json \<Rightarrow> byte list" where
  "json_ok A v = build_response 200 ''OK'' ''application/json'' (json_value A v)"

definition err_response :: "api_ext \<Rightarrow> nat \<Rightarrow> string \<Rightarrow> byte list" where
  "err_response A status msg =
     build_response status (if status = 400 then ''Bad Request'' else ''Service Unavailable'')
       ''application/json'' (json_value A (JObj [(''error'', JStr msg)]))"

definition not_found :: "api_ext \<Rightarrow> byte list" where
  "not_found A = err_response A 404 ''not found''"

definition ok_no_content :: "byte list" where
  "ok_no_content = str_bytes (''HTTP/1.1 204 No Content'' @ crlf @ ''Access-Control-Allow-Origin: *'' @ crlf @
     ''Access-Control-Allow-Methods: GET, POST'' @ crlf @ ''Connection: close'' @ crlf @ crlf)"

section \<open>Handlers\<close>

definition get_tip :: "'s node_env \<Rightarrow> api_ext \<Rightarrow> 's node_state \<Rightarrow> 's node_state \<times> byte list" where
  "get_tip Env A st =
     (case bs_tip (ne_blocks Env) (ns_store st) of
        Inr (Some (h, hash)) \<Rightarrow>
          (let hash_hex = hex_encode (ne_ext Env) hash
           in (emit (ApiGetTip h hash_hex) st, json_ok A (JObj [(''height'', JNum h), (''hash'', JStr hash_hex)])))
      | Inr None \<Rightarrow> (st, err_response A 503 ''chain is empty'')
      | Inl e \<Rightarrow> (st, err_response A 503 (show_node_error (NodeStore e))))"

definition get_balance :: "'s node_env \<Rightarrow> api_ext \<Rightarrow> string \<Rightarrow> 's node_state \<Rightarrow> 's node_state \<times> byte list" where
  "get_balance Env A raw_addr st =
     (st, case validate_address raw_addr of
        Inl e \<Rightarrow> err_response A 400 (show_address_error e)
      | Inr addr \<Rightarrow>
        (case us_balance (ne_utxo Env) (ns_store st) addr of
           Inr n \<Rightarrow> json_ok A (JObj [(''address'', JStr raw_addr), (''balance'', JNum n)])
         | Inl e \<Rightarrow> err_response A 503 (show_node_error (NodeStore e))))"

definition utxo_json :: "ext \<Rightarrow> tx_out_ref \<times> tx_output \<Rightarrow> json" where
  "utxo_json E x = JObj [(''tx_hash'', JStr (hex_encode E (ref_tx_hash (fst x)))),
     (''index'', JNum (ucast (ref_index (fst x)))), (''amount'', JNum (out_amount (snd x)))]"

definition get_utxos :: "'s node_env \<Rightarrow> api_ext \<Rightarrow> string \<Rightarrow> 's node_state \<Rightarrow> 's node_state \<times> byte list" where
  "get_utxos Env A raw_addr st =
     (st, case validate_address raw_addr of
        Inl e \<Rightarrow> err_response A 400 (show_address_error e)
      | Inr addr \<Rightarrow>
        (case us_list_utxos (ne_utxo Env) (ns_store st) addr of
           Inr utxos \<Rightarrow> json_ok A (JArr (map (utxo_json (ne_ext Env)) utxos))
         | Inl e \<Rightarrow> err_response A 503 (show_node_error (NodeStore e))))"

definition post_status :: "node_error \<Rightarrow> nat" where
  "post_status e = (case e of Validation _ \<Rightarrow> 400 | _ \<Rightarrow> 503)"

definition post_tx :: "'s node_env \<Rightarrow> api_ext \<Rightarrow> byte list \<Rightarrow> 's node_state \<Rightarrow> 's node_state \<times> byte list" where
  "post_tx Env A body st =
     (case unjson_tx A body of
        Inl e \<Rightarrow> (st, err_response A 400 (''invalid JSON: '' @ e))
      | Inr tx \<Rightarrow>
        (let E = ne_ext Env; tx_hash_hex = hex_encode E (transaction_hash E tx);
             (p, r) = mempool_add E (ne_utxo Env) (ns_store st) tx (ns_mempool st);
             st1 = st\<lparr>ns_mempool := p\<rparr>
         in case r of
           Inr added \<Rightarrow>
             (let st2 = (case ap_evicted added of None \<Rightarrow> st1 | Some ev \<Rightarrow> emit (TxEvicted ev (ap_tx_hash added)) st1);
                  st3 = emit (TxAccepted (ap_tx_hash added) (ap_value added) (ap_pool_size added)) st2;
                  st4 = emit (ApiTxAccepted tx_hash_hex) st3;
                  st5 = (if ap_newly_added added then st4\<lparr>ns_peers := broadcast_all (NewTx tx) (ns_peers st4)\<rparr> else st4)
              in (st5, json_ok A (JObj [(''tx_hash'', JStr tx_hash_hex)])))
         | Inl e \<Rightarrow>
             (emit (ApiTxRejected tx_hash_hex (show_node_error e)) (emit (TxRejected tx_hash_hex (show_node_error e)) st1),
              err_response A (post_status e) (show_node_error e))))"

definition get_peers :: "'s node_env \<Rightarrow> api_ext \<Rightarrow> 's node_state \<Rightarrow> 's node_state \<times> byte list" where
  "get_peers Env A st =
     (st, json_ok A (JArr (map (\<lambda>a. JStr (show_addr (ne_net Env) a)) (peers_addrs (ne_net Env) (ns_peers st)))))"

section \<open>Requests\<close>

definition route ::
  "'s node_env \<Rightarrow> api_ext \<Rightarrow> string \<Rightarrow> string \<Rightarrow> byte list \<Rightarrow> 's node_state \<Rightarrow> 's node_state \<times> byte list" where
  "route Env A meth path body st =
     (if meth = ''GET'' \<and> path = ''/chain/tip'' then get_tip Env A st
      else if meth = ''GET'' \<and> prefix ''/balance/'' path then get_balance Env A (drop 9 path) st
      else if meth = ''GET'' \<and> prefix ''/utxos/'' path then get_utxos Env A (drop 7 path) st
      else if meth = ''POST'' \<and> path = ''/tx'' then post_tx Env A body st
      else if meth = ''GET'' \<and> path = ''/peers'' then get_peers Env A st
      else if meth = ''OPTIONS'' then (st, ok_no_content)
      else (st, not_found A))"

text \<open>\<open>trim\<close>, \<open>to_lowercase\<close> and \<open>parse::<usize>\<close> on ASCII text.\<close>

definition is_space :: "char \<Rightarrow> bool" where
  "is_space c \<longleftrightarrow> c \<in> {CHR '' '', CHR 0x09, CHR 0x0A, CHR 0x0B, CHR 0x0C, CHR 0x0D}"

definition trim :: "string \<Rightarrow> string" where
  "trim s = rev (dropWhile is_space (rev (dropWhile is_space s)))"

definition lower_char :: "char \<Rightarrow> char" where
  "lower_char c = (if CHR ''A'' \<le> c \<and> c \<le> CHR ''Z'' then char_of (of_char c + 32 :: nat) else c)"

definition is_digit :: "char \<Rightarrow> bool" where
  "is_digit c \<longleftrightarrow> CHR ''0'' \<le> c \<and> c \<le> CHR ''9''"

definition digits_value :: "string \<Rightarrow> nat" where
  "digits_value s = fold (\<lambda>c n. 10 * n + (of_char c - 48)) s 0"

definition parse_usize :: "string \<Rightarrow> nat option" where
  "parse_usize s =
     (let ds = (if prefix ''+'' s then tl s else s)
      in if ds \<noteq> [] \<and> list_all is_digit ds \<and> digits_value ds \<le> u64_max then Some (digits_value ds) else None)"

text \<open>The header loop: the content length once the empty line is read, \<open>None\<close> if the stream ends before.\<close>

fun read_headers :: "nat \<Rightarrow> string list \<Rightarrow> nat option" where
  "read_headers content_length [] = None"
| "read_headers content_length (line # rest) =
     (if trim line = [] then Some content_length
      else if prefix ''content-length:'' (map lower_char line)
      then read_headers (case parse_usize (trim (drop 15 line)) of Some n \<Rightarrow> n | None \<Rightarrow> 0) rest
      else read_headers content_length rest)"

definition MAX_BODY :: nat where
  "MAX_BODY = 4 * 1024 * 1024"

text \<open>\<open>splitn(3, ' ')\<close> on the request line: the method and the path, if there are two parts.\<close>

definition split_request :: "string \<Rightarrow> (string \<times> string) option" where
  "split_request s =
     (let meth = takeWhile (\<lambda>c. c \<noteq> CHR '' '') s; rest = dropWhile (\<lambda>c. c \<noteq> CHR '' '') s
      in if rest = [] then None else Some (meth, takeWhile (\<lambda>c. c \<noteq> CHR '' '') (tl rest)))"

text \<open>
  One connection: the lines of the request head, and the bytes that follow it.  \<open>None\<close> is a connection
  closed without a response.
\<close>

definition handle_conn ::
  "'s node_env \<Rightarrow> api_ext \<Rightarrow> string \<Rightarrow> string list \<Rightarrow> byte list \<Rightarrow> 's node_state \<Rightarrow> ('s node_state \<times> byte list) option" where
  "handle_conn Env A req_line lines stream st =
     (if req_line = [] then None
      else case read_headers 0 lines of
        None \<Rightarrow> None
      | Some content_length \<Rightarrow>
        (let n = min content_length MAX_BODY in
         if length stream < n then None
         else case split_request (trim req_line) of
             None \<Rightarrow> None
           | Some (meth, path) \<Rightarrow> Some (route Env A meth path (take n stream) st)))"

section \<open>Lemmas\<close>

lemma digit_value: "d < 10 \<Longrightarrow> is_digit (digit_char d) \<and> of_char (digit_char d) - (48 :: nat) = d \<and> \<not> is_space (digit_char d)"
proof -
  assume "d < 10"
  then have "d \<in> set [0..<10]" by simp
  then show ?thesis by (simp add: upt_rec) (elim disjE; simp add: digit_char_def is_digit_def is_space_def less_eq_char_def; code_simp)
qed

lemma digits_show_nat:
  "list_all is_digit (show_nat n) \<and> list_all (\<lambda>c. \<not> is_space c) (show_nat n) \<and> show_nat n \<noteq> [] \<and>
   digits_value (show_nat n) = n"
proof (induction n rule: show_nat.induct)
  case (1 n)
  then show ?case
    using digit_value [of n] digit_value [of "n mod 10"]
    by (subst (1 2 3 4) show_nat.simps) (auto simp: digits_value_def)
qed

lemma trim_word:
  assumes "w \<noteq> []" and "list_all (\<lambda>c. \<not> is_space c) w" and "list_all is_space a" and "list_all is_space b"
  shows "trim (a @ w @ b) = w"
proof -
  have drop: "dropWhile is_space (xs @ ys) = ys" if "list_all is_space xs" "ys \<noteq> []" "\<not> is_space (hd ys)" for xs ys
    using that by (cases ys) (simp_all add: dropWhile_append2 list_all_iff)
  have "\<not> is_space (hd w)" "\<not> is_space (last w)" using assms(1,2) by (simp_all add: list_all_iff)
  then show ?thesis
    using assms drop [of a "w @ b"] drop [of "rev b" "rev w"] by (simp add: trim_def hd_rev list_all_iff)
qed

lemma parse_show_nat: "n \<le> u64_max \<Longrightarrow> parse_usize (show_nat n) = Some n"
proof -
  assume "n \<le> u64_max"
  moreover have "\<not> prefix ''+'' (show_nat n)"
  proof
    assume "prefix ''+'' (show_nat n)"
    then have "is_digit CHR ''+''" using digits_show_nat [of n] by (auto simp: prefix_def)
    then show False by (simp add: is_digit_def less_eq_char_def)
  qed
  ultimately show ?thesis using digits_show_nat [of n] by (simp add: parse_usize_def Let_def)
qed

text \<open>Outcomes of the pool, as the API sees them.\<close>

lemma mempool_add_error_kind: "mempool_add E U s tx p = (p', Inl e) \<Longrightarrow> p' = p \<and> (\<exists>m. e = Validation m)"
  by (auto simp: mempool_add_def make_room_def Let_def split: if_splits sum.splits option.splits prod.splits)

lemma mempool_add_room:
  assumes "map_of (mp_txs p) (transaction_hash E tx) = None" and "validate_transaction E U s tx = Inr ()"
    and "set (tx_refs tx) \<inter> mp_in_flight p = {}" and "length (mp_txs p) < mp_max_size p"
  shows "\<exists>added. mempool_add E U s tx p = (pool_insert E tx p, Inr added) \<and> ap_newly_added added"
proof -
  have "\<not> list_ex (\<lambda>r. r \<in> mp_in_flight p) (tx_refs tx)" using assms(3) by (auto simp: list_ex_iff)
  then show ?thesis using assms(1,2,4) by (simp add: mempool_add_def make_room_def Let_def)
qed

text \<open>The header lines of a response after its status line.\<close>

definition header_lines :: "string \<Rightarrow> nat \<Rightarrow> string list" where
  "header_lines content_type len = [''Content-Type: '' @ content_type @ crlf, ''Content-Length: '' @ show_nat len @ crlf,
     ''Access-Control-Allow-Origin: *'' @ crlf, ''Connection: close'' @ crlf, crlf]"

section \<open>Properties\<close>

text \<open>
  A wallet's payment posted to a node is pooled and gossiped.  For a node over the sled store
  that lists outputs of the wallet not yet spent by pooled transactions and has room in its pool,
  the transfer the wallet builds is answered with its hash, is in the pool afterwards and is queued
  for every peer.
\<close>

lemma wallet_post_pooled:
  assumes "sled_backend T E" and "sled_inv T E (ns_store st)" and "sign_verifies E" and "hex_roundtrip E"
    and "\<forall>us. mset (tie us) = mset us"
    and "sled_list_utxos T E (ns_store st) (from_pubkey_bytes E (ed_public E key)) = Inr xs"
    and "\<forall>x \<in> set xs. length (ref_tx_hash (fst x)) = 32"
    and "sum_list (map (\<lambda>x. unat (out_amount (snd x))) xs) \<le> u64_max"
    and "amount \<noteq> 0" and "unat amount \<le> sum_list (map (\<lambda>x. unat (out_amount (snd x))) xs)"
    and "fst ` set xs \<inter> mp_in_flight (ns_mempool st) = {}"
    and "length (mp_txs (ns_mempool st)) < mp_max_size (ns_mempool st)"
  shows "\<exists>c tx. select_coins tie (map (item_ref E) xs) amount = Inr c \<and>
    build_transfer E key (selected c) to amount (from_pubkey_bytes E (ed_public E key)) = Inr tx \<and>
    set (tx_refs tx) \<subseteq> fst ` set xs \<and>
    (\<forall>body. unjson_tx A body = Inr tx \<longrightarrow> map_of (mp_txs (ns_mempool st)) (transaction_hash E tx) = None \<longrightarrow>
      (\<exists>st'. route (sled_node_env T E N) A ''POST'' ''/tx'' body st =
          (st', json_ok A (JObj [(''tx_hash'', JStr (hex_encode E (transaction_hash E tx)))])) \<and>
        map_of (mp_txs (ns_mempool st')) (transaction_hash E tx) = Some tx \<and>
        ns_peers st' = broadcast_all (NewTx tx) (ns_peers st)))"
proof -
  obtain c tx where c: "select_coins tie (map (item_ref E) xs) amount = Inr c"
    "build_transfer E key (selected c) to amount (from_pubkey_bytes E (ed_public E key)) = Inr tx"
    and v: "validate_transaction E (sled_utxo_store T E) (ns_store st) tx = Inr ()"
    and r: "set (tx_refs tx) \<subseteq> fst ` set xs"
    using wallet_transfer [OF assms(1-10), of to] by blast
  have free: "set (tx_refs tx) \<inter> mp_in_flight (ns_mempool st) = {}" using r assms(11) by blast
  have "\<exists>st'. route (sled_node_env T E N) A ''POST'' ''/tx'' body st =
          (st', json_ok A (JObj [(''tx_hash'', JStr (hex_encode E (transaction_hash E tx)))])) \<and>
        map_of (mp_txs (ns_mempool st')) (transaction_hash E tx) = Some tx \<and>
        ns_peers st' = broadcast_all (NewTx tx) (ns_peers st)"
    if body: "unjson_tx A body = Inr tx" and new: "map_of (mp_txs (ns_mempool st)) (transaction_hash E tx) = None" for body
    using mempool_add_room [OF new v free assms(12)] body
    by (auto simp: route_def post_tx_def sled_node_env_def pool_insert_def Let_def split: option.split)
  then show ?thesis using c r by blast
qed

definition sample_api :: "transaction \<Rightarrow> api_ext" where
  "sample_api tx = \<lparr>json_value = (\<lambda>_. []), unjson_tx = (\<lambda>_. Inr tx)\<rparr>"

text \<open>
  Every rejected transaction is answered with status 400 and leaves store, pool and queues as
  they were; the status 503 the handler has for other errors is never sent, even when the rejection
  is a failure of the storage.
\<close>

lemma post_rejected_400:
  assumes "unjson_tx A body = Inr tx"
    and "mempool_add (ne_ext Env) (ne_utxo Env) (ns_store st) tx (ns_mempool st) = (p, Inl e)"
  shows "\<exists>st' m. route Env A ''POST'' ''/tx'' body st = (st', err_response A 400 (show_node_error (Validation m))) \<and>
    ns_store st' = ns_store st \<and> ns_mempool st' = ns_mempool st \<and> ns_peers st' = ns_peers st"
proof -
  obtain m where "e = Validation m" "p = ns_mempool st" using mempool_add_error_kind [OF assms(2)] by blast
  then show ?thesis
    using assms by (auto simp: route_def post_tx_def post_status_def Let_def)
qed

text \<open>
  The length of a body is announced correctly.  The header lines of a response, read with the
  header loop the server uses for requests, give the length of its body, and the body follows them.
\<close>

lemma response_length_roundtrip:
  assumes "length body \<le> u64_max"
  shows "build_response status reason ''application/json'' body =
      str_bytes (''HTTP/1.1 '' @ show_nat status @ '' '' @ reason @ crlf @ concat (header_lines ''application/json'' (length body))) @ body \<and>
    read_headers 0 (header_lines ''application/json'' (length body)) = Some (length body)"
proof -
  have "trim ('' '' @ show_nat (length body) @ crlf) = show_nat (length body)"
    using digits_show_nat [of "length body"]
    by (intro trim_word) (simp_all add: crlf_def is_space_def)
  then have "parse_usize (trim ('' '' @ show_nat (length body) @ crlf)) = Some (length body)"
    using parse_show_nat [OF assms] by simp
  moreover have "trim crlf = []" "\<And>x y. trim (CHR ''C'' # x) \<noteq> []"
    "\<And>x. trim (CHR ''A'' # x) \<noteq> []"
    by (simp_all add: crlf_def trim_def is_space_def dropWhile_eq_Nil_conv)
  moreover have "char_of (99 :: nat) = CHR ''c''" "char_of (108 :: nat) = CHR ''l''" by code_simp+
  ultimately show ?thesis
    by (simp add: build_response_def response_header_def header_lines_def lower_char_def less_eq_char_def)
qed

end
