(* ===== verification/Bcc_Node.thy ===== *)
theory Bcc_Node
  imports Bcc_Connector Bcc_Slot_Ticker Bcc_Start Bcc_Api
begin

text \<open>
  The running node: the tasks \<open>main.rs\<close> spawns over one shared state.  An event is what one task does
  without giving up control: a connection, one turn of a peer loop, a slot turn, an HTTP request.
  Reachability counts the events, since heights are 64-bit.
\<close>

section \<open>Events\<close>

datatype node_event =
    Accepted socket_addr
  | Dialled socket_addr
  | PeerInput socket_addr peer_input
  | SlotTurn i64
  | HttpRequest string "string list" "byte list"

definition connect :: "'s node_env \<Rightarrow> socket_addr \<Rightarrow> 's node_state \<Rightarrow> 's node_state" where
  "connect Env a st = (case peer_register Env a st of None \<Rightarrow> st | Some st' \<Rightarrow> st')"

text \<open>A peer loop that ends deregisters its peer; a slot turn that panics ends its task only.\<close>

fun node_step :: "'s node_env \<Rightarrow> api_ext \<Rightarrow> node_event \<Rightarrow> 's node_state \<Rightarrow> 's node_state" where
  "node_step Env A (Accepted a) st = (if server_accepts st then connect Env a st else st)"
| "node_step Env A (Dialled a) st = connect Env a st"
| "node_step Env A (PeerInput a i) st =
     (case peer_turn Env a i st of
        (st', _, True) \<Rightarrow> st' | (st', _, False) \<Rightarrow> peer_deregister Env a st')"
| "node_step Env A (SlotTurn now) st = (case slot_turn Env now st of None \<Rightarrow> st | Some (st', _) \<Rightarrow> st')"
| "node_step Env A (HttpRequest l ls bs) st =
     (case handle_conn Env A l ls bs st of None \<Rightarrow> st | Some (st', _) \<Rightarrow> st')"

inductive node_reach :: "'s node_env \<Rightarrow> api_ext \<Rightarrow> 's node_state \<Rightarrow> nat \<Rightarrow> 's node_state \<Rightarrow> bool"
  for Env :: "'s node_env" and A :: api_ext and st0 :: "'s node_state" where
  reach_start: "node_reach Env A st0 0 st0"
| reach_event: "node_reach Env A st0 k st \<Longrightarrow> node_reach Env A st0 (Suc k) (node_step Env A ev st)"

section \<open>Every event keeps the node in order\<close>

lemma peers_ok_remove [simp]: "peers_ok ps \<Longrightarrow> peers_ok (peers_remove a ps)"
  by (rule peers_ok_deregister)

lemma deregister_ok: "node_ok E B babs ok n st \<Longrightarrow> node_ok E B babs ok n (peer_deregister Env a st)"
  by (simp add: node_ok_def peer_deregister_def Let_def)

lemma connect_ok: "node_ok E B babs ok n st \<Longrightarrow> node_ok E B babs ok n (connect Env a st)"
  by (auto simp: node_ok_def connect_def peer_register_def Let_def peers_ok_register)

context node_backend
begin

lemma route_ok:
  assumes "swap_remove_deletes E" and "orders_permute E" and "node_ok E B babs inv n st"
  shows "node_ok E B babs inv n (fst (route Env A m p body st))"
proof -
  have "pool_inv E (fst (mempool_add E U (ns_store st) tx (ns_mempool st)))" for tx
    using mempool_add_inv [OF assms(1,2), of "ns_mempool st" U "ns_store st" tx] assms(3)
    by (metis node_ok_def prod.collapse)
  then have "node_ok E B babs inv n (fst (post_tx Env A body st))"
    using assms(3) by (auto simp: post_tx_def node_ok_def Let_def case_prod_beta split: sum.split option.split)
  then show ?thesis
    using assms(3)
    by (simp add: route_def get_tip_def get_balance_def get_utxos_def get_peers_def Let_def node_ok_def
        split: sum.split option.split prod.split)
qed

lemma node_step_ok:
  assumes E: "swap_remove_deletes E" "orders_permute E" and ok: "node_ok E B babs inv n st" and n: "n \<noteq> - 1"
  shows "\<exists>m. (m = n \<or> m = n + 1) \<and> node_ok E B babs inv m (node_step Env A ev st)"
proof (cases ev)
  case (PeerInput a i)
  obtain st' fs c where t: "peer_turn Env a i st = (st', fs, c)" by (cases "peer_turn Env a i st")
  from peer_turn_ok [OF E ok n t] obtain m where "m = n \<or> m = n + 1" "node_ok E B babs inv m st'" by blast
  then show ?thesis using PeerInput t deregister_ok [of E B babs inv m st' Env a] by (cases c) auto
next
  case (SlotTurn now)
  then show ?thesis
    using ok slot_turn_ok [OF E(1) ok n, of now] by (auto split: option.split)
next
  case (HttpRequest l ls bs)
  have "node_ok E B babs inv n (node_step Env A ev st)"
    using ok route_ok [OF E ok, of A] HttpRequest
    by (auto simp: handle_conn_def Let_def split: option.split if_splits prod.splits) (metis fst_conv)+
  then show ?thesis by blast
qed (use ok connect_ok [OF ok] in \<open>intro exI [of _ n], simp\<close>)+

lemma node_reach_ok:
  assumes E: "swap_remove_deletes E" "orders_permute E" and r: "node_reach Env A st0 k st"
    and "node_ok E B babs inv n st0" and "unat n + k < u64_max"
  shows "\<exists>m. unat n \<le> unat m \<and> unat m \<le> unat n + k \<and> node_ok E B babs inv m st"
  using r assms(4,5)
proof (induction rule: node_reach.induct)
  case (reach_event k st ev)
  then obtain m where m: "unat n \<le> unat m" "unat m \<le> unat n + k" "node_ok E B babs inv m st" by auto
  have max: "m \<noteq> - 1" using m(2) reach_event.prems(2) by auto
  from node_step_ok [OF E m(3) max, of A ev]
  obtain m' where "m' = m \<or> m' = m + 1" "node_ok E B babs inv m' (node_step Env A ev st)" by blast
  then show ?case using m(1,2) unat_inc [OF max] by (intro exI [of _ m']) auto
qed auto

end

end
