(* ===== verification/Bcc_Keystore.thy ===== *)
theory Bcc_Keystore
  imports Bcc_Wallet
begin

text \<open>
  \<open>bcc-client/src/keystore.rs\<close> and \<open>config.rs\<close>: the encrypted key file of a wallet.  The file system is
  an explicit map with the faults its operations may have; Argon2, AES-GCM and JSON are parameters.
  A key that was stored is read back with its passphrase, a failed creation never damages a file but
  its temporary one, and a nonce of the wrong length in the file is a panic.
\<close>

section \<open>Files\<close>

text \<open>A path with a file name, split the way \<open>Path::with_extension\<close> splits it.\<close>

record path =
  path_dir :: string
  path_stem :: string
  path_extension :: "string option"

definition with_extension :: "string \<Rightarrow> path \<Rightarrow> path" where
  "with_extension e p = p\<lparr>path_extension := Some e\<rparr>"

definition display :: "path \<Rightarrow> string" where
  "display p = path_dir p @ path_stem p @ (case path_extension p of None \<Rightarrow> [] | Some e \<Rightarrow> ''.'' @ e)"

text \<open>
  Files hold text.  A faulty write reports an error and may leave other contents behind; the other
  faults leave the files as they are.
\<close>

record disk =
  files :: "path \<rightharpoonup> string"
  read_fault :: "path \<Rightarrow> string option"
  write_fault :: "path \<Rightarrow> (string \<times> string option) option"
  rename_fault :: "path \<Rightarrow> string option"
  mkdir_fault :: "string \<Rightarrow> string option"

definition fs_read :: "path \<Rightarrow> disk \<Rightarrow> string + string" where
  "fs_read p d = (case read_fault d p of Some e \<Rightarrow> Inl e
     | None \<Rightarrow> (case files d p of None \<Rightarrow> Inl ''No such file or directory'' | Some c \<Rightarrow> Inr c))"

definition fs_write :: "path \<Rightarrow> string \<Rightarrow> disk \<Rightarrow> disk \<times> (string + unit)" where
  "fs_write p c d = (case write_fault d p of
       Some (e, left) \<Rightarrow> (case left of None \<Rightarrow> (d, Inl e) | Some l \<Rightarrow> (d\<lparr>files := (files d)(p \<mapsto> l)\<rparr>, Inl e))
     | None \<Rightarrow> (d\<lparr>files := (files d)(p \<mapsto> c)\<rparr>, Inr ()))"

definition fs_rename :: "path \<Rightarrow> path \<Rightarrow> disk \<Rightarrow> disk \<times> (string + unit)" where
  "fs_rename p q d = (case rename_fault d p of Some e \<Rightarrow> (d, Inl e)
     | None \<Rightarrow> (case files d p of
          None \<Rightarrow> (d, Inl ''No such file or directory'')
        | Some c \<Rightarrow> (d\<lparr>files := (files d)(p := None, q \<mapsto> c)\<rparr>, Inr ())))"

definition fs_create_dir_all :: "string \<Rightarrow> disk \<Rightarrow> string + unit" where
  "fs_create_dir_all dir d = (case mkdir_fault d dir of Some e \<Rightarrow> Inl e | None \<Rightarrow> Inr ())"

section \<open>Defaults\<close>

record client_config =
  keystore_path :: path
  node_url :: string

definition bcc_dir :: "(string \<Rightarrow> string option) \<Rightarrow> string" where
  "bcc_dir env = (case env ''HOME'' of Some home \<Rightarrow> home @ ''/.bcc/''
     | None \<Rightarrow> (case env ''APPDATA'' of Some appdata \<Rightarrow> appdata @ ''/bcc/'' | None \<Rightarrow> ''./''))"

definition default_keystore_path :: "(string \<Rightarrow> string option) \<Rightarrow> path" where
  "default_keystore_path env = \<lparr>path_dir = bcc_dir env, path_stem = ''keystore'', path_extension = Some ''json''\<rparr>"

definition client_config_default :: "(string \<Rightarrow> string option) \<Rightarrow> client_config" where
  "client_config_default env = \<lparr>keystore_path = default_keystore_path env,
     node_url = (case env ''RPC_URL'' of Some u \<Rightarrow> u | None \<Rightarrow> ''http://127.0.0.1:8080'')\<rparr>"

section \<open>\<open>KeystoreFile\<close>\<close>

record keystore_file =
  ks_version :: byte
  ks_address :: string
  ks_salt :: string
  ks_nonce :: string
  ks_ciphertext :: string

text \<open>
  Crates \<open>argon2\<close> (memory, iterations, lanes, output length, password, salt), \<open>aes-gcm\<close> and
  \<open>serde_json\<close>.
\<close>

record keystore_ext =
  argon2id :: "nat \<Rightarrow> nat \<Rightarrow> nat \<Rightarrow> nat \<Rightarrow> byte list \<Rightarrow> byte list \<Rightarrow> string + byte list"
  aes_encrypt :: "byte list \<Rightarrow> byte list \<Rightarrow> byte list \<Rightarrow> byte list option"
  aes_decrypt :: "byte list \<Rightarrow> byte list \<Rightarrow> byte list \<Rightarrow> byte list option"
  json_keystore :: "keystore_file \<Rightarrow> string + string"
  unjson_keystore :: "string \<Rightarrow> string + keystore_file"

definition aes_roundtrip :: "keystore_ext \<Rightarrow> bool" where
  "aes_roundtrip K \<longleftrightarrow> (\<forall>k n m c. aes_encrypt K k n m = Some c \<longrightarrow> aes_decrypt K k n c = Some m)"

definition keystore_json_roundtrip :: "keystore_ext \<Rightarrow> bool" where
  "keystore_json_roundtrip K \<longleftrightarrow> (\<forall>f s. json_keystore K f = Inr s \<longrightarrow> unjson_keystore K s = Inr f)"

definition derive_key :: "keystore_ext \<Rightarrow> string \<Rightarrow> byte list \<Rightarrow> client_error + byte list" where
  "derive_key K passphrase salt =
     (case argon2id K 65536 3 4 32 (str_bytes passphrase) salt of Inl e \<Rightarrow> Inl (ClientConfigErr e) | Inr k \<Rightarrow> Inr k)"

text \<open>The contents go to a temporary file beside the target, which is then renamed.\<close>

definition atomic_write :: "path \<Rightarrow> string \<Rightarrow> disk \<Rightarrow> disk \<times> (string + unit)" where
  "atomic_write p json d =
     (let tmp = with_extension ''tmp'' p in
      case fs_write tmp json d of
        (d1, Inl e) \<Rightarrow> (d1, Inl e)
      | (d1, Inr _) \<Rightarrow> fs_rename tmp p d1)"

text \<open>\<open>seed\<close>, \<open>salt\<close> and \<open>nonce\<close> are what the random generators deliver.\<close>

definition keystore_create ::
  "ext \<Rightarrow> keystore_ext \<Rightarrow> byte list \<Rightarrow> byte list \<Rightarrow> byte list \<Rightarrow> path \<Rightarrow> string \<Rightarrow> disk \<Rightarrow> disk \<times> (client_error + address)" where
  "keystore_create E K seed salt nonce p passphrase d =
     (let address = from_pubkey_bytes E (ed_public E seed) in
      case derive_key K passphrase salt of
        Inl e \<Rightarrow> (d, Inl e)
      | Inr aes_key \<Rightarrow>
        (case aes_encrypt K aes_key nonce seed of
           None \<Rightarrow> (d, Inl (ClientConfigErr ''AES-GCM encryption failed''))
         | Some ciphertext \<Rightarrow>
           (case json_keystore K \<lparr>ks_version = 1, ks_address = as_str address, ks_salt = hex_encode E salt,
                ks_nonce = hex_encode E nonce, ks_ciphertext = hex_encode E ciphertext\<rparr> of
              Inl e \<Rightarrow> (d, Inl (KeystoreParse e))
            | Inr json \<Rightarrow>
              (case atomic_write p json d of
                 (d', Inl e) \<Rightarrow> (d', Inl (KeystoreIo e))
               | (d', Inr _) \<Rightarrow> (d', Inr address)))))"

definition read_keystore :: "keystore_ext \<Rightarrow> path \<Rightarrow> disk \<Rightarrow> client_error + keystore_file" where
  "read_keystore K p d =
     (case fs_read p d of
        Inl e \<Rightarrow> Inl (KeystoreIo e)
      | Inr json \<Rightarrow> (case unjson_keystore K json of Inl e \<Rightarrow> Inl (KeystoreParse e) | Inr ks \<Rightarrow> Inr ks))"

text \<open>\<open>None\<close> is the panic of \<open>Nonce::from_slice\<close> on a slice that is not 12 bytes long.\<close>

definition decrypt_keystore :: "ext \<Rightarrow> keystore_ext \<Rightarrow> keystore_file \<Rightarrow> string \<Rightarrow> (client_error + signing_key) option" where
  "decrypt_keystore E K ks passphrase =
     (case hex_decode E (ks_salt ks) of Inl e \<Rightarrow> Some (Inl (ClientHex e))
      | Inr salt \<Rightarrow>
     (case hex_decode E (ks_nonce ks) of Inl e \<Rightarrow> Some (Inl (ClientHex e))
      | Inr nonce \<Rightarrow>
     (case hex_decode E (ks_ciphertext ks) of Inl e \<Rightarrow> Some (Inl (ClientHex e))
      | Inr ciphertext \<Rightarrow>
        if length nonce \<noteq> 12 then None
        else Some (case derive_key K passphrase salt of Inl e \<Rightarrow> Inl e
          | Inr aes_key \<Rightarrow>
            (case aes_decrypt K aes_key nonce ciphertext of
               None \<Rightarrow> Inl WrongPassphrase
             | Some plaintext \<Rightarrow>
               if length plaintext = 32 then Inr plaintext
               else Inl (ClientConfigErr ''decrypted seed is not 32 bytes''))))))"

definition load_and_decrypt ::
  "ext \<Rightarrow> keystore_ext \<Rightarrow> path \<Rightarrow> string \<Rightarrow> disk \<Rightarrow> (client_error + signing_key) option" where
  "load_and_decrypt E K p passphrase d =
     (case read_keystore K p d of Inl e \<Rightarrow> Some (Inl e) | Inr ks \<Rightarrow> decrypt_keystore E K ks passphrase)"

definition read_address :: "keystore_ext \<Rightarrow> path \<Rightarrow> disk \<Rightarrow> client_error + address" where
  "read_address K p d =
     (case read_keystore K p d of Inl e \<Rightarrow> Inl e
      | Inr ks \<Rightarrow> (case validate_address (ks_address ks) of Inl e \<Rightarrow> Inl (ClientAddress e) | Inr a \<Rightarrow> Inr a))"

section \<open>Lemmas\<close>

lemma atomic_write_ok:
  "atomic_write p c d = (d', Inr ()) \<Longrightarrow> d' = d\<lparr>files := (files d)(with_extension ''tmp'' p := None, p \<mapsto> c)\<rparr>"
  by (auto simp: atomic_write_def fs_write_def fs_rename_def Let_def split: option.splits)

lemma atomic_write_other:
  assumes "atomic_write p c d = (d', r)" and "q \<noteq> with_extension ''tmp'' p" and "q \<noteq> p \<or> r \<noteq> Inr ()"
  shows "files d' q = files d q"
  using assms by (auto simp: atomic_write_def fs_write_def fs_rename_def Let_def split: option.splits)

text \<open>What a successful creation leaves on the disk.\<close>

lemma keystore_create_file:
  assumes "keystore_create E K seed salt nonce p passphrase d = (d', Inr a)"
  obtains k c json where "derive_key K passphrase salt = Inr k" "aes_encrypt K k nonce seed = Some c"
    "json_keystore K \<lparr>ks_version = 1, ks_address = as_str a, ks_salt = hex_encode E salt,
       ks_nonce = hex_encode E nonce, ks_ciphertext = hex_encode E c\<rparr> = Inr json"
    "a = from_pubkey_bytes E (ed_public E seed)" "files d' p = Some json" "read_fault d' = read_fault d"
proof (cases "derive_key K passphrase salt")
  case (Inr k)
  show ?thesis
  proof (cases "aes_encrypt K k nonce seed")
    case (Some c)
    let ?a = "from_pubkey_bytes E (ed_public E seed)"
    let ?ks = "\<lparr>ks_version = 1, ks_address = as_str ?a, ks_salt = hex_encode E salt,
       ks_nonce = hex_encode E nonce, ks_ciphertext = hex_encode E c\<rparr>"
    obtain json where j: "json_keystore K ?ks = Inr json" "a = ?a" "atomic_write p json d = (d', Inr ())"
      using assms Inr Some by (auto simp: keystore_create_def Let_def split: sum.splits prod.splits)
    with atomic_write_ok [OF j(3)] show ?thesis by (intro that [OF Inr Some]) simp_all
  qed (use assms Inr in \<open>simp add: keystore_create_def Let_def\<close>)
qed (use assms in \<open>simp add: keystore_create_def Let_def\<close>)

text \<open>What loading that file gives.\<close>

lemma keystore_load:
  assumes "hex_roundtrip E" and "hex_lower E" and "digest_32 E" and "aes_roundtrip K" and "keystore_json_roundtrip K"
    and "length seed = 32" and "length nonce = 12"
    and "keystore_create E K seed salt nonce p passphrase d = (d', Inr a)" and "read_fault d p = None"
  shows "load_and_decrypt E K p passphrase d' = Some (Inr seed) \<and> read_address K p d' = Inr a \<and>
    a = from_pubkey_bytes E (ed_public E seed)"
proof -
  obtain k c json where k: "derive_key K passphrase salt = Inr k" "aes_encrypt K k nonce seed = Some c"
    "json_keystore K \<lparr>ks_version = 1, ks_address = as_str a, ks_salt = hex_encode E salt,
       ks_nonce = hex_encode E nonce, ks_ciphertext = hex_encode E c\<rparr> = Inr json"
    and a: "a = from_pubkey_bytes E (ed_public E seed)" "files d' p = Some json" "read_fault d' = read_fault d"
    by (rule keystore_create_file [OF assms(8)])
  have "read_keystore K p d' = Inr \<lparr>ks_version = 1, ks_address = as_str a, ks_salt = hex_encode E salt,
       ks_nonce = hex_encode E nonce, ks_ciphertext = hex_encode E c\<rparr>"
    using k(3) a(2,3) assms(5,9) by (simp add: read_keystore_def fs_read_def keystore_json_roundtrip_def)
  moreover have "validate_address (as_str a) = Inr a"
    using derived_address_validates [OF assms(3,2)] a(1) by simp
  moreover have "aes_decrypt K k nonce c = Some seed" using assms(4) k(2) by (simp add: aes_roundtrip_def)
  ultimately show ?thesis
    using assms(1,6,7) k(1) a(1) by (simp add: load_and_decrypt_def decrypt_keystore_def read_address_def hex_roundtrip_def)
qed

lemma create_other:
  assumes "keystore_create E K seed salt nonce p passphrase d = (d', r)" and "q \<noteq> with_extension ''tmp'' p"
    and "q \<noteq> p \<or> (\<exists>e. r = Inl e)"
  shows "files d' q = files d q"
proof -
  consider "d' = d" | json r' where "atomic_write p json d = (d', r')" "r' = Inr () \<longrightarrow> (\<exists>a. r = Inr a)"
    using assms(1) by (auto simp: keystore_create_def Let_def split: sum.splits option.splits prod.splits)
  then show ?thesis
  proof cases
    case 2
    have "q \<noteq> p \<or> r' \<noteq> Inr ()" using assms(3) 2(2) by auto
    then show ?thesis by (rule atomic_write_other [OF 2(1) assms(2)])
  qed simp
qed

lemma create_error:
  assumes "keystore_create E K seed salt nonce p passphrase d = (d', Inl e)"
  shows "(\<exists>m. e = ClientConfigErr m) \<or> (\<exists>m. e = KeystoreParse m) \<or> (\<exists>m. e = KeystoreIo m)"
  using assms by (auto simp: keystore_create_def derive_key_def Let_def split: sum.splits option.splits prod.splits)

section \<open>A concrete instance\<close>

text \<open>
  A cipher that stores the key in front of the plaintext and checks it on decryption, a key derivation
  that concatenates, and the self-delimiting encoding in place of JSON.
\<close>

definition enc_keystore :: "keystore_file \<Rightarrow> byte list" where
  "enc_keystore f = enc_pair enc_byte (enc_list (enc_list enc_byte))
     (ks_version f, map str_bytes [ks_address f, ks_salt f, ks_nonce f, ks_ciphertext f])"

definition dec_keystore :: "keystore_file parser" where
  "dec_keystore = dec_via (\<lambda>(v, fs). let g = (\<lambda>i. map char_of_byte (fs ! i)) in
     \<lparr>ks_version = v, ks_address = g 0, ks_salt = g 1, ks_nonce = g 2, ks_ciphertext = g 3\<rparr>)
     (dec_pair dec_byte (dec_list (dec_list dec_byte)))"

definition ref_keystore :: keystore_ext where
  "ref_keystore = \<lparr>
     argon2id = (\<lambda>_ _ _ _ pw salt. Inr (pw @ salt)),
     aes_encrypt = (\<lambda>k n m. Some (enc_bytes (k @ n) @ m)),
     aes_decrypt = (\<lambda>k n c. case dec_bytes c of Some (k', m) \<Rightarrow> if k' = k @ n then Some m else None | None \<Rightarrow> None),
     json_keystore = (\<lambda>f. Inr (map char_of_byte (enc_keystore f))),
     unjson_keystore = (\<lambda>s. whole dec_keystore (str_bytes s))\<rparr>"

lemma parses_keystore: "parses enc_keystore dec_keystore"
proof -
  have "parses (\<lambda>f. enc_pair enc_byte (enc_list (enc_list enc_byte))
      (ks_version f, map str_bytes [ks_address f, ks_salt f, ks_nonce f, ks_ciphertext f])) dec_keystore"
    unfolding dec_keystore_def
    by (rule parses_via [OF _ parses_pair [OF parses_byte parses_list [OF parses_list [OF parses_byte]]]])
      (simp add: str_bytes_def comp_def)
  then show ?thesis by (simp add: parses_def enc_keystore_def)
qed

lemma byte_of_char_of_byte [simp]: "byte_of_char (char_of_byte b) = b"
proof -
  have "unat b < 256" using unsigned_less [of b] by simp
  then have "unat (byte_of_char (char_of_byte b)) = unat b" by (simp add: unat_byte_of_char char_of_byte_def)
  then show ?thesis by (simp add: word_unat_eq_iff)
qed

lemma ref_keystore_laws: "aes_roundtrip ref_keystore" "keystore_json_roundtrip ref_keystore"
  using parses_bytes whole_enc [OF parses_keystore]
  by (simp_all add: aes_roundtrip_def keystore_json_roundtrip_def ref_keystore_def str_bytes_def comp_def)

definition sample_disk :: "(path \<rightharpoonup> string) \<Rightarrow> disk" where
  "sample_disk fs = \<lparr>files = fs, read_fault = (\<lambda>_. None), write_fault = (\<lambda>_. None), rename_fault = (\<lambda>_. None),
     mkdir_fault = (\<lambda>_. None)\<rparr>"

definition sample_path :: path where
  "sample_path = \<lparr>path_dir = ''./'', path_stem = ''wallet'', path_extension = Some ''json''\<rparr>"

section \<open>Properties\<close>

text \<open>
  Claim C32: a stored key is recovered.  After \<open>KeystoreFile::create\<close> has succeeded, loading the file with
  the same passphrase yields the key that was generated, and its address is read from the file
  without the passphrase.
\<close>

theorem keystore_roundtrip:
  assumes "hex_roundtrip E" and "hex_lower E" and "digest_32 E" and "aes_roundtrip K" and "keystore_json_roundtrip K"
    and "length seed = 32" and "length nonce = 12"
    and "keystore_create E K seed salt nonce p passphrase d = (d', Inr a)" and "read_fault d p = None"
  shows "load_and_decrypt E K p passphrase d' = Some (Inr seed) \<and> read_address K p d' = Inr a \<and>
    a = from_pubkey_bytes E (ed_public E seed)"
  by (rule keystore_load [OF assms])

theorem keystore_roundtrip_witness:
  "\<exists>d' a. keystore_create ref_ext ref_keystore (replicate 32 7) [1] (replicate 12 0) sample_path ''pass'' (sample_disk Map.empty) =
      (d', Inr a) \<and>
    load_and_decrypt ref_ext ref_keystore sample_path ''pass'' d' = Some (Inr (replicate 32 7))"
proof -
  obtain d' a where c: "keystore_create ref_ext ref_keystore (replicate 32 7) [1] (replicate 12 0) sample_path ''pass''
      (sample_disk Map.empty) = (d', Inr a)"
    by (auto simp: keystore_create_def derive_key_def ref_keystore_def atomic_write_def fs_write_def fs_rename_def
        sample_disk_def Let_def)
  from keystore_roundtrip [OF ref_hex_roundtrip ref_hex_lower ref_digest_32 ref_keystore_laws _ _ c]
  show ?thesis using c by (simp add: sample_disk_def)
qed

text \<open>
  Creating a wallet is atomic.  Whatever fails, every file but the temporary one beside the target
  keeps its contents, unless the creation succeeds, and then only the target is replaced.
\<close>

lemma keystore_create_atomic:
  assumes "keystore_create E K seed salt nonce p passphrase d = (d', r)" and "q \<noteq> with_extension ''tmp'' p"
    and "q \<noteq> p \<or> (\<exists>e. r = Inl e)"
  shows "files d' q = files d q"
  by (rule create_other [OF assms])

text \<open>Loading panics exactly on a readable file whose nonce does not have 12 bytes.\<close>

lemma load_panics_iff:
  "load_and_decrypt E K p passphrase d = None \<longleftrightarrow>
     (\<exists>ks salt nonce c. read_keystore K p d = Inr ks \<and> hex_decode E (ks_salt ks) = Inr salt \<and>
        hex_decode E (ks_nonce ks) = Inr nonce \<and> hex_decode E (ks_ciphertext ks) = Inr c \<and> length nonce \<noteq> 12)"
  by (auto simp: load_and_decrypt_def decrypt_keystore_def split: sum.split)

end
