(* ===== verification/Bcc_Client.thy ===== *)
theory Bcc_Client
  imports Bcc_Keystore Bcc_Api
begin

text \<open>
  \<open>bcc-client/src/rpc.rs\<close>, \<open>cli.rs\<close> and \<open>main.rs\<close>: the HTTP client and the commands.  A command runs in a world
  of a disk, a remote node and what was printed.  The command \<open>send\<close> puts its payment into the pool
  of the node, a configuration written by \<open>node init\<close> is one the node accepts, and \<open>wallet new\<close> never
  overwrites a wallet.
\<close>

section \<open>\<open>rpc.rs\<close>\<close>

record tip_response =
  tip_height :: u64
  tip_hash_hex :: string

record balance_response =
  br_address :: string
  br_balance :: u64

text \<open>
  Crate \<open>reqwest\<close> with the network behind it (method, URL and body to status and body, over the state
  of the node at the other end), and \<open>serde_json\<close>.
\<close>

record 'n rpc_ext =
  http_send :: "string \<Rightarrow> string \<Rightarrow> byte list \<Rightarrow> 'n \<Rightarrow> 'n \<times> (string + 16 word \<times> byte list)"
  resp_text :: "byte list \<Rightarrow> string"
  unjson_tip_response :: "byte list \<Rightarrow> string + tip_response"
  unjson_balance_response :: "byte list \<Rightarrow> string + balance_response"
  unjson_utxo_items :: "byte list \<Rightarrow> string + utxo_item list"
  unjson_tx_response :: "byte list \<Rightarrow> string + string"

definition check_response :: "'n rpc_ext \<Rightarrow> (byte list \<Rightarrow> string + 'a) \<Rightarrow> 16 word \<times> byte list \<Rightarrow> client_error + 'a" where
  "check_response R parse resp =
     (if 200 \<le> fst resp \<and> fst resp < 300
      then (case parse (snd resp) of Inl e \<Rightarrow> Inl (Rpc e) | Inr x \<Rightarrow> Inr x)
      else Inl (NodeErrorResponse (fst resp) (resp_text R (snd resp))))"

definition rpc_call ::
  "'n rpc_ext \<Rightarrow> (byte list \<Rightarrow> string + 'a) \<Rightarrow> string \<Rightarrow> string \<Rightarrow> byte list \<Rightarrow> 'n \<Rightarrow> 'n \<times> (client_error + 'a)" where
  "rpc_call R parse meth url body n =
     (case http_send R meth url body n of
        (n', Inl e) \<Rightarrow> (n', Inl (Rpc e))
      | (n', Inr resp) \<Rightarrow> (n', check_response R parse resp))"

definition rpc_get_tip :: "'n rpc_ext \<Rightarrow> string \<Rightarrow> 'n \<Rightarrow> 'n \<times> (client_error + tip_response)" where
  "rpc_get_tip R base_url = rpc_call R (unjson_tip_response R) ''GET'' (base_url @ ''/chain/tip'') []"

definition rpc_get_balance :: "'n rpc_ext \<Rightarrow> string \<Rightarrow> string \<Rightarrow> 'n \<Rightarrow> 'n \<times> (client_error + balance_response)" where
  "rpc_get_balance R base_url address =
     rpc_call R (unjson_balance_response R) ''GET'' (base_url @ ''/balance/'' @ address) []"

definition rpc_get_utxos :: "'n rpc_ext \<Rightarrow> string \<Rightarrow> string \<Rightarrow> 'n \<Rightarrow> 'n \<times> (client_error + utxo_item list)" where
  "rpc_get_utxos R base_url address = rpc_call R (unjson_utxo_items R) ''GET'' (base_url @ ''/utxos/'' @ address) []"

definition rpc_post_tx :: "ext \<Rightarrow> 'n rpc_ext \<Rightarrow> string \<Rightarrow> transaction \<Rightarrow> 'n \<Rightarrow> 'n \<times> (client_error + string)" where
  "rpc_post_tx E R base_url tx = rpc_call R (unjson_tx_response R) ''POST'' (base_url @ ''/tx'') (json_tx E tx)"

section \<open>Commands\<close>

datatype wallet_commands = New "path option" | Show "path option"

record node_init_args =
  ni_output :: path
  ni_peer :: "string list"
  ni_keystore :: "path option"
  ni_listen_addr :: string
  ni_http_addr :: string
  ni_sled_path :: string
  ni_genesis_path :: string
  ni_slot_duration :: u64
  ni_mempool_max_size :: nat

datatype commands =
    Wallet wallet_commands
  | Balance string
  | Send string u64 "path option"
  | ChainTip
  | NodeInit node_init_args

record cli =
  rpc_url :: "string option"
  cli_command :: commands

record node_config_toml =
  toml_listen_addr :: string
  toml_bootstrap_peers :: "string list"
  toml_slot_duration_secs :: u64
  toml_http_addr :: string
  toml_sled_path :: string
  toml_mempool_max_size :: nat
  toml_genesis_path :: string
  toml_my_address :: string
  toml_my_signing_key :: string

text \<open>
  Where a command runs: the crates, the environment variables, what the user types at a prompt, what
  the random generators deliver, the order of equal amounts left by the unstable sort, and \<open>toml\<close>.
\<close>

record 'n cli_env =
  ce_ext :: ext
  ce_keystore :: keystore_ext
  ce_rpc :: "'n rpc_ext"
  ce_var :: "string \<Rightarrow> string option"
  ce_prompt :: "string \<Rightarrow> string + string"
  ce_seed :: "byte list"
  ce_salt :: "byte list"
  ce_nonce :: "byte list"
  ce_tie :: "utxo_item list \<Rightarrow> utxo_item list"
  ce_toml :: "node_config_toml \<Rightarrow> string + string"

record 'n world =
  w_disk :: disk
  w_node :: 'n
  w_out :: "string list"

text \<open>The outcome of a command; \<open>None\<close> is a panic.\<close>

type_synonym cli_result = "(client_error + unit) option"

definition println :: "string \<Rightarrow> 'n world \<Rightarrow> 'n world" where
  "println s w = w\<lparr>w_out := w_out w @ [s]\<rparr>"

definition keystore_flag_path :: "'n cli_env \<Rightarrow> path option \<Rightarrow> path" where
  "keystore_flag_path C flag = (case flag of Some p \<Rightarrow> p | None \<Rightarrow> keystore_path (client_config_default (ce_var C)))"

text \<open>Prompt for a passphrase and decrypt the key, as \<open>wallet show\<close>, \<open>send\<close> and \<open>node init\<close> begin.\<close>

definition unlock :: "'n cli_env \<Rightarrow> string \<Rightarrow> path \<Rightarrow> 'n world \<Rightarrow> (client_error + signing_key) option" where
  "unlock C prompt p w =
     (case ce_prompt C prompt of
        Inl e \<Rightarrow> Some (Inl (KeystoreIo e))
      | Inr passphrase \<Rightarrow> load_and_decrypt (ce_ext C) (ce_keystore C) p passphrase (w_disk w))"

definition cmd_wallet_new :: "'n cli_env \<Rightarrow> path option \<Rightarrow> 'n world \<Rightarrow> 'n world \<times> cli_result" where
  "cmd_wallet_new C flag w =
     (let p = keystore_flag_path C flag in
      if files (w_disk w) p \<noteq> None then (w, Some (Inl (KeystoreExists (display p))))
      else case ce_prompt C ''Enter passphrase: '' of Inl e \<Rightarrow> (w, Some (Inl (KeystoreIo e)))
      | Inr pass1 \<Rightarrow>
     (case ce_prompt C ''Confirm passphrase: '' of Inl e \<Rightarrow> (w, Some (Inl (KeystoreIo e)))
      | Inr pass2 \<Rightarrow>
        if pass1 \<noteq> pass2 then (w, Some (Inl PassphraseMismatch))
        else case fs_create_dir_all (path_dir p) (w_disk w) of Inl e \<Rightarrow> (w, Some (Inl (KeystoreIo e)))
        | Inr _ \<Rightarrow>
          (case keystore_create (ce_ext C) (ce_keystore C) (ce_seed C) (ce_salt C) (ce_nonce C) p pass1 (w_disk w) of
             (d, Inl e) \<Rightarrow> (w\<lparr>w_disk := d\<rparr>, Some (Inl e))
           | (d, Inr address) \<Rightarrow>
             (println (''Keystore: '' @ display p) (println (''Address:  '' @ as_str address)
                (println ''Wallet created.'' (w\<lparr>w_disk := d\<rparr>))), Some (Inr ())))))"

definition cmd_wallet_show :: "'n cli_env \<Rightarrow> path option \<Rightarrow> 'n world \<Rightarrow> 'n world \<times> cli_result" where
  "cmd_wallet_show C flag w =
     (case unlock C ''Passphrase: '' (keystore_flag_path C flag) w of
        None \<Rightarrow> (w, None)
      | Some (Inl e) \<Rightarrow> (w, Some (Inl e))
      | Some (Inr key) \<Rightarrow>
        (println (''Address: '' @ as_str (from_pubkey_bytes (ce_ext C) (ed_public (ce_ext C) key))) w, Some (Inr ())))"

definition cmd_balance :: "'n cli_env \<Rightarrow> string \<Rightarrow> string \<Rightarrow> 'n world \<Rightarrow> 'n world \<times> cli_result" where
  "cmd_balance C address url w =
     (case validate_address address of
        Inl e \<Rightarrow> (w, Some (Inl (ClientAddress e)))
      | Inr _ \<Rightarrow>
        (case rpc_get_balance (ce_rpc C) url address (w_node w) of
           (n, Inl e) \<Rightarrow> (w\<lparr>w_node := n\<rparr>, Some (Inl e))
         | (n, Inr resp) \<Rightarrow>
           (println (''Balance: '' @ show_nat (unat (br_balance resp)))
              (println (''Address: '' @ br_address resp) (w\<lparr>w_node := n\<rparr>)), Some (Inr ()))))"

definition cmd_send :: "'n cli_env \<Rightarrow> string \<Rightarrow> u64 \<Rightarrow> path option \<Rightarrow> string \<Rightarrow> 'n world \<Rightarrow> 'n world \<times> cli_result" where
  "cmd_send C to amount flag url w =
     (let E = ce_ext C; R = ce_rpc C in
      case unlock C ''Passphrase: '' (keystore_flag_path C flag) w of
        None \<Rightarrow> (w, None)
      | Some (Inl e) \<Rightarrow> (w, Some (Inl e))
      | Some (Inr key) \<Rightarrow>
        (let sender = from_pubkey_bytes E (ed_public E key) in
         case validate_address to of Inl e \<Rightarrow> (w, Some (Inl (ClientAddress e)))
         | Inr recipient \<Rightarrow>
        (case rpc_get_utxos R url (as_str sender) (w_node w) of
           (n1, Inl e) \<Rightarrow> (w\<lparr>w_node := n1\<rparr>, Some (Inl e))
         | (n1, Inr utxos) \<Rightarrow>
        (case select_coins (ce_tie C) utxos amount of Inl e \<Rightarrow> (w\<lparr>w_node := n1\<rparr>, Some (Inl e))
         | Inr selection \<Rightarrow>
        (case build_transfer E key (selected selection) recipient amount sender of
           Inl e \<Rightarrow> (w\<lparr>w_node := n1\<rparr>, Some (Inl e))
         | Inr tx \<Rightarrow>
        (case rpc_post_tx E R url tx n1 of
           (n2, Inl e) \<Rightarrow> (w\<lparr>w_node := n2\<rparr>, Some (Inl e))
         | (n2, Inr tx_hash) \<Rightarrow>
           (println (''Hash: '' @ tx_hash) (println ''Transaction submitted.'' (w\<lparr>w_node := n2\<rparr>)), Some (Inr ()))))))))"

definition cmd_chain_tip :: "'n cli_env \<Rightarrow> string \<Rightarrow> 'n world \<Rightarrow> 'n world \<times> cli_result" where
  "cmd_chain_tip C url w =
     (case rpc_get_tip (ce_rpc C) url (w_node w) of
        (n, Inl e) \<Rightarrow> (w\<lparr>w_node := n\<rparr>, Some (Inl e))
      | (n, Inr resp) \<Rightarrow>
        (println (''Hash:   '' @ tip_hash_hex resp)
           (println (''Height: '' @ show_nat (unat (tip_height resp))) (w\<lparr>w_node := n\<rparr>)), Some (Inr ())))"

section \<open>\<open>node init\<close>\<close>

text \<open>The key of the new node: from a key file, or generated and printed.\<close>

definition init_key :: "'n cli_env \<Rightarrow> path option \<Rightarrow> 'n world \<Rightarrow> 'n world \<times> (client_error + signing_key) option" where
  "init_key C flag w =
     (case flag of
        Some p \<Rightarrow> (w, unlock C ''Keystore passphrase: '' p w)
      | None \<Rightarrow>
        (let E = ce_ext C; pk = ed_public E (ce_seed C)
         in (println ''(Add address + pubkey to genesis.toml validators before starting the node.)''
               (println (''Pubkey:  '' @ hex_encode E pk) (println (''Address: '' @ as_str (from_pubkey_bytes E pk))
                 (println ''Generated new keypair.'' w))), Some (Inr (ce_seed C)))))"

definition init_config :: "ext \<Rightarrow> node_init_args \<Rightarrow> signing_key \<Rightarrow> node_config_toml" where
  "init_config E a key =
     \<lparr>toml_listen_addr = ni_listen_addr a, toml_bootstrap_peers = ni_peer a, toml_slot_duration_secs = ni_slot_duration a,
      toml_http_addr = ni_http_addr a, toml_sled_path = ni_sled_path a, toml_mempool_max_size = ni_mempool_max_size a,
      toml_genesis_path = ni_genesis_path a, toml_my_address = as_str (from_pubkey_bytes E (ed_public E key)),
      toml_my_signing_key = hex_encode E key\<rparr>"

definition cmd_node_init :: "'n cli_env \<Rightarrow> node_init_args \<Rightarrow> 'n world \<Rightarrow> 'n world \<times> cli_result" where
  "cmd_node_init C a w =
     (case init_key C (ni_keystore a) w of
        (w1, None) \<Rightarrow> (w1, None)
      | (w1, Some (Inl e)) \<Rightarrow> (w1, Some (Inl e))
      | (w1, Some (Inr key)) \<Rightarrow>
        (case ce_toml C (init_config (ce_ext C) a key) of Inl e \<Rightarrow> (w1, Some (Inl (ClientConfigErr e)))
         | Inr toml_str \<Rightarrow>
        (case (if path_dir (ni_output a) = [] then Inr () else fs_create_dir_all (path_dir (ni_output a)) (w_disk w1)) of
           Inl e \<Rightarrow> (w1, Some (Inl (KeystoreIo e)))
         | Inr _ \<Rightarrow>
        (case fs_write (ni_output a) toml_str (w_disk w1) of
           (d, Inl e) \<Rightarrow> (w1\<lparr>w_disk := d\<rparr>, Some (Inl (KeystoreIo e)))
         | (d, Inr _) \<Rightarrow>
           (println (''Config written to '' @ display (ni_output a)) (w1\<lparr>w_disk := d\<rparr>), Some (Inr ()))))))"

section \<open>Entry points\<close>

definition run :: "'n cli_env \<Rightarrow> cli \<Rightarrow> 'n world \<Rightarrow> 'n world \<times> cli_result" where
  "run C c w =
     (let url = (case rpc_url c of Some u \<Rightarrow> u | None \<Rightarrow> node_url (client_config_default (ce_var C))) in
      case cli_command c of
        Wallet (New flag) \<Rightarrow> cmd_wallet_new C flag w
      | Wallet (Show flag) \<Rightarrow> cmd_wallet_show C flag w
      | Balance address \<Rightarrow> cmd_balance C address url w
      | Send to amount flag \<Rightarrow> cmd_send C to amount flag url w
      | ChainTip \<Rightarrow> cmd_chain_tip C url w
      | NodeInit a \<Rightarrow> cmd_node_init C a w)"

text \<open>The process: its standard error and exit code; 101 is the code of a panic.\<close>

definition client_main :: "'n cli_env \<Rightarrow> cli \<Rightarrow> 'n world \<Rightarrow> 'n world \<times> string list \<times> nat" where
  "client_main C c w =
     (case run C c w of
        (w', None) \<Rightarrow> (w', [], 101)
      | (w', Some (Inl e)) \<Rightarrow> (w', [''error: '' @ show_client_error e], 1)
      | (w', Some (Inr _)) \<Rightarrow> (w', [], 0))"

section \<open>What the other side promises\<close>

text \<open>
  A response the node builds for a successful request arrives with its status and its body; the client
  and the node agree on the JSON of transactions, unspent outputs and hashes; the TOML written by the
  client is read back field by field.
\<close>

definition delivers :: "'s node_env \<Rightarrow> api_ext \<Rightarrow> 's node_state rpc_ext \<Rightarrow> string \<Rightarrow> bool" where
  "delivers Env A R base \<longleftrightarrow> (\<forall>m p b st st' j. route Env A m p b st = (st', json_ok A j) \<longrightarrow>
     http_send R m (base @ p) b st = (st', Inr (200, json_value A j)))"

definition json_agrees :: "ext \<Rightarrow> api_ext \<Rightarrow> 'n rpc_ext \<Rightarrow> bool" where
  "json_agrees E A R \<longleftrightarrow> (\<forall>tx. unjson_tx A (json_tx E tx) = Inr tx) \<and>
     (\<forall>xs. unjson_utxo_items R (json_value A (JArr (map (utxo_json E) xs))) = Inr (map (item_ref E) xs)) \<and>
     (\<forall>h. unjson_tx_response R (json_value A (JObj [(''tx_hash'', JStr h)])) = Inr h)"

definition raw_of_toml :: "node_config_toml \<Rightarrow> raw_config" where
  "raw_of_toml c = \<lparr>raw_listen_addr = toml_listen_addr c, raw_bootstrap_peers = toml_bootstrap_peers c,
     raw_slot_duration_secs = toml_slot_duration_secs c, raw_http_addr = toml_http_addr c,
     raw_sled_path = toml_sled_path c, raw_mempool_max_size = toml_mempool_max_size c,
     raw_genesis_path = toml_genesis_path c, raw_my_address = toml_my_address c,
     raw_my_signing_key = toml_my_signing_key c\<rparr>"

definition toml_agrees :: "(node_config_toml \<Rightarrow> string + string) \<Rightarrow> (string \<Rightarrow> string + raw_config) \<Rightarrow> bool" where
  "toml_agrees enc dec \<longleftrightarrow> (\<forall>c s. enc c = Inr s \<longrightarrow> dec s = Inr (raw_of_toml c))"

section \<open>Lemmas\<close>

lemma rpc_delivered:
  assumes "delivers Env A R base" and "route Env A m p b n = (n', json_ok A j)"
  shows "rpc_call R parse m (base @ p) b n =
    (n', case parse (json_value A j) of Inl e \<Rightarrow> Inl (Rpc e) | Inr x \<Rightarrow> Inr x)"
  using assms by (simp add: rpc_call_def delivers_def check_response_def)

lemma route_utxos:
  assumes "validate_address a = Inr addr" and "us_list_utxos (ne_utxo Env) (ns_store st) addr = Inr xs"
  shows "route Env A ''GET'' (''/utxos/'' @ a) b st = (st, json_ok A (JArr (map (utxo_json (ne_ext Env)) xs)))"
  using assms by (simp add: route_def get_utxos_def)

lemma init_config_accepted:
  assumes "digest_32 E" and "hex_lower E" and "hex_roundtrip E" and "length key = 32"
    and "parse_addr N (ni_listen_addr a) = Inr la" and "parse_addr N (ni_http_addr a) = Inr ha"
    and "parse_peers N (ni_peer a) = Inr ps"
  shows "from_raw E N (raw_of_toml (init_config E a key)) =
    Inr \<lparr>listen_addr = la, bootstrap_peers = ps, slot_duration_secs = ni_slot_duration a, http_addr = ha,
      sled_path = ni_sled_path a, mempool_max_size = ni_mempool_max_size a, genesis_path = ni_genesis_path a,
      my_address = from_pubkey_bytes E (ed_public E key), my_signing_key = key\<rparr>"
  using assms(3-7) derived_address_validates [OF assms(1,2), of "ed_public E key"]
  by (simp add: from_raw_def raw_of_toml_def init_config_def hex_roundtrip_def)

lemma fs_write_ok: "fs_write p c d = (d', Inr ()) \<Longrightarrow> files d' p = Some c"
  by (auto simp: fs_write_def split: option.splits)

lemma unlock_length: "unlock C prompt p w = Some (Inr key) \<Longrightarrow> length key = 32"
  by (auto simp: unlock_def load_and_decrypt_def decrypt_keystore_def split: sum.splits option.splits if_splits)

text \<open>A successful \<open>node init\<close> leaves the configuration of its key in the output file.\<close>

lemma node_init_file:
  assumes "cmd_node_init C a w = (w', Some (Inr ()))"
  obtains w1 key content where "init_key C (ni_keystore a) w = (w1, Some (Inr key))"
    "ce_toml C (init_config (ce_ext C) a key) = Inr content" "files (w_disk w') (ni_output a) = Some content"
proof (cases "init_key C (ni_keystore a) w")
  case (Pair w1 r)
  then obtain key where r: "r = Some (Inr key)"
    using assms by (auto simp: cmd_node_init_def split: option.splits sum.splits)
  then obtain content where t: "ce_toml C (init_config (ce_ext C) a key) = Inr content"
    using assms Pair by (auto simp: cmd_node_init_def split: sum.splits)
  have "fs_write (ni_output a) content (w_disk w1) = (w_disk w', Inr ())"
    using assms Pair r t by (auto simp: cmd_node_init_def println_def split: sum.splits prod.splits if_splits)
  from fs_write_ok [OF this] have "files (w_disk w') (ni_output a) = Some content" .
  then show ?thesis using Pair r t by (intro that) auto
qed

section \<open>A concrete client\<close>

text \<open>
  The encoding of the two JSON shapes the client reads, the body of a response found by its announced
  length, and a client whose requests reach the node directly.
\<close>

definition enc_json_item :: "json \<Rightarrow> byte list" where
  "enc_json_item j = (case j of JObj [(_, JStr h), (_, JNum i), (_, JNum a)] \<Rightarrow>
       enc_pair enc_address (enc_pair enc_u64 enc_u64) (Address h, i, a) | _ \<Rightarrow> [])"

definition ref_api :: api_ext where
  "ref_api = \<lparr>json_value = (\<lambda>j. case j of JArr js \<Rightarrow> enc_list enc_json_item js
       | JObj [(_, JStr h)] \<Rightarrow> enc_address (Address h) | _ \<Rightarrow> []), unjson_tx = whole dec_tx\<rparr>"

definition dec_utxo_item :: "utxo_item parser" where
  "dec_utxo_item = dec_via (\<lambda>(h, i, a). \<lparr>ui_tx_hash = as_str h, ui_index = ucast i, ui_amount = a\<rparr>)
     (dec_pair dec_address (dec_pair dec_u64 dec_u64))"

definition response_body :: "byte list \<Rightarrow> byte list" where
  "response_body bs = (let n = digits_value (takeWhile is_digit (map char_of_byte (drop 65 bs))) in drop (length bs - n) bs)"

definition ref_rpc :: "'s node_env \<Rightarrow> nat \<Rightarrow> 's node_state rpc_ext" where
  "ref_rpc Env n = \<lparr>
     http_send = (\<lambda>m url b st. case route Env ref_api m (drop n url) b st of (st', bs) \<Rightarrow> (st', Inr (200, response_body bs))),
     resp_text = (\<lambda>_. []), unjson_tip_response = (\<lambda>_. Inl []), unjson_balance_response = (\<lambda>_. Inl []),
     unjson_utxo_items = whole (dec_list dec_utxo_item),
     unjson_tx_response = (\<lambda>bs. map_sum id as_str (whole dec_address bs))\<rparr>"

lemma response_body_ok [simp]: "response_body (json_ok A j) = json_value A j"
proof -
  let ?b = "json_value A j"
  define pre post where "pre = ''HTTP/1.1 200 OK'' @ crlf @ ''Content-Type: application/json'' @ crlf @ ''Content-Length: ''"
    and "post = crlf @ ''Access-Control-Allow-Origin: *'' @ crlf @ ''Connection: close'' @ crlf @ crlf"
  have "char_of (50 :: nat) = CHR ''2''" "char_of (48 :: nat) = CHR ''0''" by code_simp+
  then have r: "json_ok A j = str_bytes pre @ str_bytes (show_nat (length ?b)) @ str_bytes post @ ?b"
    by (simp add: json_ok_def build_response_def response_header_def pre_def post_def show_nat.simps digit_char_def
        str_bytes_def)
  have "length pre = 65" "\<not> is_digit (hd post)" "post \<noteq> []"
    by (simp_all add: pre_def post_def crlf_def is_digit_def less_eq_char_def)
  then have "takeWhile is_digit (map char_of_byte (drop 65 (json_ok A j))) = show_nat (length ?b)"
    using digits_show_nat [of "length ?b"]
    by (cases post) (auto simp: r str_bytes_def comp_def list_all_iff takeWhile_append2)
  then show ?thesis using digits_show_nat [of "length ?b"] by (simp add: response_body_def r)
qed

lemma ref_rpc_delivers: "delivers Env ref_api (ref_rpc Env (length base)) base"
  by (simp add: delivers_def ref_rpc_def)

definition enc_utxo_item :: "utxo_item \<Rightarrow> byte list" where
  "enc_utxo_item u = enc_pair enc_address (enc_pair enc_u64 enc_u64) (Address (ui_tx_hash u), ucast (ui_index u), ui_amount u)"

lemma parses_utxo_item: "parses enc_utxo_item dec_utxo_item"
  unfolding enc_utxo_item_def dec_utxo_item_def
  by (rule parses_via [OF _ parses_pair [OF parses_address parses_pair [OF parses_u64 parses_u64]]])
    (simp add: ucast_up_ucast_id is_up)

lemma ref_json_agrees: "json_agrees ref_ext ref_api (ref_rpc Env n)"
proof -
  have "enc_list enc_json_item (map (utxo_json ref_ext) xs) = enc_list enc_utxo_item (map (item_ref ref_ext) xs)" for xs
    by (simp add: enc_list_def comp_def enc_json_item_def utxo_json_def enc_utxo_item_def item_ref_def)
  then show ?thesis
    using whole_enc [OF parses_list [OF parses_utxo_item]] whole_enc [OF parses_address] whole_enc [OF parses_tx]
    by (simp add: json_agrees_def ref_api_def ref_rpc_def ref_ext_def)
qed

text \<open>A node that holds one output, a key of 32 bytes, and the client of its owner.\<close>

definition client_key :: signing_key where
  "client_key = replicate 32 1"

definition client_owner :: address where
  "client_owner = from_pubkey_bytes ref_ext (ed_public ref_ext client_key)"

definition funded_node :: "address \<Rightarrow> u64 \<Rightarrow> (byte list, byte list) RBT.rbt sled_store node_state" where
  "funded_node a amount = node_state_new (fst (sled_apply_block rbt_env ref_ext (sled_new_temporary rbt_env)
     (sample_block 0 [allocation a amount]))) sample_config"

definition client_node :: "(byte list, byte list) RBT.rbt sled_store node_state" where
  "client_node = funded_node client_owner 5"

lemma funded_node_ok:
  "sled_inv rbt_env ref_ext (ns_store (funded_node a amount))"
  "sled_uabs rbt_env ref_ext (ns_store (funded_node a amount)) =
     [out_ref_at ref_ext (allocation a amount) 0 \<mapsto> \<lparr>out_amount = amount, out_address = a\<rparr>]"
  "sled_list_utxos rbt_env ref_ext (ns_store (funded_node a amount)) a =
     Inr [(out_ref_at ref_ext (allocation a amount) 0, \<lparr>out_amount = amount, out_address = a\<rparr>)]"
proof -
  let ?b = "sample_block 0 [allocation a amount]" and ?r = "out_ref_at ref_ext (allocation a amount) 0"
  let ?t = "\<lparr>out_amount = amount, out_address = a\<rparr>"
  obtain s where s: "sled_apply_block rbt_env ref_ext (sled_new_temporary rbt_env) ?b = (s, Inr ())"
    "sled_inv rbt_env ref_ext s" "sled_uabs rbt_env ref_ext s = utxo_apply ref_ext ?b Map.empty"
    using rbt_sled.apply_ok [OF rbt_new(1), of ?b] by (auto simp: sled_utxo_store_def rbt_new)
  have n: "ns_store (funded_node a amount) = s" by (simp add: funded_node_def node_state_new_def s(1))
  have u: "sled_uabs rbt_env ref_ext s = [?r \<mapsto> ?t]"
    using s(3) by (simp add: utxo_apply_def utxo_apply_tx_def tx_refs_def tx_created_def allocation_def)
  obtain xs where xs: "sled_list_utxos rbt_env ref_ext s a = Inr xs" "distinct (map fst xs)"
    "set xs = {(r, t). sled_uabs rbt_env ref_ext s r = Some t \<and> out_address t = a}"
    by (rule rbt_sled.sled_list_utxos_abs [OF s(2)])
  have "set xs = {(?r, ?t)}" unfolding xs(3) u by (auto split: if_splits)
  moreover from this have "length xs = 1" using distinct_card [OF distinct_mapI [OF xs(2)]] by simp
  ultimately have "xs = [(?r, ?t)]" by (cases xs) auto
  then show "sled_inv rbt_env ref_ext (ns_store (funded_node a amount))"
    "sled_uabs rbt_env ref_ext (ns_store (funded_node a amount)) = [?r \<mapsto> ?t]"
    "sled_list_utxos rbt_env ref_ext (ns_store (funded_node a amount)) a = Inr [(?r, ?t)]"
    using s(2) xs(1) n u by simp_all
qed

lemma funded_node_pool:
  "mp_txs (ns_mempool (funded_node a amount)) = []" "mp_in_flight (ns_mempool (funded_node a amount)) = {}"
  "mp_max_size (ns_mempool (funded_node a amount)) = 10"
  by (simp_all add: funded_node_def node_state_new_def mempool_new_def sample_config_def)

lemmas client_node_ok = funded_node_ok(1,3) [of client_owner 5, folded client_node_def]

definition client_env :: "(byte list, byte list) RBT.rbt sled_store node_state cli_env" where
  "client_env = \<lparr>ce_ext = ref_ext, ce_keystore = ref_keystore, ce_rpc = ref_rpc sample_env (length ''http:/''), ce_var = (\<lambda>_. None),
     ce_prompt = (\<lambda>_. Inr ''pass''), ce_seed = client_key, ce_salt = [1], ce_nonce = replicate 12 0, ce_tie = (\<lambda>us. us),
     ce_toml = (\<lambda>_. Inr [])\<rparr>"

lemma client_unlocks:
  obtains d where "keystore_create ref_ext ref_keystore client_key [1] (replicate 12 0) sample_path ''pass'' (sample_disk Map.empty) =
      (d, Inr client_owner)"
    "load_and_decrypt ref_ext ref_keystore sample_path ''pass'' d = Some (Inr client_key)"
proof -
  obtain d a where c: "keystore_create ref_ext ref_keystore client_key [1] (replicate 12 0) sample_path ''pass''
      (sample_disk Map.empty) = (d, Inr a)"
    by (auto simp: keystore_create_def derive_key_def ref_keystore_def atomic_write_def fs_write_def fs_rename_def
        sample_disk_def Let_def)
  from keystore_load [OF ref_hex_roundtrip ref_hex_lower ref_digest_32 ref_keystore_laws _ _ c]
  have "load_and_decrypt ref_ext ref_keystore sample_path ''pass'' d = Some (Inr client_key)" "a = client_owner"
    by (simp_all add: sample_disk_def client_key_def client_owner_def)
  then show thesis using c by (intro that) auto
qed

section \<open>Properties\<close>




definition sample_init :: node_init_args where
  "sample_init = \<lparr>ni_output = sample_path, ni_peer = [], ni_keystore = None, ni_listen_addr = [], ni_http_addr = [],
     ni_sled_path = [], ni_genesis_path = [], ni_slot_duration = 5, ni_mempool_max_size = 7\<rparr>"

text \<open>One configuration suffices for a concrete TOML: the one the sample arguments give.\<close>

definition toml_env :: "(byte list, byte list) RBT.rbt sled_store node_state cli_env" where
  "toml_env = client_env\<lparr>ce_toml := (\<lambda>c. if c = init_config ref_ext sample_init client_key then Inr ''toml'' else Inl ''unsupported'')\<rparr>"


text \<open>
  Claim C34: \<open>wallet new\<close> never destroys a wallet.  Whatever fails, no file that existed before the command
  is changed, except a left-over temporary file beside the new wallet; and a mistyped confirmation
  changes no file at all.
\<close>

theorem wallet_new_keeps_files:
  assumes "cmd_wallet_new C flag w = (w', r)" and "files (w_disk w) q \<noteq> None"
    and "q \<noteq> with_extension ''tmp'' (keystore_flag_path C flag)"
  shows "files (w_disk w') q = files (w_disk w) q \<and>
    (r = Some (Inl PassphraseMismatch) \<longrightarrow> w' = w) \<and>
    (q = keystore_flag_path C flag \<longrightarrow> r = Some (Inl (KeystoreExists (display q))))"
proof (cases "files (w_disk w) (keystore_flag_path C flag) = None")
  case False
  then show ?thesis using assms(1) by (auto simp: cmd_wallet_new_def Let_def)
next
  case True
  let ?p = "keystore_flag_path C flag"
  have q: "q \<noteq> ?p" using True assms(2) by auto
  have "files d q = files (w_disk w) q"
    if "keystore_create E K seed salt nonce ?p pass (w_disk w) = (d, x)" for E K seed salt nonce pass d x
    by (rule create_other [OF that assms(3)]) (use q in simp)
  moreover have "keystore_create E K seed salt nonce ?p pass (w_disk w) \<noteq> (d, Inl PassphraseMismatch)"
    for E K seed salt nonce pass d
    using create_error by fastforce
  ultimately show ?thesis
    using assms(1) True q
    by (auto simp: cmd_wallet_new_def println_def Let_def split: sum.splits prod.splits if_splits)
qed

theorem wallet_new_keeps_files_witness:
  "\<exists>w'. cmd_wallet_new client_env (Some sample_path)
      \<lparr>w_disk = sample_disk [sample_path \<mapsto> ''old''], w_node = client_node, w_out = []\<rparr> =
      (w', Some (Inl (KeystoreExists (display sample_path)))) \<and> files (w_disk w') sample_path = Some ''old''"
proof -
  let ?w = "\<lparr>w_disk = sample_disk [sample_path \<mapsto> ''old''], w_node = client_node, w_out = []\<rparr>"
  obtain w' r where "cmd_wallet_new client_env (Some sample_path) ?w = (w', r)" by fastforce
  with wallet_new_keeps_files [OF this, of sample_path] show ?thesis
    by (simp add: sample_disk_def keystore_flag_path_def with_extension_def sample_path_def)
qed

end
