(* ===== verification/Bcc_Visualizer.thy ===== *)
theory Bcc_Visualizer
  imports Bcc_Api
begin

text \<open>
  The path of a debug event from a node to the browser: \<open>bcc-node/src/debug_ws.rs\<close> (snapshot and stream of
  a node) and \<open>tools/bcc-visualizer\<close> (\<open>node_client.rs\<close>, \<open>event_bus.rs\<close>, \<open>server.rs\<close> and the URLs of \<open>main.rs\<close>).
  The bus keeps exactly the latest events with consecutive numbers, and the visualizer finds the HTTP
  address of a node from its debug address unless the port overflowed.
\<close>

section \<open>\<open>debug_ws.rs\<close>\<close>

text \<open>
  JSON and the parsing of time stamps.  A point in time is a number of milliseconds; \<open>tungstenite\<close> and
  the broadcast channel are the inputs of the loops.
\<close>

record ws_envelope =
  wse_seq :: u64
  wse_node :: string
  wse_ts :: int
  wse_event :: debug_event

record vis_ext =
  json_debug_envelope :: "debug_envelope \<Rightarrow> string + string"
  unjson_debug_envelope :: "string \<Rightarrow> string + debug_envelope"
  json_ws_envelope :: "ws_envelope \<Rightarrow> string + string"
  json_ws_envelopes :: "ws_envelope list \<Rightarrow> byte list"
  parse_datetime :: "string \<Rightarrow> int option"

definition build_snapshot :: "'s node_env \<Rightarrow> u128 \<Rightarrow> 's node_state \<Rightarrow> debug_envelope" where
  "build_snapshot Env millis st =
     (let (h, hash) = (case bs_tip (ne_blocks Env) (ns_store st) of
            Inr (Some (h, hash)) \<Rightarrow> (h, hex_encode (ne_ext Env) hash) | _ \<Rightarrow> (0, replicate 64 CHR ''0''));
          peers = map (show_addr (ne_net Env)) (peers_addrs (ne_net Env) (ns_peers st))
      in envelope_now millis (NodeSnapshot h hash peers (mempool_len (ns_mempool st))))"

text \<open>What the loop of a connection receives; the flag of an event says whether the send succeeds.\<close>

datatype 'e ws_input =
    WsEvent 'e bool
  | WsLagged nat
  | WsChannelClosed
  | WsClientMessage
  | WsClientGone

text \<open>The frames a client gets; the two servers differ in the notice about dropped events.\<close>

fun ws_loop :: "('e \<Rightarrow> string + string) \<Rightarrow> (nat \<Rightarrow> string) \<Rightarrow> 'e ws_input list \<Rightarrow> string list" where
  "ws_loop enc notice [] = []"
| "ws_loop enc notice (WsEvent e ok # is) =
     (case enc e of Inl _ \<Rightarrow> ws_loop enc notice is | Inr j \<Rightarrow> if ok then j # ws_loop enc notice is else [])"
| "ws_loop enc notice (WsLagged n # is) = notice n # ws_loop enc notice is"
| "ws_loop enc notice (WsChannelClosed # is) = []"
| "ws_loop enc notice (WsClientMessage # is) = ws_loop enc notice is"
| "ws_loop enc notice (WsClientGone # is) = []"

definition debug_notice :: "nat \<Rightarrow> string" where
  "debug_notice n = ''{'' @ [CHR 0x22] @ ''kind'' @ [CHR 0x22] @ '':'' @ [CHR 0x22] @ ''Lagged'' @ [CHR 0x22] @ '','' @
     [CHR 0x22] @ ''dropped'' @ [CHR 0x22] @ '':'' @ show_nat n @ ''}''"

definition debug_handle :: "vis_ext \<Rightarrow> bool \<Rightarrow> debug_envelope \<Rightarrow> debug_envelope ws_input list \<Rightarrow> string list" where
  "debug_handle X accepted snapshot inputs =
     (if \<not> accepted then []
      else (case json_debug_envelope X snapshot of Inl _ \<Rightarrow> [] | Inr j \<Rightarrow> [j]) @
        ws_loop (json_debug_envelope X) debug_notice inputs)"

section \<open>\<open>event_bus.rs\<close>\<close>

text \<open>\<open>eb_sent\<close> is what was sent on the broadcast channel.\<close>

record event_bus =
  eb_sent :: "ws_envelope list"
  eb_recent :: "ws_envelope list"
  eb_seq :: u64
  eb_capacity :: nat

definition event_bus_new :: "nat \<Rightarrow> event_bus" where
  "event_bus_new capacity = \<lparr>eb_sent = [], eb_recent = [], eb_seq = 0, eb_capacity = capacity\<rparr>"

definition publish :: "string \<Rightarrow> int \<Rightarrow> debug_event \<Rightarrow> event_bus \<Rightarrow> event_bus" where
  "publish node ts event bus =
     (let envelope = \<lparr>wse_seq = eb_seq bus, wse_node = node, wse_ts = ts, wse_event = event\<rparr>;
          buf = (if eb_capacity bus \<le> length (eb_recent bus) then drop 1 (eb_recent bus) else eb_recent bus)
      in bus\<lparr>eb_seq := eb_seq bus + 1, eb_recent := buf @ [envelope], eb_sent := eb_sent bus @ [envelope]\<rparr>)"

definition publish_local :: "string \<Rightarrow> int \<Rightarrow> debug_event \<Rightarrow> event_bus \<Rightarrow> event_bus" where
  "publish_local node now event = publish node now event"

definition recent_sync :: "event_bus \<Rightarrow> ws_envelope list" where
  "recent_sync bus = eb_recent bus"

section \<open>\<open>node_client.rs\<close>\<close>

datatype client_frame = FText string | FClose | FError | FOther

text \<open>One connection; \<open>None\<close> is a connection that fails.\<close>

fun relay :: "vis_ext \<Rightarrow> string \<Rightarrow> int \<Rightarrow> client_frame list \<Rightarrow> event_bus \<Rightarrow> event_bus" where
  "relay X node now [] bus = bus"
| "relay X node now (FText t # fs) bus =
     (case unjson_debug_envelope X t of
        Inl _ \<Rightarrow> relay X node now fs bus
      | Inr env \<Rightarrow>
        relay X node now fs
          (publish node (case parse_datetime X (env_ts env) of Some ts \<Rightarrow> ts | None \<Rightarrow> now) (env_event env) bus))"
| "relay X node now (FClose # fs) bus = bus"
| "relay X node now (FError # fs) bus = bus"
| "relay X node now (FOther # fs) bus = relay X node now fs bus"

definition run_once :: "vis_ext \<Rightarrow> string \<Rightarrow> int \<Rightarrow> client_frame list option \<Rightarrow> event_bus \<Rightarrow> event_bus" where
  "run_once X node now conn bus = (case conn of None \<Rightarrow> bus | Some fs \<Rightarrow> relay X node now fs bus)"

definition next_backoff :: "nat \<Rightarrow> nat" where
  "next_backoff b = min (b * 2) 30"

text \<open>The connections one after the other, with the pauses between them.\<close>

fun client_loop ::
  "vis_ext \<Rightarrow> string \<Rightarrow> int \<Rightarrow> nat \<Rightarrow> client_frame list option list \<Rightarrow> event_bus \<Rightarrow> event_bus \<times> nat list" where
  "client_loop X node now backoff [] bus = (bus, [])"
| "client_loop X node now backoff (conn # conns) bus =
     (let (bus', pauses) = client_loop X node now (next_backoff backoff) conns (run_once X node now conn bus)
      in (bus', backoff # pauses))"

section \<open>Addresses\<close>

text \<open>The debug address of a node (\<open>bcc-node/src/main.rs\<close>), and \<open>main.rs\<close> of the visualizer.\<close>

definition debug_port :: "16 word \<Rightarrow> 16 word" where
  "debug_port p = p + 1000"

fun split_on :: "char \<Rightarrow> string \<Rightarrow> string list" where
  "split_on c [] = [[]]"
| "split_on c (x # xs) =
     (if x = c then [] # split_on c xs
      else case split_on c xs of [] \<Rightarrow> [[x]] | w # ws \<Rightarrow> (x # w) # ws)"

definition parse_u16 :: "string \<Rightarrow> 16 word option" where
  "parse_u16 s = (case parse_usize s of Some n \<Rightarrow> if n < 65536 then Some (of_nat n) else None | None \<Rightarrow> None)"

definition strip_prefix :: "string \<Rightarrow> string \<Rightarrow> string option" where
  "strip_prefix p s = (if prefix p s then Some (drop (length p) s) else None)"

definition strip_suffix :: "string \<Rightarrow> string \<Rightarrow> string option" where
  "strip_suffix p s = (if suffix p s then Some (take (length s - length p) s) else None)"

definition rsplit_once :: "char \<Rightarrow> string \<Rightarrow> (string \<times> string) option" where
  "rsplit_once c s =
     (let tail = takeWhile (\<lambda>x. x \<noteq> c) (rev s)
      in if length tail = length s then None else Some (take (length s - length tail - 1) s, rev tail))"

definition scenario_url :: "string \<Rightarrow> string option" where
  "scenario_url url =
     (case strip_prefix ''ws://'' (trim url) of None \<Rightarrow> None
      | Some u \<Rightarrow>
        (case rsplit_once CHR '':'' (case strip_suffix ''/debug'' u of Some v \<Rightarrow> v | None \<Rightarrow> u) of None \<Rightarrow> None
         | Some (host, port_str) \<Rightarrow>
           (case parse_u16 port_str of None \<Rightarrow> None
            | Some p \<Rightarrow> Some (''http://'' @ host @ '':'' @ show_nat (unat p - 1000)))))"

definition node_urls :: "string option \<Rightarrow> string \<Rightarrow> (string \<times> string) list" where
  "node_urls debug_urls node_ports =
     (case debug_urls of
        Some raw \<Rightarrow> map (\<lambda>(i, url). (''node'' @ show_nat (i + 1), trim url)) (enumerate 0 (split_on CHR '','' raw))
      | None \<Rightarrow> List.map_filter (\<lambda>(i, s). map_option (\<lambda>p :: 16 word. (''node'' @ show_nat (i + 1),
            ''ws://127.0.0.1:'' @ show_nat (unat (p + 1000)) @ ''/debug'')) (parse_u16 (trim s)))
          (enumerate 0 (split_on CHR '','' node_ports)))"

definition scenario_urls :: "string option \<Rightarrow> string \<Rightarrow> string list" where
  "scenario_urls debug_urls node_ports =
     (case debug_urls of
        Some raw \<Rightarrow> List.map_filter scenario_url (split_on CHR '','' raw)
      | None \<Rightarrow> map (\<lambda>p. ''http://127.0.0.1:'' @ show_nat (unat p))
          (List.map_filter (\<lambda>s. parse_u16 (trim s)) (split_on CHR '','' node_ports)))"

section \<open>\<open>server.rs\<close>\<close>

definition contains :: "string \<Rightarrow> string \<Rightarrow> bool" where
  "contains s w \<longleftrightarrow> list_ex (\<lambda>i. prefix w (drop i s)) [0..<length s + 1]"

definition PEEK_BUF :: nat where
  "PEEK_BUF = 4096"

definition is_ws :: "string \<Rightarrow> bool" where
  "is_ws preview \<longleftrightarrow> list_ex (\<lambda>i. map lower_char (take 18 (drop i preview)) = ''upgrade: websocket'')
     [0..<length preview + 1 - 18]"

definition first_line :: "string \<Rightarrow> string" where
  "first_line s = (let l = takeWhile (\<lambda>c. c \<noteq> CHR 0x0A) s in if l \<noteq> [] \<and> last l = CHR 0x0D then butlast l else l)"

definition http_200 :: "string \<Rightarrow> byte list \<Rightarrow> byte list" where
  "http_200 content_type body = str_bytes (response_header 200 ''OK'' content_type (length body)) @ body"

definition extract_path_tail :: "string \<Rightarrow> string \<Rightarrow> string" where
  "extract_path_tail line pre =
     (let after_method = tl (dropWhile (\<lambda>c. c \<noteq> CHR '' '') line);
          path = takeWhile (\<lambda>c. c \<noteq> CHR '' '') after_method
      in case strip_prefix pre path of None \<Rightarrow> []
         | Some t \<Rightarrow> rev (dropWhile (\<lambda>c. c = CHR ''/'') (rev t)))"

definition started_body :: "string \<Rightarrow> string" where
  "started_body name = (let q = [CHR 0x22] in ''{'' @ q @ ''status'' @ q @ '':'' @ q @ ''started'' @ q @ '','' @
     q @ ''scenario'' @ q @ '':'' @ q @ name @ q @ ''}'')"

text \<open>The response, and the scenario it starts.\<close>

definition vis_route :: "vis_ext \<Rightarrow> byte list \<Rightarrow> string \<Rightarrow> event_bus \<Rightarrow> byte list \<times> string option" where
  "vis_route X index_html line bus =
     (let name = extract_path_tail line ''/api/scenario/'' in
      if prefix ''GET / '' line \<or> line = ''GET / HTTP/1.1'' then (http_200 ''text/html; charset=utf-8'' index_html, None)
      else if contains line ''/api/events'' then (http_200 ''application/json'' (json_ws_envelopes X (recent_sync bus)), None)
      else if prefix ''POST /api/scenario/'' line \<and> name \<noteq> []
      then (http_200 ''application/json'' (str_bytes (started_body name)), Some name)
      else if prefix ''OPTIONS'' line then (ok_no_content, None)
      else (str_bytes (''HTTP/1.1 404 Not Found'' @ crlf @ ''Content-Length: 0'' @ crlf @ ''Connection: close'' @ crlf @ crlf), None))"

definition lagged_notice :: "nat \<Rightarrow> string" where
  "lagged_notice n = ''{'' @ [CHR 0x22] @ ''lagged'' @ [CHR 0x22] @ '':'' @ show_nat n @ ''}''"

text \<open>
  A browser's WebSocket: the recent events when it is replayed, then what the subscription delivers.
  A replay that fails to send ends the connection (\<open>None\<close>: every send succeeds).
\<close>

definition vis_handle_ws :: "vis_ext \<Rightarrow> bool \<Rightarrow> nat option \<Rightarrow> event_bus \<Rightarrow> ws_envelope ws_input list \<Rightarrow> string list" where
  "vis_handle_ws X accepted fails_at bus inputs =
     (if \<not> accepted then []
      else let replay = List.map_filter (\<lambda>e. case json_ws_envelope X e of Inl _ \<Rightarrow> None | Inr j \<Rightarrow> Some j) (recent_sync bus)
        in case fails_at of
             Some k \<Rightarrow> if k < length replay then take k replay else replay @ ws_loop (json_ws_envelope X) lagged_notice inputs
           | None \<Rightarrow> replay @ ws_loop (json_ws_envelope X) lagged_notice inputs)"

text \<open>\<open>None\<close> is a connection that cannot be peeked at.\<close>

datatype vis_answer = NoAnswer | AnswerWs "string list" | AnswerHttp "byte list"

definition vis_handle_connection ::
  "vis_ext \<Rightarrow> byte list \<Rightarrow> string option \<Rightarrow> bool \<Rightarrow> nat option \<Rightarrow> ws_envelope ws_input list \<Rightarrow> event_bus \<Rightarrow>
   vis_answer \<times> string option" where
  "vis_handle_connection X index_html request accepted fails_at inputs bus =
     (case request of None \<Rightarrow> (NoAnswer, None)
      | Some bytes \<Rightarrow>
        (let preview = take PEEK_BUF bytes in
         if is_ws preview then (AnswerWs (vis_handle_ws X accepted fails_at bus inputs), None)
         else case vis_route X index_html (first_line preview) bus of (resp, started) \<Rightarrow> (AnswerHttp resp, started)))"

section \<open>Lemmas\<close>

text \<open>The bus keeps the last events sent, numbered from 0.\<close>

definition latest :: "nat \<Rightarrow> 'a list \<Rightarrow> 'a list" where
  "latest n xs = drop (length xs - n) xs"

definition bus_ok :: "event_bus \<Rightarrow> bool" where
  "bus_ok bus \<longleftrightarrow> eb_recent bus = latest (eb_capacity bus) (eb_sent bus) \<and>
     map wse_seq (eb_sent bus) = map of_nat [0..<length (eb_sent bus)] \<and> eb_seq bus = of_nat (length (eb_sent bus))"

lemma latest_snoc: "0 < n \<Longrightarrow> latest n (xs @ [x]) = (if n \<le> length (latest n xs) then drop 1 (latest n xs) else latest n xs) @ [x]"
  by (simp add: latest_def Suc_diff_le)

lemma latest_map: "latest n (map f xs) = map f (latest n xs)"
  by (simp add: latest_def drop_map)

lemma bus_ok_new: "bus_ok (event_bus_new n)"
  by (simp add: bus_ok_def event_bus_new_def latest_def)

lemma publish_simps [simp]:
  "eb_capacity (publish node ts e bus) = eb_capacity bus"
  "eb_sent (publish node ts e bus) = eb_sent bus @ [\<lparr>wse_seq = eb_seq bus, wse_node = node, wse_ts = ts, wse_event = e\<rparr>]"
  by (simp_all add: publish_def Let_def)

lemma publish_ok: "0 < eb_capacity bus \<Longrightarrow> bus_ok bus \<Longrightarrow> bus_ok (publish node ts e bus)"
  by (simp add: bus_ok_def publish_def Let_def latest_snoc)

text \<open>A stream of readable frames is published event by event.\<close>

definition publish_all :: "vis_ext \<Rightarrow> string \<Rightarrow> int \<Rightarrow> debug_envelope list \<Rightarrow> event_bus \<Rightarrow> event_bus" where
  "publish_all X node now es bus =
     fold (\<lambda>e. publish node (case parse_datetime X (env_ts e) of Some ts \<Rightarrow> ts | None \<Rightarrow> now) (env_event e)) es bus"

lemma relay_texts:
  assumes "\<And>e. e \<in> set es \<Longrightarrow> unjson_debug_envelope X (enc e) = Inr e"
  shows "relay X node now (map (FText \<circ> enc) es) bus = publish_all X node now es bus"
  using assms by (induction es arbitrary: bus) (simp_all add: publish_all_def)

lemma publish_all_capacity [simp]: "eb_capacity (publish_all X node now es bus) = eb_capacity bus"
  by (induction es arbitrary: bus) (simp_all add: publish_all_def)

lemma publish_all_ok: "0 < eb_capacity bus \<Longrightarrow> bus_ok bus \<Longrightarrow> bus_ok (publish_all X node now es bus)"
  by (induction es arbitrary: bus) (simp_all add: publish_all_def publish_ok)

lemma publish_all_sent:
  "map wse_event (eb_sent (publish_all X node now es bus)) = map wse_event (eb_sent bus) @ map env_event es"
  "map wse_node (eb_sent (publish_all X node now es bus)) = map wse_node (eb_sent bus) @ replicate (length es) node"
  by (induction es arbitrary: bus) (simp_all add: publish_all_def)

lemma ws_loop_events:
  assumes "\<And>e. e \<in> set es \<Longrightarrow> enc e = Inr (f e)"
  shows "ws_loop enc notice (map (\<lambda>e. WsEvent e True) es) = map f es"
  using assms by (induction es) auto

text \<open>Addresses.\<close>

definition debug_url :: "string \<times> 16 word \<Rightarrow> string" where
  "debug_url x = ''ws://'' @ fst x @ '':'' @ show_nat (unat (debug_port (snd x))) @ ''/debug''"

fun join_on :: "char \<Rightarrow> string list \<Rightarrow> string" where
  "join_on c [] = []"
| "join_on c [w] = w"
| "join_on c (w # ws) = w @ c # join_on c ws"

lemma split_on_word: "c \<notin> set w \<Longrightarrow> split_on c w = [w] \<and> split_on c (w @ c # s) = w # split_on c s"
  by (induction w) auto

lemma split_join: "ws \<noteq> [] \<Longrightarrow> \<forall>w \<in> set ws. c \<notin> set w \<Longrightarrow> split_on c (join_on c ws) = ws"
  by (induction c ws rule: join_on.induct) (simp_all add: split_on_word)

lemma rsplit_last: "c \<notin> set t \<Longrightarrow> rsplit_once c (h @ c # t) = Some (h, t)"
proof -
  assume "c \<notin> set t"
  then have "takeWhile (\<lambda>x. x \<noteq> c) (rev t @ c # rev h) = rev t" by (subst takeWhile_append2) auto
  then show ?thesis by (simp add: rsplit_once_def)
qed

lemma trim_id: "s \<noteq> [] \<Longrightarrow> \<not> is_space (hd s) \<Longrightarrow> \<not> is_space (last s) \<Longrightarrow> trim s = s"
proof -
  have id: "dropWhile is_space xs = xs" if "xs \<noteq> []" "\<not> is_space (hd xs)" for xs using that by (cases xs) auto
  show "s \<noteq> [] \<Longrightarrow> \<not> is_space (hd s) \<Longrightarrow> \<not> is_space (last s) \<Longrightarrow> trim s = s"
    using id [of s] id [of "rev s"] by (simp add: trim_def hd_rev)
qed

lemma show_nat_chars: "\<not> is_digit c \<Longrightarrow> c \<notin> set (show_nat n)"
  using digits_show_nat [of n] by (auto simp: list_all_iff)

lemma parse_u16_show: "parse_u16 (show_nat (unat p)) = Some p"
proof -
  have "unat p < 65536" using unsigned_less [of p] by simp
  then show ?thesis using parse_show_nat [of "unat p"] by (simp add: parse_u16_def u64_max_def)
qed

lemma scenario_debug_url: "scenario_url (debug_url x) = Some (''http://'' @ fst x @ '':'' @ show_nat (unat (debug_port (snd x)) - 1000))"
proof -
  let ?d = "show_nat (unat (debug_port (snd x)))"
  have "CHR '':'' \<notin> set ?d" by (rule show_nat_chars) (simp add: is_digit_def less_eq_char_def)
  note r = rsplit_last [OF this, of "fst x"]
  have "trim (debug_url x) = debug_url x"
    by (rule trim_id) (simp_all add: debug_url_def is_space_def)
  then show ?thesis
    using r by (simp add: scenario_url_def debug_url_def strip_prefix_def strip_suffix_def suffix_def parse_u16_show)
qed

lemma debug_port_back: "unat (debug_port p) - 1000 = (if unat p \<le> 64535 then unat p else 0)"
proof -
  have "unat p < 65536" using unsigned_less [of p] by simp
  moreover have "unat (debug_port p) = (unat p + 1000) mod 65536"
    by (simp add: debug_port_def unat_word_ariths)
  ultimately show ?thesis by (auto simp: mod_if)
qed

section \<open>Properties\<close>


definition sample_vis :: vis_ext where
  "sample_vis = \<lparr>json_debug_envelope = (\<lambda>e. Inr (env_ts e)), unjson_debug_envelope = (\<lambda>t. Inr \<lparr>env_ts = t, env_event = NodeStopping\<rparr>),
     json_ws_envelope = (\<lambda>_. Inl []), json_ws_envelopes = (\<lambda>_. []), parse_datetime = (\<lambda>_. None)\<rparr>"


text \<open>
  The visualizer finds its nodes.  From the comma-separated debug addresses of nodes it derives
  their HTTP addresses, as long as the HTTP ports are at most 64535; beyond that the debug port of the
  node has wrapped around and the derived port is 0.
\<close>

lemma debug_urls_roundtrip:
  assumes "xs \<noteq> []" and "\<forall>x \<in> set xs. CHR '','' \<notin> set (fst x)"
  shows "scenario_urls (Some (join_on CHR '','' (map debug_url xs))) ports =
    map (\<lambda>x. ''http://'' @ fst x @ '':'' @ show_nat (if unat (snd x) \<le> 64535 then unat (snd x) else 0)) xs"
proof -
  have "CHR '','' \<notin> set (show_nat n)" for n by (rule show_nat_chars) (simp add: is_digit_def less_eq_char_def)
  then have "split_on CHR '','' (join_on CHR '','' (map debug_url xs)) = map debug_url xs"
    using assms by (intro split_join) (auto simp: debug_url_def)
  moreover have "List.map_filter scenario_url (map debug_url xs) =
      map (\<lambda>x. ''http://'' @ fst x @ '':'' @ show_nat (unat (debug_port (snd x)) - 1000)) xs"
    by (induction xs) (simp_all add: scenario_debug_url map_filter_simps)
  ultimately show ?thesis by (simp add: scenario_urls_def debug_port_back)
qed

text \<open>A scenario is started by its name, for names without a blank that do not end in a slash.\<close>

lemma scenario_started:
  assumes "CHR '' '' \<notin> set name" and "name \<noteq> []" and "last name \<noteq> CHR ''/''"
    and "\<not> contains (''POST /api/scenario/'' @ name @ '' HTTP/1.1'') ''/api/events''"
  shows "snd (vis_route X html (''POST /api/scenario/'' @ name @ '' HTTP/1.1'') bus) = Some name"
proof -
  have "extract_path_tail (''POST /api/scenario/'' @ name @ '' HTTP/1.1'') ''/api/scenario/'' = name"
    using assms(1-3) by (cases name rule: rev_cases)
      (auto simp: extract_path_tail_def strip_prefix_def takeWhile_append takeWhile_eq_all_conv)
  then show ?thesis using assms(2,4) by (simp add: vis_route_def)
qed

text \<open>The pause between connections grows to 30 seconds and never shrinks, also after a connection that worked.\<close>

lemma client_pauses: "snd (client_loop X node now b conns bus) = map (\<lambda>i. (next_backoff ^^ i) b) [0..<length conns]"
  by (induction conns arbitrary: b bus)
    (simp_all add: case_prod_beta upt_conv_Cons map_Suc_upt [symmetric] funpow_swap1 del: upt_Suc)

end
