(* ===== verification/Bcc_Scenarios.thy ===== *)
theory Bcc_Scenarios
  imports Bcc_Client Bcc_Visualizer
begin

text \<open>
  \<open>tools/bcc-visualizer/src/scenarios.rs\<close>: the scripted demonstrations.  A scenario is a state transformer over
  the event bus, the network of nodes and the clock, with early returns and panics as values.
\<close>

section \<open>The world of a scenario\<close>

datatype scenario_status = Running | Pass | Fail

record scenario_step =
  ss_name :: string
  ss_status :: scenario_status
  ss_detail :: string
  ss_elapsed_ms :: u64

record scenario_result =
  sr_scenario :: string
  sr_status :: scenario_status
  sr_elapsed_ms :: u64
  sr_steps :: "scenario_step list"

text \<open>
  The clock counts milliseconds; \<open>sx_delay\<close> says how much time passes before its \<open>n\<close>-th reading.  \<open>sx_split\<close> is
  how the network answers the requests of \<open>split_utxo\<close>, and the state it is in afterwards.  Requests sent
  concurrently are carried out in the order in which their answers are collected.
\<close>

record 'n sc_env =
  sx_ext :: ext
  sx_rpc :: "'n rpc_ext"
  sx_delay :: "nat \<Rightarrow> nat"
  sx_tie :: "utxo_item list \<Rightarrow> utxo_item list"
  sx_split :: "'n \<Rightarrow> split_env \<times> 'n"

record 'n sc_world =
  sw_bus :: event_bus
  sw_net :: 'n
  sw_now :: nat
  sw_readings :: nat

datatype 'a sc_out = Cont 'a | Ret scenario_result | Panic

type_synonym ('n, 'a) sc = "'n sc_world \<Rightarrow> 'n sc_world \<times> 'a sc_out"

definition sc_return :: "'a \<Rightarrow> ('n, 'a) sc" where
  "sc_return x w = (w, Cont x)"

definition sc_panic :: "('n, 'a) sc" where
  "sc_panic w = (w, Panic)"

definition sc_bind :: "('n, 'a) sc \<Rightarrow> ('a \<Rightarrow> ('n, 'b) sc) \<Rightarrow> ('n, 'b) sc" where
  "sc_bind m f w = (case m w of (w', Cont x) \<Rightarrow> f x w' | (w', Ret r) \<Rightarrow> (w', Ret r) | (w', Panic) \<Rightarrow> (w', Panic))"

definition sc_seq :: "('n, 'a) sc \<Rightarrow> ('n, 'b) sc \<Rightarrow> ('n, 'b) sc" where
  "sc_seq m k = sc_bind m (\<lambda>_. k)"

text \<open>Requests, readings of the clock, indexing and slicing.\<close>

definition sc_net :: "('n \<Rightarrow> 'n \<times> 'a) \<Rightarrow> ('n, 'a) sc" where
  "sc_net f w = (case f (sw_net w) of (n, x) \<Rightarrow> (w\<lparr>sw_net := n\<rparr>, Cont x))"

definition sc_tick :: "'n sc_env \<Rightarrow> 'n sc_world \<Rightarrow> 'n sc_world" where
  "sc_tick C w = w\<lparr>sw_now := sw_now w + sx_delay C (sw_readings w), sw_readings := sw_readings w + 1\<rparr>"

definition sc_now :: "'n sc_env \<Rightarrow> ('n, nat) sc" where
  "sc_now C w = (let w' = sc_tick C w in (w', Cont (sw_now w')))"

definition sc_index :: "'a list \<Rightarrow> nat \<Rightarrow> ('n, 'a) sc" where
  "sc_index xs i = (if i < length xs then sc_return (xs ! i) else sc_panic)"

definition sc_slice :: "nat \<Rightarrow> string \<Rightarrow> ('n, string) sc" where
  "sc_slice n s = (if n \<le> length s then sc_return (take n s) else sc_panic)"

section \<open>Helpers\<close>

definition FUNDER_SEED :: "byte list" where
  "FUNDER_SEED = replicate 32 0x42"

definition funder_key :: signing_key where
  "funder_key = FUNDER_SEED"

definition funder_addr :: "ext \<Rightarrow> address" where
  "funder_addr E = from_pubkey_bytes E (ed_public E funder_key)"

definition recipient_addr :: "ext \<Rightarrow> byte \<Rightarrow> address" where
  "recipient_addr E tag = from_pubkey_bytes E (ed_public E (replicate 32 tag))"

definition publish_step :: "'n sc_env \<Rightarrow> string \<Rightarrow> string \<Rightarrow> string \<Rightarrow> string \<Rightarrow> ('n, unit) sc" where
  "publish_step C scenario step status detail w =
     (let w' = sc_tick C w in
      (w'\<lparr>sw_bus := publish_local ''visualizer'' (int (sw_now w')) (ScenarioEvent scenario step status detail) (sw_bus w')\<rparr>,
       Cont ()))"

definition ok_step :: "'n sc_env \<Rightarrow> string \<Rightarrow> string \<Rightarrow> nat \<Rightarrow> ('n, scenario_step) sc" where
  "ok_step C name detail start =
     sc_bind (sc_now C) (\<lambda>t. sc_return \<lparr>ss_name = name, ss_status = Pass, ss_detail = detail, ss_elapsed_ms = of_nat (t - start)\<rparr>)"

definition fail_result :: "'n sc_env \<Rightarrow> string \<Rightarrow> nat \<Rightarrow> scenario_step list \<Rightarrow> string \<Rightarrow> ('n, scenario_result) sc" where
  "fail_result C scenario start steps reason =
     sc_bind (sc_now C) (\<lambda>t1. sc_bind (sc_now C) (\<lambda>t2. sc_return
       \<lparr>sr_scenario = scenario, sr_status = Fail, sr_elapsed_ms = of_nat (t2 - start),
        sr_steps = steps @ [\<lparr>ss_name = ''error'', ss_status = Fail, ss_detail = reason, ss_elapsed_ms = of_nat (t1 - start)\<rparr>]\<rparr>))"

text \<open>\<open>return fail_result(..)\<close>, and the last expression of a scenario that passes.\<close>

definition sc_fail :: "'n sc_env \<Rightarrow> string \<Rightarrow> nat \<Rightarrow> scenario_step list \<Rightarrow> string \<Rightarrow> ('n, 'a) sc" where
  "sc_fail C scenario start steps reason = sc_bind (fail_result C scenario start steps reason) (\<lambda>r w. (w, Ret r))"

definition sc_pass :: "'n sc_env \<Rightarrow> string \<Rightarrow> nat \<Rightarrow> scenario_step list \<Rightarrow> ('n, scenario_result) sc" where
  "sc_pass C scenario start steps = sc_bind (sc_now C) (\<lambda>t. sc_return
     \<lparr>sr_scenario = scenario, sr_status = Pass, sr_elapsed_ms = of_nat (t - start), sr_steps = steps\<rparr>)"

definition hex_to_hash :: "ext \<Rightarrow> string \<Rightarrow> string + byte list" where
  "hex_to_hash E s = (case hex_decode E s of Inl e \<Rightarrow> Inl (''hex decode: '' @ e)
     | Inr bytes \<Rightarrow> if length bytes = 32 then Inr bytes else Inl ''tx_hash must be 32 bytes'')"

text \<open>
  Polling: the deadline is checked before every poll.  A sleep takes at least as long as asked for and,
  as the timer counts milliseconds, at least one.
\<close>

function wait_loop ::
  "'n sc_env \<Rightarrow> string \<Rightarrow> string \<Rightarrow> nat \<Rightarrow> ('n \<Rightarrow> 'n \<times> string option) \<Rightarrow> nat \<Rightarrow> 'n sc_world \<Rightarrow> 'n sc_world \<times> bool" where
  "wait_loop C scenario step poll predicate deadline w =
     (let w1 = sc_tick C w in
      if deadline < sw_now w1 then (w1, False)
      else case predicate (sw_net w1) of
        (n, None) \<Rightarrow> (w1\<lparr>sw_net := n\<rparr>, True)
      | (n, Some progress) \<Rightarrow>
        (let w2 = fst (publish_step C scenario step ''progress'' progress (w1\<lparr>sw_net := n\<rparr>))
         in wait_loop C scenario step poll predicate deadline (w2\<lparr>sw_now := sw_now w2 + max 1 poll\<rparr>)))"
  by pat_completeness auto

termination
  by (relation "measure (\<lambda>(_, _, _, _, _, deadline, w). deadline + 1 - sw_now w)")
    (auto simp: publish_step_def sc_tick_def Let_def)

declare wait_loop.simps [simp del]

definition wait_until ::
  "'n sc_env \<Rightarrow> string \<Rightarrow> string \<Rightarrow> nat \<Rightarrow> nat \<Rightarrow> ('n \<Rightarrow> 'n \<times> string option) \<Rightarrow> ('n, bool) sc" where
  "wait_until C scenario step timeout poll predicate =
     sc_bind (sc_now C) (\<lambda>t w. case wait_loop C scenario step poll predicate (t + timeout) w of (w', ok) \<Rightarrow> (w', Cont ok))"

text \<open>The balances of an address on all nodes; an error counts as 0.\<close>

fun fetch_balances :: "'n rpc_ext \<Rightarrow> string list \<Rightarrow> string \<Rightarrow> 'n \<Rightarrow> 'n \<times> u64 list" where
  "fetch_balances R [] addr n = (n, [])"
| "fetch_balances R (u # us) addr n =
     (let (n1, r) = rpc_get_balance R u addr n; (n2, bs) = fetch_balances R us addr n1
      in (n2, (case r of Inl _ \<Rightarrow> 0 | Inr x \<Rightarrow> br_balance x) # bs))"

definition confirmations :: "u64 \<Rightarrow> u64 list \<Rightarrow> nat" where
  "confirmations amount balances = length (filter (\<lambda>b. b = amount) balances)"

text \<open>All given payments have arrived on all nodes; otherwise the first that has not.\<close>

fun all_confirmed :: "'n rpc_ext \<Rightarrow> string list \<Rightarrow> string \<Rightarrow> (address \<times> u64) list \<Rightarrow> 'n \<Rightarrow> 'n \<times> string option" where
  "all_confirmed R urls what [] n = (n, None)"
| "all_confirmed R urls what ((a, amount) # ps) n =
     (let (n1, balances) = fetch_balances R urls (as_str a) n; ok = confirmations amount balances in
      if ok < length urls
      then (n1, Some (as_str a @ '': '' @ show_nat ok @ ''/'' @ show_nat (length urls) @ '' '' @ what))
      else all_confirmed R urls what ps n1)"

fun post_all :: "ext \<Rightarrow> 'n rpc_ext \<Rightarrow> (string \<times> transaction) list \<Rightarrow> 'n \<Rightarrow> 'n \<times> (client_error + string) list" where
  "post_all E R [] n = (n, [])"
| "post_all E R ((u, tx) # ps) n =
     (let (n1, r) = rpc_post_tx E R u tx n; (n2, rs) = post_all E R ps n1 in (n2, r # rs))"

definition accepted_count :: "(client_error + 'a) list \<Rightarrow> nat" where
  "accepted_count rs = length (filter (\<lambda>r. \<not> isl r) rs)"

definition largest_first :: "'n sc_env \<Rightarrow> utxo_item list \<Rightarrow> utxo_item list" where
  "largest_first C us = sort_key (\<lambda>u. - int (unat (ui_amount u))) (sx_tie C us)"

definition smallest_first :: "'n sc_env \<Rightarrow> utxo_item list \<Rightarrow> utxo_item list" where
  "smallest_first C us = sort_key ui_amount (sx_tie C us)"

definition sc_split :: "'n sc_env \<Rightarrow> utxo_item \<Rightarrow> nat \<Rightarrow> ('n, string + utxo_item list) sc" where
  "sc_split C u k = sc_net (\<lambda>n. (snd (sx_split C n),
     split_utxo (sx_ext C) (fst (sx_split C n)) funder_key (funder_addr (sx_ext C)) u k))"

text \<open>A failing step is published before the scenario returns.\<close>

definition sc_report :: "'n sc_env \<Rightarrow> string \<Rightarrow> string \<Rightarrow> nat \<Rightarrow> scenario_step list \<Rightarrow> string \<Rightarrow> ('n, 'a) sc" where
  "sc_report C name step start steps msg = sc_seq (publish_step C name step ''fail'' msg) (sc_fail C name start steps msg)"

section \<open>\<open>single_transfer\<close>\<close>

definition transfer_arrived :: "'n rpc_ext \<Rightarrow> string list \<Rightarrow> address \<Rightarrow> u64 \<Rightarrow> 'n \<Rightarrow> 'n \<times> string option" where
  "transfer_arrived R urls a amount n =
     (let (n1, balances) = fetch_balances R urls (as_str a) n; confirmed = confirmations amount balances
      in (n1, if confirmed = length urls then None
              else Some (show_nat confirmed @ ''/'' @ show_nat (length urls) @ '' nodes confirmed'')))"

definition scenario_single_transfer :: "'n sc_env \<Rightarrow> string list \<Rightarrow> ('n, scenario_result) sc" where
  "scenario_single_transfer C urls =
     (let E = sx_ext C; R = sx_rpc C; name = ''single_transfer''; funder = funder_addr E;
          recipient = recipient_addr E 0xAA; amount = 100000 in
      sc_bind (sc_now C) (\<lambda>start.
      sc_bind (sc_index urls 0) (\<lambda>url.
      sc_seq (publish_step C name ''fetch_utxos'' ''start'' ''Fetching funder UTXOs from node1'') (
      sc_bind (sc_net (rpc_get_utxos R url (as_str funder))) (\<lambda>fetched. case fetched of
        Inl e \<Rightarrow> sc_report C name ''fetch_utxos'' start [] (''Failed to fetch UTXOs: '' @ show_client_error e)
      | Inr utxos \<Rightarrow>
      sc_bind (ok_step C ''fetch_utxos'' (''Got '' @ show_nat (length utxos) @ '' UTXOs'') start) (\<lambda>s1.
      sc_seq (publish_step C name ''fetch_utxos'' ''pass'' (show_nat (length utxos) @ '' UTXOs found'')) (
      case select_coins (sx_tie C) utxos amount of
        Inl e \<Rightarrow> sc_report C name ''coin_select'' start [s1] (''Coin selection failed: '' @ show_client_error e)
      | Inr sel \<Rightarrow>
     (case build_transfer E funder_key (selected sel) recipient amount funder of
        Inl e \<Rightarrow> sc_report C name ''build_tx'' start [s1] (''Build tx failed: '' @ show_client_error e)
      | Inr tx \<Rightarrow>
      sc_seq (publish_step C name ''submit_tx'' ''start'' ''Submitting TX to node1'') (
      sc_bind (sc_net (rpc_post_tx E R url tx)) (\<lambda>posted. case posted of
        Inl e \<Rightarrow> sc_report C name ''submit_tx'' start [s1] (''Submit TX failed: '' @ show_client_error e)
      | Inr tx_hash \<Rightarrow>
      sc_bind (sc_slice 8 tx_hash) (\<lambda>h8.
      sc_bind (ok_step C ''submit_tx'' (''TX submitted: '' @ h8) start) (\<lambda>s2.
      sc_bind (sc_slice 16 tx_hash) (\<lambda>h16.
      sc_seq (publish_step C name ''submit_tx'' ''pass'' (''tx_hash='' @ h16)) (
      sc_seq (publish_step C name ''propagation'' ''start'' ''Waiting for TX to confirm on all nodes (40s)'') (
      sc_bind (wait_until C name ''propagation'' 40000 3000 (transfer_arrived R urls recipient amount)) (\<lambda>converged.
      if \<not> converged
      then sc_report C name ''propagation'' start [s1, s2] ''TX did not propagate to all nodes within 40s''
      else
      sc_bind (ok_step C ''propagation'' ''All nodes confirmed balance'' start) (\<lambda>s3.
      sc_seq (publish_step C name ''propagation'' ''pass'' ''All 5 nodes confirmed'')
      (sc_pass C name start [s1, s2, s3]))))))))))))))))))"

section \<open>\<open>concurrent_sends\<close>\<close>

text \<open>The loop that builds one transfer per part, and the one that publishes the answers.\<close>

fun build_sends ::
  "ext \<Rightarrow> utxo_item list \<Rightarrow> nat \<Rightarrow> u64 list \<Rightarrow> string + (transaction \<times> address \<times> u64) list" where
  "build_sends E utxos i [] = Inr []"
| "build_sends E utxos i (amount # as) =
     (let recipient = recipient_addr E (0x10 + of_nat i) in
      case build_transfer E funder_key [utxos ! i] recipient amount (funder_addr E) of
        Inl e \<Rightarrow> Inl (''build tx '' @ show_nat i @ '': '' @ show_client_error e)
      | Inr tx \<Rightarrow> (case build_sends E utxos (i + 1) as of Inl e \<Rightarrow> Inl e | Inr ts \<Rightarrow> Inr ((tx, recipient, amount) # ts)))"

fun publish_answers :: "'n sc_env \<Rightarrow> string \<Rightarrow> nat \<Rightarrow> (client_error + string) list \<Rightarrow> ('n, unit) sc" where
  "publish_answers C name i [] = sc_return ()"
| "publish_answers C name i (Inr h # rs) =
     sc_bind (sc_slice 16 h) (\<lambda>h16.
     sc_seq (publish_step C name ''submit'' ''progress'' (''TX '' @ show_nat i @ '' accepted: '' @ h16))
       (publish_answers C name (i + 1) rs))"
| "publish_answers C name i (Inl e # rs) =
     sc_seq (publish_step C name ''submit'' ''progress'' (''TX '' @ show_nat i @ '' rejected: '' @ show_client_error e))
       (publish_answers C name (i + 1) rs)"

text \<open>The largest output of the funder, which two scenarios split.\<close>

definition largest_utxo ::
  "'n sc_env \<Rightarrow> string \<Rightarrow> nat \<Rightarrow> scenario_step list \<Rightarrow> string \<Rightarrow> string \<Rightarrow> ('n, utxo_item) sc" where
  "largest_utxo C name start steps err url =
     sc_bind (sc_net (rpc_get_utxos (sx_rpc C) url (as_str (funder_addr (sx_ext C))))) (\<lambda>fetched. case fetched of
       Inl e \<Rightarrow> sc_fail C name start steps (err @ show_client_error e)
     | Inr us \<Rightarrow> if us = [] then sc_fail C name start steps ''funder has no UTXOs''
         else sc_index (largest_first C us) 0)"

definition scenario_concurrent_sends :: "'n sc_env \<Rightarrow> string list \<Rightarrow> ('n, scenario_result) sc" where
  "scenario_concurrent_sends C urls =
     (let E = sx_ext C; R = sx_rpc C; name = ''concurrent_sends''; amounts = [11000, 22000, 33000, 44000, 55000] in
      sc_bind (sc_now C) (\<lambda>start.
      sc_seq (publish_step C name ''split'' ''start'' ''Splitting largest funder UTXO into 5 independent parts'') (
      sc_bind (sc_index urls 0) (\<lambda>url.
      sc_bind (largest_utxo C name start [] ''GET /utxos: '' url) (\<lambda>input_utxo.
      sc_bind (sc_split C input_utxo (length amounts)) (\<lambda>split. case split of
        Inl e \<Rightarrow> sc_report C name ''split'' start [] e
      | Inr utxos0 \<Rightarrow>
      sc_bind (ok_step C ''split'' (show_nat (length utxos0) @ '' UTXOs ready'') start) (\<lambda>s1.
      sc_seq (publish_step C name ''split'' ''pass'' (show_nat (length utxos0) @ '' UTXOs confirmed'')) (
      if length utxos0 < length amounts
      then sc_fail C name start [s1] (''Not enough UTXOs: have '' @ show_nat (length utxos0) @ '', need '' @ show_nat (length amounts))
      else case build_sends E (smallest_first C utxos0) 0 amounts of
        Inl e \<Rightarrow> sc_fail C name start [s1] e
      | Inr ts \<Rightarrow>
      sc_seq (publish_step C name ''submit'' ''start'' ''Submitting 5 TXs to 5 different nodes simultaneously'') (
      sc_bind (sc_net (post_all E R (map (\<lambda>(i, (tx, _)). (urls ! (i mod length urls), tx)) (enumerate 0 ts)))) (\<lambda>results.
      sc_seq (publish_answers C name 0 results) (
      sc_bind (ok_step C ''submit'' (show_nat (accepted_count results) @ ''/'' @ show_nat (length amounts) @ '' TXs submitted'') start) (\<lambda>s2.
      sc_seq (publish_step C name ''propagation'' ''start'' ''Waiting for all TXs to confirm on all nodes (60s)'') (
      sc_bind (wait_until C name ''propagation'' 60000 3000 (all_confirmed R urls ''nodes'' (map snd ts))) (\<lambda>converged.
      if \<not> converged then sc_fail C name start [s1, s2] ''TXs did not confirm within 60s''
      else
      sc_bind (ok_step C ''propagation'' ''All TXs confirmed on all nodes'' start) (\<lambda>s3.
      sc_seq (publish_step C name ''propagation'' ''pass'' ''All 5 recipients confirmed on all 5 nodes'')
      (sc_pass C name start [s1, s2, s3]))))))))))))))))"

section \<open>\<open>double_spend\<close>\<close>

fun build_identical :: "ext \<Rightarrow> utxo_item list \<Rightarrow> address \<Rightarrow> u64 \<Rightarrow> nat \<Rightarrow> string + transaction list" where
  "build_identical E us recipient amount 0 = Inr []"
| "build_identical E us recipient amount (Suc k) =
     (case build_transfer E funder_key us recipient amount (funder_addr E) of
        Inl e \<Rightarrow> Inl (''build tx: '' @ show_client_error e)
      | Inr tx \<Rightarrow> (case build_identical E us recipient amount k of Inl e \<Rightarrow> Inl e | Inr ts \<Rightarrow> Inr (tx # ts)))"

text \<open>\<open>&urls[i]\<close> for every transaction, before any of them is sent.\<close>

fun zip_urls :: "string list \<Rightarrow> nat \<Rightarrow> transaction list \<Rightarrow> ('n, (string \<times> transaction) list) sc" where
  "zip_urls urls i [] = sc_return []"
| "zip_urls urls i (tx # ts) =
     sc_bind (sc_index urls i) (\<lambda>u. sc_bind (zip_urls urls (i + 1) ts) (\<lambda>ps. sc_return ((u, tx) # ps)))"

definition show_bool :: "bool \<Rightarrow> string" where
  "show_bool b = (if b then ''true'' else ''false'')"

definition one_committed :: "'n rpc_ext \<Rightarrow> string list \<Rightarrow> address \<Rightarrow> u64 \<Rightarrow> 'n \<Rightarrow> 'n \<times> string option" where
  "one_committed R urls a amount n =
     (let (n1, balances) = fetch_balances R urls (as_str a) n;
          all_same = list_all (\<lambda>(x, y). x = y) (zip balances (tl balances)); first = hd balances
      in (n1, if all_same \<and> first = amount then None
              else Some (''all_same='' @ show_bool all_same @ '' balance='' @ show_nat (unat first))))"

definition scenario_double_spend :: "'n sc_env \<Rightarrow> string list \<Rightarrow> ('n, scenario_result) sc" where
  "scenario_double_spend C urls =
     (let E = sx_ext C; R = sx_rpc C; name = ''double_spend''; recipient = recipient_addr E 0xFF; amount = 5000 in
      sc_bind (sc_now C) (\<lambda>start.
      sc_seq (publish_step C name ''setup'' ''start'' ''Fetching UTXOs for double-spend test'') (
      sc_bind (sc_index urls 0) (\<lambda>url.
      sc_bind (sc_net (rpc_get_utxos R url (as_str (funder_addr E)))) (\<lambda>fetched. case fetched of
        Inl e \<Rightarrow> sc_fail C name start [] (''fetch UTXOs: '' @ show_client_error e)
      | Inr utxos \<Rightarrow> if utxos = [] then sc_fail C name start [] ''no UTXOs available''
      else case select_coins (sx_tie C) utxos amount of
        Inl e \<Rightarrow> sc_fail C name start [] (''coin select: '' @ show_client_error e)
      | Inr sel \<Rightarrow>
     (case build_identical E (selected sel) recipient amount 5 of
        Inl e \<Rightarrow> sc_fail C name start [] e
      | Inr ts \<Rightarrow>
      sc_bind (ok_step C ''setup'' ''Built 5 identical TXs (same UTXO)'' start) (\<lambda>s1.
      sc_seq (publish_step C name ''submit'' ''start'' ''Submitting 5 identical TXs to 5 different nodes'') (
      sc_bind (zip_urls urls 0 ts) (\<lambda>requests.
      sc_bind (sc_net (post_all E R requests)) (\<lambda>results.
      let accepted = accepted_count results in
      sc_seq (publish_step C name ''submit'' ''progress'' (show_nat accepted @ ''/5 nodes accepted the TX (expected: 1+)'')) (
      sc_bind (ok_step C ''submit'' (show_nat accepted @ ''/5 accepted immediately'') start) (\<lambda>s2.
      sc_seq (publish_step C name ''verify'' ''start'' ''Verifying exactly 1 TX commits on all nodes (90s)'') (
      sc_bind (wait_until C name ''verify'' 90000 3000 (one_committed R urls recipient amount)) (\<lambda>converged.
      if \<not> converged then sc_fail C name start [s1, s2] ''Did not converge within 90s''
      else
      sc_bind (ok_step C ''verify'' ''Exactly 1 TX committed, all nodes agree'' start) (\<lambda>s3.
      sc_seq (publish_step C name ''verify'' ''pass'' (''Double-spend resolved: recipient has '' @ show_nat (unat amount) @ '' tokens''))
      (sc_pass C name start [s1, s2, s3]))))))))))))))))"

section \<open>\<open>mempool_flood\<close>\<close>

definition TX_COUNT :: nat where
  "TX_COUNT = 30"

definition AMOUNT :: u64 where
  "AMOUNT = 1000"

text \<open>Transfers from outputs not used by the ones before; a transfer that cannot be built is left out.\<close>

fun build_flood ::
  "'n sc_env \<Rightarrow> utxo_item list \<Rightarrow> (string \<times> u32) list \<Rightarrow> nat list \<Rightarrow> (transaction \<times> address \<times> u64) list" where
  "build_flood C utxos spent [] = []"
| "build_flood C utxos spent (i # is) =
     (let available = filter (\<lambda>u. (ui_tx_hash u, ui_index u) \<notin> set spent) utxos in
      case select_coins (sx_tie C) available AMOUNT of
        Inl _ \<Rightarrow> build_flood C utxos spent is
      | Inr sel \<Rightarrow>
        (let spent' = spent @ map (\<lambda>u. (ui_tx_hash u, ui_index u)) (selected sel);
             recipient = recipient_addr (sx_ext C) (of_nat i);
             rest = build_flood C utxos spent' is
         in case build_transfer (sx_ext C) funder_key (selected sel) recipient AMOUNT (funder_addr (sx_ext C)) of
              Inl _ \<Rightarrow> rest | Inr tx \<Rightarrow> (tx, recipient, AMOUNT) # rest))"

fun post_flood ::
  "ext \<Rightarrow> 'n rpc_ext \<Rightarrow> string \<Rightarrow> (transaction \<times> address \<times> u64) list \<Rightarrow> 'n \<Rightarrow> 'n \<times> (address \<times> u64) list \<times> nat" where
  "post_flood E R url [] n = (n, [], 0)"
| "post_flood E R url ((tx, p) # ts) n =
     (let (n1, r) = rpc_post_tx E R url tx n; (n2, accepted, rejected) = post_flood E R url ts n1
      in (n2, case r of Inr _ \<Rightarrow> (p # accepted, rejected) | Inl _ \<Rightarrow> (accepted, rejected + 1)))"

definition tip_reached :: "'n rpc_ext \<Rightarrow> string \<Rightarrow> u64 \<Rightarrow> 'n \<Rightarrow> 'n \<times> string option" where
  "tip_reached R url goal n =
     (case rpc_get_tip R url n of
        (n1, Inr t) \<Rightarrow> (n1, if goal \<le> tip_height t then None
            else Some (''height='' @ show_nat (unat (tip_height t)) @ '' (need '' @ show_nat (unat goal) @ '')''))
      | (n1, Inl _) \<Rightarrow> (n1, Some ''waiting for tip''))"

definition scenario_mempool_flood :: "'n sc_env \<Rightarrow> string list \<Rightarrow> ('n, scenario_result) sc" where
  "scenario_mempool_flood C urls =
     (let E = sx_ext C; R = sx_rpc C; name = ''mempool_flood'' in
      sc_bind (sc_now C) (\<lambda>start.
      sc_seq (publish_step C name ''setup'' ''start'' (''Preparing up to '' @ show_nat TX_COUNT @ '' TXs'')) (
      sc_bind (sc_index urls 0) (\<lambda>url.
      sc_bind (sc_net (rpc_get_utxos R url (as_str (funder_addr E)))) (\<lambda>fetched. case fetched of
        Inl e \<Rightarrow> sc_fail C name start [] (''fetch UTXOs: '' @ show_client_error e)
      | Inr utxos \<Rightarrow>
      sc_bind (sc_net (rpc_get_tip R url)) (\<lambda>tip. case tip of
        Inl e \<Rightarrow> sc_fail C name start [] (''get tip: '' @ show_client_error e)
      | Inr t \<Rightarrow>
      let ts = build_flood C utxos [] [0..<TX_COUNT] in
      sc_bind (ok_step C ''setup'' (''Built '' @ show_nat (length ts) @ '' TXs'') start) (\<lambda>s1.
      sc_seq (publish_step C name ''flood'' ''start'' (''Flooding node1 with '' @ show_nat (length ts) @ '' TXs'')) (
      sc_bind (sc_net (post_flood E R url ts)) (\<lambda>(accepted, rejected).
      let counts = show_nat (length accepted) @ '' accepted, '' @ show_nat rejected @ '' rejected'' in
      sc_bind (ok_step C ''flood'' counts start) (\<lambda>s2.
      sc_seq (publish_step C name ''flood'' ''progress'' (counts @ '' by node1'')) (
      sc_seq (publish_step C name ''wait_blocks'' ''start'' ''Waiting for 2 new blocks to drain the mempool (45s)'') (
      sc_bind (wait_until C name ''wait_blocks'' 45000 2000 (tip_reached R url (tip_height t + 2))) (\<lambda>blocks_done.
      if \<not> blocks_done then sc_fail C name start [s1, s2] ''2 new blocks not produced within 45s''
      else
      sc_bind (ok_step C ''wait_blocks'' ''2 new blocks produced'' start) (\<lambda>s3.
      sc_seq (publish_step C name ''verify'' ''start''
        (''Verifying '' @ show_nat (length accepted) @ '' accepted TXs confirmed on all nodes (30s)'')) (
      sc_bind (wait_until C name ''verify'' 30000 3000 (all_confirmed R urls ''nodes'' accepted)) (\<lambda>verified.
      if \<not> verified
      then sc_fail C name start [s1, s2, s3]
        (''Not all '' @ show_nat (length accepted) @ '' TXs confirmed on all nodes within 30s'')
      else
      sc_bind (ok_step C ''verify'' (''All '' @ show_nat (length accepted) @ '' accepted TXs confirmed on all 5 nodes'') start) (\<lambda>s4.
      sc_seq (publish_step C name ''verify'' ''pass'' (show_nat (length accepted) @ '' TXs confirmed on all nodes''))
      (sc_pass C name start [s1, s2, s3, s4]))))))))))))))))))"

section \<open>\<open>balance_conservation\<close>\<close>

fun fetch_balance_results :: "'n rpc_ext \<Rightarrow> string list \<Rightarrow> string \<Rightarrow> 'n \<Rightarrow> 'n \<times> (client_error + u64) list" where
  "fetch_balance_results R [] addr n = (n, [])"
| "fetch_balance_results R (u # us) addr n =
     (let (n1, r) = rpc_get_balance R u addr n; (n2, rs) = fetch_balance_results R us addr n1
      in (n2, map_sum id br_balance r # rs))"

fun first_error :: "(client_error + 'a) list \<Rightarrow> client_error option" where
  "first_error [] = None"
| "first_error (Inl e # rs) = Some e"
| "first_error (Inr _ # rs) = first_error rs"

fun send_transfers ::
  "'n sc_env \<Rightarrow> string \<Rightarrow> nat \<Rightarrow> scenario_step list \<Rightarrow> string list \<Rightarrow> utxo_item list \<Rightarrow> nat \<Rightarrow> u64 list \<Rightarrow> ('n, nat) sc" where
  "send_transfers C name start steps urls utxos i [] = sc_return 0"
| "send_transfers C name start steps urls utxos i (amount # as) =
     (let E = sx_ext C in
      case build_transfer E funder_key [utxos ! i] (recipient_addr E (0x50 + of_nat i)) amount (funder_addr E) of
        Inl e \<Rightarrow> sc_fail C name start steps (''build tx #'' @ show_nat i @ '': '' @ show_client_error e)
      | Inr tx \<Rightarrow>
        sc_bind (sc_net (rpc_post_tx E (sx_rpc C) (urls ! (i mod length urls)) tx)) (\<lambda>posted. case posted of
          Inl e \<Rightarrow> sc_fail C name start steps (''submit tx #'' @ show_nat i @ '': '' @ show_client_error e)
        | Inr _ \<Rightarrow>
          sc_bind (send_transfers C name start steps urls utxos (i + 1) as) (\<lambda>k. sc_return (k + 1))))"

fun add_balances ::
  "'n sc_env \<Rightarrow> string \<Rightarrow> nat \<Rightarrow> scenario_step list \<Rightarrow> nat \<Rightarrow> string \<Rightarrow> u64 \<Rightarrow> address list \<Rightarrow> ('n, u64) sc" where
  "add_balances C name start steps ni url tot [] = sc_return tot"
| "add_balances C name start steps ni url tot (a # as) =
     sc_bind (sc_net (rpc_get_balance (sx_rpc C) url (as_str a))) (\<lambda>r. case r of
       Inl e \<Rightarrow> sc_fail C name start steps (''node'' @ show_nat ni @ '' recipient balance: '' @ show_client_error e)
     | Inr x \<Rightarrow> add_balances C name start steps ni url (tot + br_balance x) as)"

text \<open>The nodes on which the funder and the recipients do not have the initial total.\<close>

fun check_nodes ::
  "'n sc_env \<Rightarrow> string \<Rightarrow> nat \<Rightarrow> scenario_step list \<Rightarrow> address list \<Rightarrow> u64 \<Rightarrow> nat \<Rightarrow> string list \<Rightarrow> ('n, string list) sc" where
  "check_nodes C name start steps recipients initial ni [] = sc_return []"
| "check_nodes C name start steps recipients initial ni (url # urls) =
     sc_bind (sc_net (rpc_get_balance (sx_rpc C) url (as_str (funder_addr (sx_ext C))))) (\<lambda>r. case r of
       Inl e \<Rightarrow> sc_fail C name start steps (''node'' @ show_nat ni @ '' funder balance: '' @ show_client_error e)
     | Inr x \<Rightarrow>
       sc_bind (add_balances C name start steps ni url (br_balance x) recipients) (\<lambda>tot.
       sc_seq (publish_step C name ''conservation'' ''progress''
         (''node'' @ show_nat (ni + 1) @ '': funder='' @ show_nat (unat (br_balance x)) @ '' total='' @ show_nat (unat tot) @
          '' expected='' @ show_nat (unat initial))) (
       sc_bind (check_nodes C name start steps recipients initial (ni + 1) urls) (\<lambda>vs.
       sc_return (if tot \<noteq> initial
         then (''node'' @ show_nat (ni + 1) @ '': got '' @ show_nat (unat tot) @ '', expected '' @ show_nat (unat initial)) # vs
         else vs)))))"

fun join_with :: "string \<Rightarrow> string list \<Rightarrow> string" where
  "join_with sep [] = []"
| "join_with sep [x] = x"
| "join_with sep (x # xs) = x @ sep @ join_with sep xs"

definition scenario_balance_conservation :: "'n sc_env \<Rightarrow> string list \<Rightarrow> ('n, scenario_result) sc" where
  "scenario_balance_conservation C urls =
     (let E = sx_ext C; R = sx_rpc C; name = ''balance_conservation''; amounts = [5000, 7000, 9000, 11000, 13000];
          recipients = map (\<lambda>i. recipient_addr E (0x50 + of_nat i)) [0..<length amounts] in
      sc_bind (sc_now C) (\<lambda>start.
      sc_seq (publish_step C name ''snapshot'' ''start'' ''Reading initial funder balance on all nodes'') (
      sc_bind (sc_net (fetch_balance_results R urls (as_str (funder_addr E)))) (\<lambda>balances.
      case first_error balances of
        Some e \<Rightarrow> sc_fail C name start [] (''get balance: '' @ show_client_error e)
      | None \<Rightarrow>
      sc_bind (sc_index balances 0) (\<lambda>b0.
      let initial = projr b0; shown = show_nat (unat initial) in
      if \<not> list_all (\<lambda>r. r = Inr initial) balances
      then sc_fail C name start [] (''Nodes disagree on initial funder balance '' @ [CHR 0xE2, CHR 0x80, CHR 0x94] @ '' run after chain convergence'')
      else
      sc_bind (ok_step C ''snapshot'' (''Initial funder balance: '' @ shown) start) (\<lambda>s1.
      sc_seq (publish_step C name ''snapshot'' ''pass'' (''All nodes agree: '' @ shown @ '' tokens'')) (
      sc_seq (publish_step C name ''split'' ''start''
        (''Splitting funder UTXO into '' @ show_nat (length amounts) @ '' independent parts'')) (
      sc_bind (sc_index urls 0) (\<lambda>url.
      sc_bind (largest_utxo C name start [s1] ''fetch UTXOs: '' url) (\<lambda>input_utxo.
      sc_bind (sc_split C input_utxo (length amounts)) (\<lambda>split. case split of
        Inl e \<Rightarrow> sc_report C name ''split'' start [s1] e
      | Inr utxos0 \<Rightarrow>
      if length utxos0 < length amounts
      then sc_fail C name start [s1]
        (''Split produced '' @ show_nat (length utxos0) @ '' UTXOs, need '' @ show_nat (length amounts))
      else
      let utxos = smallest_first C utxos0 in
      sc_bind (ok_step C ''split'' (show_nat (length utxos) @ '' UTXOs ready'') start) (\<lambda>s2.
      sc_seq (publish_step C name ''split'' ''pass'' (show_nat (length utxos) @ '' UTXOs confirmed'')) (
      sc_seq (publish_step C name ''transfers'' ''start''
        (''Sending '' @ show_nat (length amounts) @ '' transfers totalling '' @ show_nat (unat (sum_list amounts)) @ '' tokens'')) (
      sc_bind (send_transfers C name start [s1, s2] urls utxos 0 amounts) (\<lambda>submitted.
      sc_bind (ok_step C ''transfers'' (show_nat submitted @ '' TXs submitted'') start) (\<lambda>s3.
      sc_seq (publish_step C name ''transfers'' ''pass'' (show_nat submitted @ '' transfers submitted'')) (
      sc_seq (publish_step C name ''confirm'' ''start'' ''Waiting for all transfers to confirm (60s)'') (
      sc_bind (wait_until C name ''confirm'' 60000 3000 (all_confirmed R urls ''confirmed'' (zip recipients amounts))) (\<lambda>confirmed.
      if \<not> confirmed then sc_fail C name start [s1, s2, s3] ''Transfers did not confirm within 60s''
      else
      sc_bind (ok_step C ''confirm'' ''All transfers confirmed on all nodes'' start) (\<lambda>s4.
      sc_seq (publish_step C name ''conservation'' ''start'' ''Checking funder + recipients == initial_total on all nodes'') (
      sc_bind (check_nodes C name start [s1, s2, s3, s4] recipients initial 0 urls) (\<lambda>violations.
      if violations \<noteq> []
      then sc_fail C name start [s1, s2, s3, s4] (''Conservation violated: '' @ join_with ''; '' violations)
      else
      sc_bind (ok_step C ''conservation'' (''All nodes: funder + recipients = '' @ shown) start) (\<lambda>s5.
      sc_seq (publish_step C name ''conservation'' ''pass'' (''Invariant holds on all 5 nodes (total = '' @ shown @ '')''))
      (sc_pass C name start [s1, s2, s3, s4, s5]))))))))))))))))))))))))"

section \<open>\<open>invalid_tx_rejection\<close>\<close>

text \<open>The malformed transactions: the funder's output with a zero signature, an amount too large, no such output.\<close>

definition funder_tx :: "ext \<Rightarrow> tx_out_ref \<Rightarrow> u64 \<Rightarrow> address \<Rightarrow> transaction" where
  "funder_tx E r amount a = \<lparr>tx_kind = Transfer,
     tx_inputs = [\<lparr>in_out_ref = r, in_signature = replicate 64 0, in_pubkey = ed_public E funder_key\<rparr>],
     tx_outputs = [\<lparr>out_amount = amount, out_address = a\<rparr>]\<rparr>"

definition sign_first :: "ext \<Rightarrow> transaction \<Rightarrow> transaction" where
  "sign_first E tx = tx\<lparr>tx_inputs := map (\<lambda>i. i\<lparr>in_signature := ed_sign E funder_key (tx_signing_bytes E tx)\<rparr>) (tx_inputs tx)\<rparr>"

definition bad_sig_tx :: "ext \<Rightarrow> tx_out_ref \<Rightarrow> u64 \<Rightarrow> transaction" where
  "bad_sig_tx E r amount = funder_tx E r (amount div 2) (recipient_addr E 0xB1)"

definition overspend_tx :: "ext \<Rightarrow> tx_out_ref \<Rightarrow> u64 \<Rightarrow> transaction" where
  "overspend_tx E r amount = sign_first E (funder_tx E r (amount + 1) (recipient_addr E 0xB2))"

definition phantom_ref :: tx_out_ref where
  "phantom_ref = \<lparr>ref_tx_hash = replicate 32 0xDE, ref_index = 0\<rparr>"

definition phantom_tx :: "ext \<Rightarrow> transaction" where
  "phantom_tx E = sign_first E (funder_tx E phantom_ref 1000 (recipient_addr E 0xB3))"

definition assert_all_reject :: "ext \<Rightarrow> 'n rpc_ext \<Rightarrow> string list \<Rightarrow> transaction \<Rightarrow> string \<Rightarrow> 'n \<Rightarrow> 'n \<times> (string + string)" where
  "assert_all_reject E R urls tx label n =
     (let (n1, results) = post_all E R (map (\<lambda>u. (u, tx)) urls) n; accepted = accepted_count results
      in (n1, if accepted = 0 then Inr (''All '' @ show_nat (length urls) @ '' nodes rejected'')
              else Inl (label @ '': '' @ show_nat accepted @ ''/'' @ show_nat (length urls) @ '' nodes accepted (expected 0)'')))"

definition rejection_case ::
  "'n sc_env \<Rightarrow> string \<Rightarrow> nat \<Rightarrow> scenario_step list \<Rightarrow> string list \<Rightarrow> string \<Rightarrow> string \<Rightarrow> transaction \<Rightarrow> ('n, scenario_step list) sc" where
  "rejection_case C name start steps urls label intro tx =
     sc_seq (publish_step C name label ''start'' intro) (
     sc_bind (sc_net (assert_all_reject (sx_ext C) (sx_rpc C) urls tx label)) (\<lambda>r. case r of
       Inl e \<Rightarrow> sc_report C name label start steps e
     | Inr detail \<Rightarrow>
       sc_bind (ok_step C label detail start) (\<lambda>s.
       sc_seq (publish_step C name label ''pass'' detail) (sc_return (steps @ [s])))))"

definition scenario_invalid_tx_rejection :: "'n sc_env \<Rightarrow> string list \<Rightarrow> ('n, scenario_result) sc" where
  "scenario_invalid_tx_rejection C urls =
     (let E = sx_ext C; R = sx_rpc C; name = ''invalid_tx_rejection'' in
      sc_bind (sc_now C) (\<lambda>start.
      sc_seq (publish_step C name ''setup'' ''start'' ''Fetching a real UTXO as base for invalid TXs'') (
      sc_bind (sc_index urls 0) (\<lambda>url.
      sc_bind (sc_net (rpc_get_utxos R url (as_str (funder_addr E)))) (\<lambda>fetched. case fetched of
        Inl e \<Rightarrow> sc_fail C name start [] (''fetch UTXOs: '' @ show_client_error e)
      | Inr [] \<Rightarrow> sc_fail C name start [] ''funder has no UTXOs''
      | Inr (u # _) \<Rightarrow>
     (case hex_to_hash E (ui_tx_hash u) of
        Inl e \<Rightarrow> sc_fail C name start [] e
      | Inr h \<Rightarrow>
      let r = \<lparr>ref_tx_hash = h, ref_index = ui_index u\<rparr> in
      sc_bind (sc_slice 8 (ui_tx_hash u)) (\<lambda>h8.
      sc_bind (ok_step C ''setup'' (''Using UTXO '' @ h8 @ '' (amount='' @ show_nat (unat (ui_amount u)) @ '')'') start) (\<lambda>s1.
      sc_seq (publish_step C name ''setup'' ''pass'' ''UTXO ready'') (
      sc_bind (rejection_case C name start [s1] urls ''bad_signature''
        ''Submitting TX with all-zero signature to all nodes'' (bad_sig_tx E r (ui_amount u))) (\<lambda>ss2.
      sc_bind (rejection_case C name start ss2 urls ''overspend''
        ''Submitting TX where output exceeds input amount (correctly signed)'' (overspend_tx E r (ui_amount u))) (\<lambda>ss3.
      sc_bind (rejection_case C name start ss3 urls ''phantom_utxo''
        ''Submitting TX spending a UTXO that does not exist'' (phantom_tx E)) (\<lambda>ss4.
      sc_pass C name start ss4))))))))))))"

section \<open>\<open>run_scenario\<close>\<close>

definition unknown_scenario :: "string \<Rightarrow> scenario_result" where
  "unknown_scenario name = \<lparr>sr_scenario = name, sr_status = Fail, sr_elapsed_ms = 0,
     sr_steps = [\<lparr>ss_name = ''init'', ss_status = Fail, ss_detail = ''Unknown scenario: '' @ name, ss_elapsed_ms = 0\<rparr>]\<rparr>"

definition scenario_body :: "'n sc_env \<Rightarrow> string \<Rightarrow> string list \<Rightarrow> ('n, scenario_result) sc" where
  "scenario_body C name urls =
     (if name = ''single_transfer'' then scenario_single_transfer C urls
      else if name = ''concurrent_sends'' then scenario_concurrent_sends C urls
      else if name = ''double_spend'' then scenario_double_spend C urls
      else if name = ''mempool_flood'' then scenario_mempool_flood C urls
      else if name = ''balance_conservation'' then scenario_balance_conservation C urls
      else if name = ''invalid_tx_rejection'' then scenario_invalid_tx_rejection C urls
      else sc_return (unknown_scenario name))"

text \<open>A scenario returns early or at its end; a panic ends the task that runs it.\<close>

definition sc_call :: "('n, scenario_result) sc \<Rightarrow> ('n, scenario_result) sc" where
  "sc_call m w = (case m w of (w', Ret r) \<Rightarrow> (w', Cont r) | x \<Rightarrow> x)"

definition run_scenario :: "'n sc_env \<Rightarrow> string \<Rightarrow> string list \<Rightarrow> ('n, scenario_result) sc" where
  "run_scenario C name urls =
     sc_seq (publish_step C name ''init'' ''start'' ''Scenario started'') (
     sc_bind (sc_call (scenario_body C name urls)) (\<lambda>result.
     sc_seq (publish_step C name ''done'' (if sr_status result = Pass then ''pass'' else ''fail'')
       (''Completed in '' @ show_nat (unat (sr_elapsed_ms result)) @ ''ms''))
     (sc_return result)))"

end
