(* ===== verification/Bcc_Scenario_Runs.thy ===== *)
theory Bcc_Scenario_Runs
  imports Bcc_Scenarios
begin

text \<open>
  What the scenarios of \<open>scenarios.rs\<close> do: rules for their steps, proved once for every property of the bus
  and of the network that a run cannot break, and with them the shape of every report, what a passing
  scenario has observed, the panic of \<open>double_spend\<close> on small networks, and that \<open>invalid_tx_rejection\<close> passes on
  nodes that validate.
\<close>

section \<open>Reasoning about scenarios\<close>

text \<open>
  \<open>sc_post J P Q m\<close>: from a world with \<open>J\<close>, \<open>m\<close> ends in a world with \<open>J\<close>, an early return satisfies \<open>P\<close> and
  the value it continues with satisfies \<open>Q\<close>.
\<close>

definition sc_post ::
  "('n sc_world \<Rightarrow> bool) \<Rightarrow> (scenario_result \<Rightarrow> bool) \<Rightarrow> ('a \<Rightarrow> bool) \<Rightarrow> ('n, 'a) sc \<Rightarrow> bool" where
  "sc_post J P Q m \<longleftrightarrow> (\<forall>w. J w \<longrightarrow> J (fst (m w)) \<and> (case snd (m w) of Cont x \<Rightarrow> Q x | Ret r \<Rightarrow> P r | Panic \<Rightarrow> True))"

lemma bind_ContE:
  assumes "sc_bind m f w = (w', Cont y)"
  obtains w1 x where "m w = (w1, Cont x)" "f x w1 = (w', Cont y)"
  using assms by (cases "m w"; cases "snd (m w)") (auto simp: sc_bind_def)

lemma post_bind:
  assumes "sc_post J P Q' m" and "\<And>x. Q' x \<Longrightarrow> sc_post J P Q (f x)"
  shows "sc_post J P Q (sc_bind m f)"
  unfolding sc_post_def
proof (intro allI impI)
  fix w
  assume "J w"
  then show "J (fst (sc_bind m f w)) \<and> (case snd (sc_bind m f w) of Cont x \<Rightarrow> Q x | Ret r \<Rightarrow> P r | Panic \<Rightarrow> True)"
    using assms by (cases "m w"; cases "snd (m w)") (fastforce simp: sc_post_def sc_bind_def)+
qed

lemma post_seq: "sc_post J P (\<lambda>_. True) m \<Longrightarrow> sc_post J P Q k \<Longrightarrow> sc_post J P Q (sc_seq m k)"
  unfolding sc_seq_def by (rule post_bind)

lemma post_return: "Q x \<Longrightarrow> sc_post J P Q (sc_return x)"
  by (simp add: sc_post_def sc_return_def)

lemma post_weaken: "sc_post J P Q' m \<Longrightarrow> (\<And>x. Q' x \<Longrightarrow> Q x) \<Longrightarrow> sc_post J P Q m"
  by (fastforce simp: sc_post_def split: sc_out.splits)

lemma post_index: "(\<And>x. x \<in> set xs \<Longrightarrow> sc_post J P Q (f x)) \<Longrightarrow> sc_post J P Q (sc_bind (sc_index xs i) f)"
  by (simp add: sc_post_def sc_bind_def sc_index_def sc_return_def sc_panic_def)

lemma post_slice: "(\<And>x. sc_post J P Q (f x)) \<Longrightarrow> sc_post J P Q (sc_bind (sc_slice n s) f)"
  by (simp add: sc_post_def sc_bind_def sc_slice_def sc_return_def sc_panic_def)

lemma post_sum:
  "(\<And>e. x = Inl e \<Longrightarrow> sc_post J P Q (f e)) \<Longrightarrow> (\<And>y. x = Inr y \<Longrightarrow> sc_post J P Q (g y)) \<Longrightarrow> sc_post J P Q (case_sum f g x)"
  by (cases x) simp_all

lemma post_option:
  "(x = None \<Longrightarrow> sc_post J P Q a) \<Longrightarrow> (\<And>y. x = Some y \<Longrightarrow> sc_post J P Q (g y)) \<Longrightarrow> sc_post J P Q (case_option a g x)"
  by (cases x) simp_all

lemma post_list:
  "(x = [] \<Longrightarrow> sc_post J P Q a) \<Longrightarrow> (\<And>y ys. x = y # ys \<Longrightarrow> sc_post J P Q (g y ys)) \<Longrightarrow> sc_post J P Q (case_list a g x)"
  by (cases x) simp_all

lemma post_prod: "(\<And>a b. x = (a, b) \<Longrightarrow> sc_post J P Q (f a b)) \<Longrightarrow> sc_post J P Q (case_prod f x)"
  by (cases x) simp

lemma post_if:
  "(c \<Longrightarrow> sc_post J P Q a) \<Longrightarrow> (\<not> c \<Longrightarrow> sc_post J P Q b) \<Longrightarrow> sc_post J P Q (if c then a else b)"
  by simp

text \<open>The two ways a scenario ends.\<close>

definition all_pass :: "scenario_step list \<Rightarrow> bool" where
  "all_pass steps \<longleftrightarrow> list_all (\<lambda>s. ss_status s = Pass) steps"

definition scenario_failed :: "string \<Rightarrow> scenario_result \<Rightarrow> bool" where
  "scenario_failed name r \<longleftrightarrow> sr_scenario r = name \<and> sr_status r = Fail \<and> sr_steps r \<noteq> [] \<and>
     all_pass (butlast (sr_steps r)) \<and> ss_status (last (sr_steps r)) = Fail"

definition scenario_passed :: "string \<Rightarrow> scenario_result \<Rightarrow> bool" where
  "scenario_passed name r \<longleftrightarrow> sr_scenario r = name \<and> sr_status r = Pass \<and> all_pass (sr_steps r)"

text \<open>
  What a scenario does to the world it runs in: it publishes events of its own name, sends requests
  and reads the clock.  \<open>B\<close> and \<open>I\<close> are any properties of the bus and of the network that survive these.
\<close>

definition sc_keeps :: "(event_bus \<Rightarrow> bool) \<Rightarrow> ('n \<Rightarrow> bool) \<Rightarrow> 'n sc_world \<Rightarrow> bool" where
  "sc_keeps B I w \<longleftrightarrow> B (sw_bus w) \<and> I (sw_net w)"

definition requests :: "('n \<Rightarrow> bool) \<Rightarrow> ('n \<Rightarrow> 'n \<times> 'a) \<Rightarrow> bool" where
  "requests I f \<longleftrightarrow> (\<forall>n. I n \<longrightarrow> I (fst (f n)))"

lemma requestsD: "requests I f \<Longrightarrow> I n \<Longrightarrow> I (fst (f n))"
  by (simp add: requests_def)

lemma keeps_simps [simp]:
  "sc_keeps B I (w\<lparr>sw_net := n\<rparr>) \<longleftrightarrow> B (sw_bus w) \<and> I n"
  "sc_keeps B I (w\<lparr>sw_now := t\<rparr>) \<longleftrightarrow> sc_keeps B I w"
  "sc_keeps B I (w\<lparr>sw_bus := b\<rparr>) \<longleftrightarrow> B b \<and> I (sw_net w)"
  "sc_keeps B I (sc_tick C w) \<longleftrightarrow> sc_keeps B I w"
  by (simp_all add: sc_keeps_def sc_tick_def)

lemma tick_simps [simp]: "sw_bus (sc_tick C w) = sw_bus w" "sw_net (sc_tick C w) = sw_net w"
  by (simp_all add: sc_tick_def)

lemma tick_later: "sw_now w \<le> sw_now (sc_tick C w)"
  by (simp add: sc_tick_def)

text \<open>Every node answers the balance of \<open>a\<close> with \<open>amount\<close>, in some state of the network with \<open>I\<close>.\<close>

definition reported :: "('n \<Rightarrow> bool) \<Rightarrow> 'n rpc_ext \<Rightarrow> string list \<Rightarrow> address \<Rightarrow> u64 \<Rightarrow> bool" where
  "reported I R urls a amount \<longleftrightarrow>
     (\<exists>n n'. I n \<and> fetch_balances R urls (as_str a) n = (n', replicate (length urls) amount))"

lemma fetch_balances_length: "fetch_balances R us a n = (n', bs) \<Longrightarrow> length bs = length us"
  by (induction us arbitrary: n n' bs) (auto simp: Let_def split: prod.splits)

lemma confirmations_full: "length bs \<le> confirmations amount bs \<Longrightarrow> bs = replicate (length bs) amount"
proof -
  assume "length bs \<le> confirmations amount bs"
  then have "\<forall>b \<in> set bs. b = amount"
    using length_filter_less [of _ bs "\<lambda>b. b = amount"] by (force simp: confirmations_def)
  then show ?thesis by (simp add: replicate_length_same)
qed

lemma windows_same: "list_all (\<lambda>(x, y). x = y) (zip bs (tl bs)) \<Longrightarrow> bs = replicate (length bs) (hd bs)"
proof (induction bs)
  case (Cons b bs)
  then show ?case by (cases bs) auto
qed simp

lemma transfer_arrivedD:
  assumes "transfer_arrived R us a amount n = (n', None)" and "I n"
  shows "reported I R us a amount"
proof -
  obtain m bs where f: "fetch_balances R us (as_str a) n = (m, bs)" by fastforce
  then have "confirmations amount bs = length us"
    using assms(1) by (simp add: transfer_arrived_def Let_def split: if_splits)
  then show ?thesis
    using confirmations_full [of bs amount] fetch_balances_length [OF f] f assms(2) by (auto simp: reported_def)
qed

lemma one_committedD:
  assumes "one_committed R us a amount n = (n', None)" and "I n"
  shows "reported I R us a amount"
proof -
  obtain m bs where f: "fetch_balances R us (as_str a) n = (m, bs)" by fastforce
  then have "list_all (\<lambda>(x, y). x = y) (zip bs (tl bs))" "hd bs = amount"
    using assms(1) by (simp_all add: one_committed_def Let_def split: if_splits)
  then show ?thesis
    using windows_same [of bs] fetch_balances_length [OF f] f assms(2) by (auto simp: reported_def)
qed

text \<open>The payments the scenarios wait for, by their names.\<close>

definition expected_payments :: "ext \<Rightarrow> string \<Rightarrow> (address \<times> u64) list" where
  "expected_payments E name =
     (if name = ''single_transfer'' then [(recipient_addr E 0xAA, 100000)]
      else if name = ''concurrent_sends''
      then zip (map (\<lambda>i. recipient_addr E (0x10 + i)) [0, 1, 2, 3, 4]) [11000, 22000, 33000, 44000, 55000]
      else if name = ''double_spend'' then [(recipient_addr E 0xFF, 5000)]
      else if name = ''balance_conservation''
      then zip (map (\<lambda>i. recipient_addr E (0x50 + i)) [0, 1, 2, 3, 4]) [5000, 7000, 9000, 11000, 13000]
      else [])"

lemma build_sends_payments:
  "build_sends E us i as = Inr ts \<Longrightarrow>
   map snd ts = zip (map (\<lambda>k. recipient_addr E (0x10 + of_nat k)) [i..<i + length as]) as"
  by (induction E us i as arbitrary: ts rule: build_sends.induct)
    (auto simp: Let_def upt_conv_Cons split: sum.splits simp del: upt_Suc)

lemma build_sends_expected:
  assumes "build_sends E us 0 [11000, 22000, 33000, 44000, 55000] = Inr ts"
  shows "map snd ts = expected_payments E ''concurrent_sends''"
  using build_sends_payments [OF assms] by (simp add: expected_payments_def upt_rec)

locale scenario_run =
  fixes C :: "'n sc_env" and name :: string and B :: "event_bus \<Rightarrow> bool" and I :: "'n \<Rightarrow> bool"
  assumes publish_keeps: "B b \<Longrightarrow> B (publish_local ''visualizer'' t (ScenarioEvent name step status detail) b)"
    and send_keeps: "I n \<Longrightarrow> I (fst (http_send (sx_rpc C) m u body n))"
    and split_keeps: "I n \<Longrightarrow> I (snd (sx_split C n))"
begin

abbreviation post :: "('a \<Rightarrow> bool) \<Rightarrow> ('n, 'a) sc \<Rightarrow> bool" where
  "post \<equiv> sc_post (sc_keeps B I) (scenario_failed name)"

lemma call_requests: "requests I (rpc_call (sx_rpc C) parse m u body)"
proof -
  have "I (fst (rpc_call (sx_rpc C) parse m u body n))" if "I n" for n
    using send_keeps [OF that, of m u body] by (cases "http_send (sx_rpc C) m u body n"; cases "snd (http_send (sx_rpc C) m u body n)")
      (simp_all add: rpc_call_def)
  then show ?thesis by (simp add: requests_def)
qed

lemma rpc_requests:
  "requests I (rpc_get_tip (sx_rpc C) u)" "requests I (rpc_get_balance (sx_rpc C) u a)"
  "requests I (rpc_get_utxos (sx_rpc C) u a)" "requests I (rpc_post_tx E (sx_rpc C) u tx)"
  by (simp_all add: rpc_get_tip_def rpc_get_balance_def rpc_get_utxos_def rpc_post_tx_def call_requests)

lemma balances_requests: "requests I (fetch_balances (sx_rpc C) us a)" "requests I (fetch_balance_results (sx_rpc C) us a)"
  by (induction us) (simp_all add: requests_def case_prod_beta Let_def requestsD [OF rpc_requests(2)])

lemma posts_requests: "requests I (post_all E (sx_rpc C) ps)" "requests I (post_flood E (sx_rpc C) u ts)"
proof -
  show "requests I (post_all E (sx_rpc C) ps)"
    by (induction ps) (auto simp: requests_def case_prod_beta Let_def requestsD [OF rpc_requests(4)])
  show "requests I (post_flood E (sx_rpc C) u ts)"
    by (induction ts) (auto simp: requests_def case_prod_beta Let_def requestsD [OF rpc_requests(4)])
qed

lemma polls_request:
  "requests I (transfer_arrived (sx_rpc C) us a amount)" "requests I (one_committed (sx_rpc C) us a amount)"
  "requests I (all_confirmed (sx_rpc C) us what ps)" "requests I (tip_reached (sx_rpc C) u goal)"
  "requests I (assert_all_reject E (sx_rpc C) us tx label)"
proof -
  show "requests I (transfer_arrived (sx_rpc C) us a amount)" "requests I (one_committed (sx_rpc C) us a amount)"
    using balances_requests(1) [of us "as_str a"]
    by (simp_all add: requests_def transfer_arrived_def one_committed_def case_prod_beta Let_def)
  show "requests I (all_confirmed (sx_rpc C) us what ps)"
    by (induction ps) (auto simp: requests_def case_prod_beta Let_def requestsD [OF balances_requests(1)])
  show "requests I (tip_reached (sx_rpc C) u goal)"
    using rpc_requests(1) [of u] by (force simp: requests_def tip_reached_def split: prod.splits sum.splits)
  show "requests I (assert_all_reject E (sx_rpc C) us tx label)"
    using posts_requests(1) by (simp add: requests_def assert_all_reject_def case_prod_beta Let_def)
qed

lemma post_now: "(\<And>t. post Q (f t)) \<Longrightarrow> post Q (sc_bind (sc_now C) f)"
  by (simp add: sc_post_def sc_bind_def sc_now_def Let_def)

lemma post_net:
  assumes "requests I g" and "\<And>x. post Q (f x)"
  shows "post Q (sc_bind (sc_net g) f)"
proof -
  have "post (\<lambda>_. True) (sc_net g)"
    using assms(1) by (auto simp: sc_post_def sc_net_def case_prod_beta sc_keeps_def requests_def)
  then show ?thesis using assms(2) by (rule post_bind)
qed

lemma publish_keeps_world: "sc_keeps B I w \<Longrightarrow> sc_keeps B I (fst (publish_step C name step status detail w))"
  by (simp add: publish_step_def Let_def) (simp add: sc_keeps_def publish_keeps)

lemma post_publish: "post Q k \<Longrightarrow> post Q (sc_seq (publish_step C name step status detail) k)"
  by (rule post_seq) (use publish_keeps_world in \<open>auto simp: sc_post_def publish_step_def Let_def\<close>)

lemma post_ok_step:
  assumes "\<And>s. ss_status s = Pass \<Longrightarrow> post Q (f s)"
  shows "post Q (sc_bind (ok_step C step detail start) f)"
  by (rule post_bind [where Q' = "\<lambda>s. ss_status s = Pass"])
    (use assms in \<open>simp_all add: ok_step_def post_now post_return\<close>)

lemma post_fail: "all_pass steps \<Longrightarrow> post Q (sc_fail C name start steps reason)"
  by (simp add: sc_post_def sc_fail_def fail_result_def sc_bind_def sc_now_def sc_return_def scenario_failed_def all_pass_def Let_def)

lemma post_report: "all_pass steps \<Longrightarrow> post Q (sc_report C name step start steps msg)"
  by (simp add: sc_report_def post_publish post_fail)

lemma post_pass:
  assumes "all_pass steps" and K
  shows "post (\<lambda>r. scenario_passed name r \<and> K) (sc_pass C name start steps)"
  using assms by (simp add: sc_pass_def post_now post_return scenario_passed_def)

lemma wait_loop_keeps:
  assumes "requests I g" and "sc_keeps B I w"
  shows "sc_keeps B I (fst (wait_loop C name step poll g dl w)) \<and>
    (snd (wait_loop C name step poll g dl w) \<longrightarrow> (\<exists>n n'. I n \<and> g n = (n', None)))"
  using assms(2)
proof (induction "dl + 1 - sw_now w" arbitrary: w rule: less_induct)
  case less
  let ?w = "sc_tick C w"
  have J: "B (sw_bus w)" "I (sw_net w)" using less.prems by (simp_all add: sc_keeps_def)
  obtain n x where g: "g (sw_net w) = (n, x)" by fastforce
  have n: "I n" using requestsD [OF assms(1) J(2)] g by simp
  show ?case
  proof (cases "dl < sw_now ?w \<or> x = None")
    case True
    then show ?thesis using less.prems J n g by (subst (1 2) wait_loop.simps) (auto simp: Let_def)
  next
    case False
    then obtain p where x: "x = Some p" by auto
    let ?w2 = "fst (publish_step C name step ''progress'' p (?w\<lparr>sw_net := n\<rparr>))"
    let ?w3 = "?w2\<lparr>sw_now := sw_now ?w2 + max 1 poll\<rparr>"
    have "sw_now ?w \<le> sw_now ?w2" by (simp add: publish_step_def Let_def sc_tick_def)
    then have "sw_now w < sw_now ?w3" "sw_now w < dl + 1" using False tick_later [of w C] by auto
    then have "dl + 1 - sw_now ?w3 < dl + 1 - sw_now w" by (rule diff_less_mono2)
    moreover have "sc_keeps B I ?w3" using publish_keeps_world J n by simp
    ultimately have "sc_keeps B I (fst (wait_loop C name step poll g dl ?w3)) \<and>
        (snd (wait_loop C name step poll g dl ?w3) \<longrightarrow> (\<exists>n n'. I n \<and> g n = (n', None)))"
      by (rule less.hyps)
    then show ?thesis using False g x by (subst (1 2) wait_loop.simps) (simp add: Let_def)
  qed
qed

lemma post_wait:
  assumes "requests I g" and "\<And>ok. (ok \<Longrightarrow> \<exists>n n'. I n \<and> g n = (n', None)) \<Longrightarrow> post Q (f ok)"
  shows "post Q (sc_bind (wait_until C name step timeout poll g) f)"
proof (rule post_bind)
  show "post (\<lambda>ok. ok \<longrightarrow> (\<exists>n n'. I n \<and> g n = (n', None))) (wait_until C name step timeout poll g)"
    unfolding wait_until_def
    by (rule post_now) (use wait_loop_keeps [OF assms(1)] in \<open>auto simp: sc_post_def case_prod_beta\<close>)
qed (use assms(2) in blast)

lemma all_confirmedD:
  "all_confirmed (sx_rpc C) us what ps n = (n', None) \<Longrightarrow> I n \<Longrightarrow> (a, amount) \<in> set ps \<Longrightarrow> reported I (sx_rpc C) us a amount"
proof (induction ps arbitrary: n)
  case (Cons p ps)
  obtain b m where p: "p = (b, m)" by fastforce
  obtain n1 bs where f: "fetch_balances (sx_rpc C) us (as_str b) n = (n1, bs)" by fastforce
  then have n1: "I n1" using requestsD [OF balances_requests(1) Cons.prems(2), of us "as_str b"] by simp
  have c: "length us \<le> confirmations m bs" "all_confirmed (sx_rpc C) us what ps n1 = (n', None)"
    using Cons.prems(1) f by (auto simp: p Let_def split: if_splits)
  then have "reported I (sx_rpc C) us b m"
    using f Cons.prems(2) confirmations_full [of bs m] fetch_balances_length [OF f] by (auto simp: reported_def)
  then show ?case using Cons.IH [OF c(2) n1] Cons.prems(3) p by auto
qed simp

lemma reported_node:
  assumes "reported I (sx_rpc C) us a amount" and "u \<in> set us" and "amount \<noteq> 0"
  shows "\<exists>n n' x. I n \<and> rpc_get_balance (sx_rpc C) u (as_str a) n = (n', Inr x) \<and> br_balance x = amount"
proof -
  obtain n n' where "I n" "fetch_balances (sx_rpc C) us (as_str a) n = (n', replicate (length us) amount)"
    using assms(1) by (auto simp: reported_def)
  then show ?thesis
    using assms(2)
  proof (induction us arbitrary: n)
    case (Cons v us)
    obtain n1 y where y: "rpc_get_balance (sx_rpc C) v (as_str a) n = (n1, y)" by fastforce
    then have n1: "I n1" using requestsD [OF rpc_requests(2) Cons.prems(1), of v "as_str a"] by simp
    have bs: "fetch_balances (sx_rpc C) us (as_str a) n1 = (n', replicate (length us) amount)"
      "(case y of Inl _ \<Rightarrow> 0 | Inr x \<Rightarrow> br_balance x) = amount"
      using Cons.prems(2) y by (auto simp: Let_def split: prod.splits)
    then show ?case
      using Cons.IH [OF n1 bs(1)] Cons.prems(1,3) y assms(3) by (cases y) auto
  qed simp
qed

lemma post_split: "(\<And>x. post Q (f x)) \<Longrightarrow> post Q (sc_bind (sc_split C u k) f)"
  unfolding sc_split_def by (rule post_net) (simp_all add: requests_def split_keeps)

lemma post_largest:
  assumes "all_pass steps" and "\<And>u. post Q (f u)"
  shows "post Q (sc_bind (largest_utxo C name start steps err url) f)"
proof (rule post_bind)
  show "post (\<lambda>_. True) (largest_utxo C name start steps err url)"
    unfolding largest_utxo_def
    by (intro post_net rpc_requests post_sum post_if post_fail assms(1))
      (simp add: sc_post_def sc_index_def sc_return_def sc_panic_def)
qed (rule assms(2))

lemma post_answers: "post (\<lambda>_. True) (publish_answers C name i rs)"
proof (induction rs arbitrary: i)
  case (Cons r rs)
  then show ?case by (cases r) (simp_all add: post_slice post_publish)
qed (simp add: post_return)

lemma post_zip: "post (\<lambda>_. True) (zip_urls urls i ts)"
  by (induction ts arbitrary: i) (auto intro!: post_return post_index intro: post_bind)

lemma post_transfers: "all_pass steps \<Longrightarrow> post (\<lambda>_. True) (send_transfers C name start steps urls utxos i as)"
  by (induction as arbitrary: i)
    (auto simp: Let_def intro!: post_return post_sum post_fail post_net rpc_requests intro: post_bind)

lemma post_add_balances: "all_pass steps \<Longrightarrow> post (\<lambda>_. True) (add_balances C name start steps ni url tot as)"
  by (induction as arbitrary: tot) (auto intro!: post_return post_sum post_fail post_net rpc_requests)

lemma post_check_nodes: "all_pass steps \<Longrightarrow> post (\<lambda>_. True) (check_nodes C name start steps rs initial ni urls)"
  by (induction urls arbitrary: ni)
    (auto intro!: post_return post_sum post_fail post_net rpc_requests post_publish intro: post_bind post_add_balances)

lemma post_rejection:
  assumes "all_pass steps" and "\<And>ss. all_pass ss \<Longrightarrow> post Q (f ss)"
  shows "post Q (sc_bind (rejection_case C name start steps urls label intro tx) f)"
proof (rule post_bind)
  show "post all_pass (rejection_case C name start steps urls label intro tx)"
    unfolding rejection_case_def
    by (intro post_publish post_net polls_request post_sum post_report post_ok_step post_return)
      (use assms(1) in \<open>simp_all add: all_pass_def\<close>)
qed (rule assms(2))

lemmas post_rules = post_now post_net rpc_requests balances_requests posts_requests polls_request post_publish post_ok_step
  post_fail post_report post_sum post_option post_list post_prod post_if post_index post_slice post_split post_largest
  post_rejection post_wait post_pass post_seq [OF post_answers] post_bind [OF post_zip] post_bind [OF post_transfers]
  post_bind [OF post_check_nodes]

abbreviation confirmed :: "string list \<Rightarrow> bool" where
  "confirmed urls \<equiv> \<forall>(a, amount) \<in> set (expected_payments (sx_ext C) name). reported I (sx_rpc C) urls a amount"

lemma single_transfer_post:
  assumes "name = ''single_transfer''"
  shows "post (\<lambda>r. scenario_passed name r \<and> confirmed urls) (scenario_single_transfer C urls)"
  unfolding scenario_single_transfer_def Let_def assms [symmetric]
  by (intro post_rules) (use assms in \<open>auto simp: all_pass_def expected_payments_def dest: transfer_arrivedD\<close>)

lemma double_spend_post:
  assumes "name = ''double_spend''"
  shows "post (\<lambda>r. scenario_passed name r \<and> confirmed urls) (scenario_double_spend C urls)"
  unfolding scenario_double_spend_def Let_def assms [symmetric]
  by (intro post_rules) (use assms in \<open>auto simp: all_pass_def expected_payments_def dest: one_committedD\<close>)

lemma mempool_flood_post:
  assumes "name = ''mempool_flood''"
  shows "post (\<lambda>r. scenario_passed name r \<and> confirmed urls) (scenario_mempool_flood C urls)"
  unfolding scenario_mempool_flood_def Let_def assms [symmetric]
  by (intro post_rules) (use assms in \<open>auto simp: all_pass_def expected_payments_def\<close>)

lemma invalid_tx_rejection_post:
  assumes "name = ''invalid_tx_rejection''"
  shows "post (\<lambda>r. scenario_passed name r \<and> confirmed urls) (scenario_invalid_tx_rejection C urls)"
  unfolding scenario_invalid_tx_rejection_def Let_def assms [symmetric]
  by (intro post_rules) (use assms in \<open>auto simp: all_pass_def expected_payments_def\<close>)

lemma balance_conservation_post:
  assumes "name = ''balance_conservation''"
  shows "post (\<lambda>r. scenario_passed name r \<and> confirmed urls) (scenario_balance_conservation C urls)"
  unfolding scenario_balance_conservation_def Let_def assms [symmetric]
  by (intro post_rules)
    (use assms in \<open>auto simp: all_pass_def expected_payments_def simp del: all_confirmed.simps intro: all_confirmedD\<close>)

lemma concurrent_sends_post:
  assumes "name = ''concurrent_sends''"
  shows "post (\<lambda>r. scenario_passed name r \<and> confirmed urls) (scenario_concurrent_sends C urls)"
  unfolding scenario_concurrent_sends_def Let_def assms [symmetric]
  by (intro post_rules)
    (use assms in \<open>auto simp: all_pass_def simp del: all_confirmed.simps build_sends.simps
        dest!: build_sends_expected intro: all_confirmedD\<close>)

lemma body_post: "post (\<lambda>r. scenario_passed name r \<and> confirmed urls \<or> scenario_failed name r) (scenario_body C name urls)"
proof -
  have u: "scenario_failed name (unknown_scenario name)" by (simp add: scenario_failed_def unknown_scenario_def all_pass_def)
  have w: "post (\<lambda>r. scenario_passed name r \<and> confirmed urls \<or> scenario_failed name r) m"
    if "post (\<lambda>r. scenario_passed name r \<and> confirmed urls) m" for m
    by (rule post_weaken [OF that]) blast
  show ?thesis
    unfolding scenario_body_def
    by (intro post_if post_return disjI2 u single_transfer_post [THEN w] concurrent_sends_post [THEN w] double_spend_post [THEN w]
        mempool_flood_post [THEN w] balance_conservation_post [THEN w] invalid_tx_rejection_post [THEN w])
qed

lemma run_post:
  assumes "sc_keeps B I (fst (publish_step C name ''init'' ''start'' ''Scenario started'' w))"
    and "run_scenario C name urls w = (w', Cont r)"
  obtains w1 detail where "sc_keeps B I w1"
    "sw_bus w' = publish_local ''visualizer'' (int (sw_now (sc_tick C w1)))
       (ScenarioEvent name ''done'' (if sr_status r = Pass then ''pass'' else ''fail'') detail) (sw_bus w1)"
    "scenario_passed name r \<and> confirmed urls \<or> scenario_failed name r"
proof -
  let ?w0 = "fst (publish_step C name ''init'' ''start'' ''Scenario started'' w)"
  obtain w1 r1 w2 where r1: "sc_call (scenario_body C name urls) ?w0 = (w1, Cont r1)"
    and pub: "publish_step C name ''done'' (if sr_status r1 = Pass then ''pass'' else ''fail'')
      (''Completed in '' @ show_nat (unat (sr_elapsed_ms r1)) @ ''ms'') w1 = (w2, Cont ())"
    and fin: "sc_return r1 w2 = (w', Cont r)"
    using assms(2) unfolding run_scenario_def sc_seq_def by (elim bind_ContE) auto
  have r: "r1 = r" "w2 = w'" using fin by (simp_all add: sc_return_def)
  have "scenario_body C name urls ?w0 = (w1, Cont r) \<or> scenario_body C name urls ?w0 = (w1, Ret r)"
    using r1 by (auto simp: sc_call_def r split: prod.splits sc_out.splits)
  then have "sc_keeps B I w1" "scenario_passed name r \<and> confirmed urls \<or> scenario_failed name r"
    using body_post [of urls] assms(1) unfolding sc_post_def by fastforce+
  then show thesis using pub by (intro that) (auto simp: publish_step_def Let_def r)
qed

end

section \<open>The events and requests of a run\<close>

definition of_scenario :: "string \<Rightarrow> ws_envelope \<Rightarrow> bool" where
  "of_scenario name e \<longleftrightarrow> wse_node e = ''visualizer'' \<and> (\<exists>step status detail. wse_event e = ScenarioEvent name step status detail)"

definition scenario_log :: "string \<Rightarrow> event_bus \<Rightarrow> event_bus \<Rightarrow> bool" where
  "scenario_log name b0 b \<longleftrightarrow> eb_capacity b = eb_capacity b0 \<and> (0 < eb_capacity b0 \<and> bus_ok b0 \<longrightarrow> bus_ok b) \<and>
     (\<exists>es. eb_sent b = eb_sent b0 @ es \<and> list_all (of_scenario name) es)"

text \<open>The states of the network that requests and splits lead to.\<close>

inductive net_reach :: "'n sc_env \<Rightarrow> 'n \<Rightarrow> 'n \<Rightarrow> bool" for C n0 where
  start: "net_reach C n0 n0"
| request: "net_reach C n0 n \<Longrightarrow> net_reach C n0 (fst (http_send (sx_rpc C) m u body n))"
| split: "net_reach C n0 n \<Longrightarrow> net_reach C n0 (snd (sx_split C n))"

lemma scenario_log_publish:
  assumes "scenario_log name b0 b"
  shows "scenario_log name b0 (publish_local ''visualizer'' t (ScenarioEvent name step status detail) b)"
  using assms publish_ok by (auto simp: scenario_log_def publish_local_def of_scenario_def)

interpretation scn: scenario_run C name "scenario_log name b0" "net_reach C n0" for C name b0 n0
  by unfold_locales (auto intro: scenario_log_publish net_reach.intros)

text \<open>Fewer nodes than transactions: the index is out of range.\<close>

lemma zip_urls_panic: "i \<le> length urls \<Longrightarrow> length urls < i + length ts \<Longrightarrow> zip_urls urls i ts w = (w, Panic)"
  by (induction ts arbitrary: i) (auto simp: sc_bind_def sc_index_def sc_return_def sc_panic_def)

lemma build_identical_ok:
  "build_transfer E funder_key us a amount (funder_addr E) = Inr tx \<Longrightarrow> build_identical E us a amount k = Inr (replicate k tx)"
  by (induction k) simp_all

section \<open>A concrete network\<close>

text \<open>Nodes that list one output of the funder, accept every transaction and report that 100000 have arrived.\<close>

definition demo_item :: utxo_item where
  "demo_item = \<lparr>ui_tx_hash = hex_encode ref_ext (replicate 32 0), ui_index = 0, ui_amount = 200000\<rparr>"

definition demo_env :: "unit sc_env" where
  "demo_env = \<lparr>sx_ext = ref_ext,
     sx_rpc = \<lparr>http_send = (\<lambda>_ _ _ n. (n, Inr (200, []))), resp_text = (\<lambda>_. []), unjson_tip_response = (\<lambda>_. Inl []),
       unjson_balance_response = (\<lambda>_. Inr \<lparr>br_address = [], br_balance = 100000\<rparr>),
       unjson_utxo_items = (\<lambda>_. Inr [demo_item]), unjson_tx_response = (\<lambda>_. Inr (replicate 16 CHR ''a''))\<rparr>,
     sx_delay = (\<lambda>_. 0), sx_tie = (\<lambda>us. us), sx_split = (\<lambda>n. (sample_split_env, n))\<rparr>"

definition demo_world :: "unit sc_world" where
  "demo_world = \<lparr>sw_bus = event_bus_new 100, sw_net = (), sw_now = 0, sw_readings = 0\<rparr>"

lemma demo_env_simps [simp]:
  "sx_ext demo_env = ref_ext" "sx_tie demo_env = (\<lambda>us. us)" "sx_delay demo_env = (\<lambda>_. 0)"
  "rpc_get_utxos (sx_rpc demo_env) u a n = (n, Inr [demo_item])"
  "rpc_post_tx E (sx_rpc demo_env) u tx n = (n, Inr (replicate 16 CHR ''a''))"
  "rpc_get_balance (sx_rpc demo_env) u a n = (n, Inr \<lparr>br_address = [], br_balance = 100000\<rparr>)"
  by (simp_all add: demo_env_def rpc_get_utxos_def rpc_post_tx_def rpc_get_balance_def rpc_call_def check_response_def)

lemma demo_select:
  "amount \<le> 200000 \<Longrightarrow> select_coins (\<lambda>us. us) [demo_item] amount = Inr \<lparr>selected = [demo_item], sel_total = 200000\<rparr>"
  by (simp add: select_coins_def demo_item_def saturating_add_def u64_max_def)

lemma demo_build: "\<exists>tx. build_transfer ref_ext funder_key [demo_item] a amount b = Inr tx"
  using ref_hex_roundtrip by (simp add: build_transfer_def demo_item_def hex_roundtrip_def Let_def)

lemma demo_passes: "\<exists>w' r. run_scenario demo_env ''single_transfer'' [''node1''] demo_world = (w', Cont r) \<and> sr_status r = Pass"
proof -
  obtain tx where tx: "build_transfer ref_ext funder_key [demo_item] (recipient_addr ref_ext 0xAA) 100000 (funder_addr ref_ext) = Inr tx"
    using demo_build by blast
  have "transfer_arrived (sx_rpc demo_env) [''node1''] a 100000 n = (n, None)" for a n
    by (simp add: transfer_arrived_def confirmations_def)
  then have wait: "wait_loop demo_env name step poll (transfer_arrived (sx_rpc demo_env) [''node1''] a 100000) (t + 40000) w =
      (sc_tick demo_env w, True)" if "sw_now w = t" for name step poll a t w
    using that by (subst wait_loop.simps) (simp add: sc_tick_def Let_def)
  show ?thesis
    by (simp add: run_scenario_def scenario_body_def scenario_single_transfer_def sc_bind_def sc_seq_def sc_now_def sc_index_def
        sc_slice_def sc_return_def sc_net_def sc_call_def ok_step_def sc_pass_def wait_until_def publish_step_def Let_def
        demo_select tx wait sc_tick_def)
qed

section \<open>Properties\<close>

text \<open>
  Claim C38: the report of a scenario.  A scenario that ends has published its first event \<open>init\<close>, only events
  under its own name, and last the event \<open>done\<close> with the status of its result; the bus stays in order.
  In the result all steps passed, or all but the last, which failed.
\<close>

theorem scenario_report_ok:
  assumes "run_scenario C name urls w = (w', Cont r)" and "0 < eb_capacity (sw_bus w)" and "bus_ok (sw_bus w)"
  shows "sr_scenario r = name \<and> (sr_status r = Pass \<and> all_pass (sr_steps r) \<or>
      sr_status r = Fail \<and> all_pass (butlast (sr_steps r)) \<and> sr_steps r \<noteq> [] \<and> ss_status (last (sr_steps r)) = Fail) \<and>
    bus_ok (sw_bus w') \<and>
    (\<exists>e es e'. eb_sent (sw_bus w') = eb_sent (sw_bus w) @ e # es @ [e'] \<and>
      wse_event e = ScenarioEvent name ''init'' ''start'' ''Scenario started'' \<and> list_all (of_scenario name) es \<and>
      (\<exists>detail. wse_event e' = ScenarioEvent name ''done'' (if sr_status r = Pass then ''pass'' else ''fail'') detail))"
proof -
  let ?w0 = "fst (publish_step C name ''init'' ''start'' ''Scenario started'' w)"
  have "scenario_log name (sw_bus ?w0) (sw_bus ?w0)" by (simp add: scenario_log_def)
  then have "sc_keeps (scenario_log name (sw_bus ?w0)) (net_reach C (sw_net w)) ?w0"
    by (simp add: sc_keeps_def publish_step_def Let_def net_reach.start)
  then obtain w1 detail where w1: "sc_keeps (scenario_log name (sw_bus ?w0)) (net_reach C (sw_net w)) w1"
    "sw_bus w' = publish_local ''visualizer'' (int (sw_now (sc_tick C w1)))
       (ScenarioEvent name ''done'' (if sr_status r = Pass then ''pass'' else ''fail'') detail) (sw_bus w1)"
    "scenario_passed name r \<or> scenario_failed name r"
    using scn.run_post [OF _ assms(1)] by blast
  have b0: "0 < eb_capacity (sw_bus ?w0)" "bus_ok (sw_bus ?w0)"
    "\<exists>e. eb_sent (sw_bus ?w0) = eb_sent (sw_bus w) @ [e] \<and>
      wse_event e = ScenarioEvent name ''init'' ''start'' ''Scenario started''"
    using assms(2,3) publish_ok by (simp_all add: publish_step_def publish_local_def Let_def)
  obtain es where es: "eb_sent (sw_bus w1) = eb_sent (sw_bus ?w0) @ es" "list_all (of_scenario name) es"
    and ok: "bus_ok (sw_bus w1)" "0 < eb_capacity (sw_bus w1)"
    using w1(1) b0(1,2) by (auto simp: sc_keeps_def scenario_log_def)
  have "bus_ok (sw_bus w')" using publish_ok ok by (simp add: w1(2) publish_local_def)
  moreover have "\<exists>e es e'. eb_sent (sw_bus w') = eb_sent (sw_bus w) @ e # es @ [e'] \<and>
      wse_event e = ScenarioEvent name ''init'' ''start'' ''Scenario started'' \<and> list_all (of_scenario name) es \<and>
      (\<exists>detail. wse_event e' = ScenarioEvent name ''done'' (if sr_status r = Pass then ''pass'' else ''fail'') detail)"
    using b0(3) es w1(2) by (force simp: publish_local_def)
  ultimately show ?thesis using w1(3) by (auto simp: scenario_passed_def scenario_failed_def)
qed

theorem scenario_report_ok_witness:
  "\<exists>w' r e es e'. run_scenario demo_env ''single_transfer'' [''node1''] demo_world = (w', Cont r) \<and> all_pass (sr_steps r) \<and>
     eb_sent (sw_bus w') = e # es @ [e'] \<and> wse_event e = ScenarioEvent ''single_transfer'' ''init'' ''start'' ''Scenario started''"
proof -
  obtain w' r where r: "run_scenario demo_env ''single_transfer'' [''node1''] demo_world = (w', Cont r)" "sr_status r = Pass"
    using demo_passes by blast
  have "sw_bus demo_world = event_bus_new 100" by (simp add: demo_world_def)
  then show ?thesis
    using scenario_report_ok [OF r(1)] r bus_ok_new [of 100] by (auto simp: event_bus_new_def)
qed



text \<open>
  Claim C39: \<open>double_spend\<close> needs five nodes.  With fewer, once the outputs of the funder are fetched and the
  five transactions built, it panics on the first missing node: nothing has been posted, and after the
  three events \<open>init\<close>, \<open>setup\<close> and \<open>submit\<close> no \<open>done\<close> follows.
\<close>

theorem double_spend_few_nodes:
  assumes "urls \<noteq> []" and "length urls < 5"
    and "rpc_get_utxos (sx_rpc C) (urls ! 0) (as_str (funder_addr (sx_ext C))) (sw_net w) = (n, Inr us)" and "us \<noteq> []"
    and "select_coins (sx_tie C) us 5000 = Inr sel"
    and "build_transfer (sx_ext C) funder_key (selected sel) (recipient_addr (sx_ext C) 0xFF) 5000 (funder_addr (sx_ext C)) = Inr tx"
  shows "\<exists>w'. run_scenario C ''double_spend'' urls w = (w', Panic) \<and> sw_net w' = n \<and>
    map wse_event (eb_sent (sw_bus w')) = map wse_event (eb_sent (sw_bus w)) @
      [ScenarioEvent ''double_spend'' ''init'' ''start'' ''Scenario started'',
       ScenarioEvent ''double_spend'' ''setup'' ''start'' ''Fetching UTXOs for double-spend test'',
       ScenarioEvent ''double_spend'' ''submit'' ''start'' ''Submitting 5 identical TXs to 5 different nodes'']"
proof -
  have z: "zip_urls urls 0 (replicate 5 tx) v = (v, Panic)" for v :: "'a sc_world"
    using assms(2) by (intro zip_urls_panic) simp_all
  show ?thesis
    using assms(1,3,4,5) z
    by (simp add: run_scenario_def scenario_body_def scenario_double_spend_def sc_bind_def sc_seq_def sc_now_def sc_index_def
        sc_return_def sc_net_def sc_call_def ok_step_def publish_step_def Let_def sc_tick_def publish_local_def
        build_identical_ok [OF assms(6)])
qed

theorem double_spend_few_nodes_witness:
  "\<exists>w'. run_scenario demo_env ''double_spend'' [''node1'', ''node2'', ''node3'', ''node4''] demo_world = (w', Panic)"
proof -
  let ?urls = "[''node1'', ''node2'', ''node3'', ''node4'']" and ?sel = "\<lparr>selected = [demo_item], sel_total = 200000\<rparr>"
  obtain tx where tx: "build_transfer (sx_ext demo_env) funder_key (selected ?sel) (recipient_addr (sx_ext demo_env) 0xFF) 5000
      (funder_addr (sx_ext demo_env)) = Inr tx"
    unfolding demo_env_simps coin_selection.simps using demo_build by blast
  have sel: "select_coins (sx_tie demo_env) [demo_item] 5000 = Inr ?sel" by (simp add: demo_select)
  from double_spend_few_nodes [OF _ _ demo_env_simps(4) _ sel tx, of ?urls demo_world] show ?thesis by auto
qed

section \<open>The rejected transactions\<close>

text \<open>A signature of zeros does not verify under the key of the funder.\<close>

definition zero_signature_fails :: "ext \<Rightarrow> bool" where
  "zero_signature_fails E \<longleftrightarrow> (\<forall>m. ed_verify E (ed_public E funder_key) m (replicate 64 0) \<noteq> Inr ())"

definition crafted :: "ext \<Rightarrow> tx_out_ref \<Rightarrow> u64 \<Rightarrow> transaction set" where
  "crafted E r amount = {bad_sig_tx E r amount, overspend_tx E r amount, phantom_tx E}"

text \<open>
  What a node must know for them to be malformed: the output used has the listed amount unless it is
  spent, the phantom output does not exist, and none of the transactions is in the pool.
\<close>

definition ready_node :: "ext \<Rightarrow> 's utxo_store \<Rightarrow> tx_out_ref \<Rightarrow> u64 \<Rightarrow> 's node_state \<Rightarrow> bool" where
  "ready_node E U r amount st \<longleftrightarrow>
     (\<forall>t. us_get U (ns_store st) r = Inr (Some t) \<longrightarrow> out_amount t = amount) \<and>
     (\<forall>t. us_get U (ns_store st) phantom_ref \<noteq> Inr (Some t)) \<and>
     (\<forall>tx \<in> crafted E r amount. map_of (mp_txs (ns_mempool st)) (transaction_hash E tx) = None)"

text \<open>A network of nodes, in which the answers to rejected transactions arrive.\<close>

definition delivers_errors :: "'s node_env \<Rightarrow> api_ext \<Rightarrow> (string \<Rightarrow> 's node_state) rpc_ext \<Rightarrow> string list \<Rightarrow> bool" where
  "delivers_errors Env A R urls \<longleftrightarrow> (\<forall>u \<in> set urls. \<forall>m p b net st' msg.
     route Env A m p b (net u) = (st', err_response A 400 msg) \<longrightarrow>
     (\<exists>body. http_send R m (u @ p) b net = (net(u := st'), Inr (400, body))))"

definition same_nodes :: "(string \<Rightarrow> 's node_state) \<Rightarrow> (string \<Rightarrow> 's node_state) \<Rightarrow> bool" where
  "same_nodes net net' \<longleftrightarrow> (\<forall>u. ns_store (net' u) = ns_store (net u) \<and> ns_mempool (net' u) = ns_mempool (net u) \<and>
     ns_peers (net' u) = ns_peers (net u))"

lemma same_nodes_trans: "same_nodes a b \<Longrightarrow> same_nodes b c \<Longrightarrow> same_nodes a c"
  by (simp add: same_nodes_def)

lemma same_nodes_ready: "same_nodes a b \<Longrightarrow> ready_node E U r amount (a u) \<Longrightarrow> ready_node E U r amount (b u)"
  by (simp add: same_nodes_def ready_node_def)

lemma crafted_rejected:
  assumes "zero_signature_fails E" and "ready_node E U r amount st" and "tx \<in> crafted E r amount"
  shows "\<exists>e. validate_transaction E U (ns_store st) tx = Inl e"
proof -
  let ?s = "ns_store st"
  note defs = validate_transaction_def funder_tx_def sign_first_def Let_def
  have bad: "\<exists>e. validate_transaction E U ?s (bad_sig_tx E r amount) = Inl e"
  proof -
    have "\<exists>e. verify E (ed_public E funder_key) m (replicate 64 0) = Inl e" for m
      using assms(1) verify_ok_iff [of E "ed_public E funder_key" m "replicate 64 0"]
      by (cases "verify E (ed_public E funder_key) m (replicate 64 0)") (auto simp: zero_signature_fails_def)
    then obtain f where "verify E (ed_public E funder_key) m (replicate 64 0) = Inl (f m)" for m by metis
    then show ?thesis by (auto simp: bad_sig_tx_def defs split: sum.splits option.splits)
  qed
  have over: "\<exists>e. validate_transaction E U ?s (overspend_tx E r amount) = Inl e"
  proof (cases "amount + 1 = 0")
    case True
    then show ?thesis by (simp add: overspend_tx_def defs)
  next
    case False
    then have less: "saturating_add 0 amount < amount + 1"
      using unatSuc [of amount] by (simp add: saturating_add_def word_less_nat_alt add.commute)
    show ?thesis
      using assms(2) False less
      by (auto simp: overspend_tx_def defs ready_node_def split: sum.splits option.splits if_splits)
  qed
  have "\<exists>e. validate_transaction E U ?s (phantom_tx E) = Inl e"
    using assms(2) by (auto simp: phantom_tx_def defs ready_node_def split: sum.splits option.splits)
  then show ?thesis using assms(3) bad over by (auto simp: crafted_def)
qed

lemma crafted_post:
  assumes "zero_signature_fails (ne_ext Env)" and "\<forall>tx. unjson_tx A (json_tx (ne_ext Env) tx) = Inr tx"
    and "delivers_errors Env A R urls" and "u \<in> set urls"
    and "ready_node (ne_ext Env) (ne_utxo Env) r amount (net u)" and "tx \<in> crafted (ne_ext Env) r amount"
  obtains net' e where "rpc_post_tx (ne_ext Env) R u tx net = (net', Inl e)" "same_nodes net net'"
proof -
  let ?E = "ne_ext Env" and ?U = "ne_utxo Env"
  obtain e where "validate_transaction ?E ?U (ns_store (net u)) tx = Inl e"
    using crafted_rejected [OF assms(1,5,6)] by blast
  moreover have "map_of (mp_txs (ns_mempool (net u))) (transaction_hash ?E tx) = None"
    using assms(5,6) by (simp add: ready_node_def)
  ultimately have "mempool_add ?E ?U (ns_store (net u)) tx (ns_mempool (net u)) =
      (ns_mempool (net u), Inl (Validation (show_tx_error e)))"
    by (simp add: mempool_add_def Let_def)
  from post_rejected_400 [OF _ this, of A "json_tx ?E tx"] assms(2)
  obtain st' m where st': "route Env A ''POST'' ''/tx'' (json_tx ?E tx) (net u) = (st', err_response A 400 (show_node_error (Validation m)))"
    "ns_store st' = ns_store (net u)" "ns_mempool st' = ns_mempool (net u)" "ns_peers st' = ns_peers (net u)"
    by auto
  then obtain body where "http_send R ''POST'' (u @ ''/tx'') (json_tx ?E tx) net = (net(u := st'), Inr (400, body))"
    using assms(3,4) unfolding delivers_errors_def by blast
  then show thesis
    using st' by (intro that [of "net(u := st')" "NodeErrorResponse 400 (resp_text R body)"])
      (simp_all add: rpc_post_tx_def rpc_call_def check_response_def same_nodes_def)
qed

lemma crafted_all_rejected:
  assumes "zero_signature_fails (ne_ext Env)" and "\<forall>tx. unjson_tx A (json_tx (ne_ext Env) tx) = Inr tx"
    and "delivers_errors Env A R urls" and "set us \<subseteq> set urls"
    and "\<forall>u \<in> set us. ready_node (ne_ext Env) (ne_utxo Env) r amount (net u)" and "tx \<in> crafted (ne_ext Env) r amount"
  shows "\<exists>net' rs. post_all (ne_ext Env) R (map (\<lambda>u. (u, tx)) us) net = (net', rs) \<and> accepted_count rs = 0 \<and> same_nodes net net'"
  using assms(4,5)
proof (induction us arbitrary: net)
  case Nil
  then show ?case by (simp add: accepted_count_def same_nodes_def)
next
  case (Cons u us)
  have "u \<in> set urls" "ready_node (ne_ext Env) (ne_utxo Env) r amount (net u)" using Cons.prems by simp_all
  then obtain net1 e where p: "rpc_post_tx (ne_ext Env) R u tx net = (net1, Inl e)" "same_nodes net net1"
    using crafted_post [OF assms(1-3) _ _ assms(6)] by blast
  have "\<forall>v \<in> set us. ready_node (ne_ext Env) (ne_utxo Env) r amount (net1 v)"
    using Cons.prems(2) same_nodes_ready [OF p(2)] by simp
  then obtain net' rs where "post_all (ne_ext Env) R (map (\<lambda>u. (u, tx)) us) net1 = (net', rs)" "accepted_count rs = 0" "same_nodes net1 net'"
    using Cons.IH [of net1] Cons.prems(1) by auto
  then show ?case using p same_nodes_trans [OF p(2)] by (simp add: accepted_count_def)
qed

text \<open>\<open>sc_ok I I' Q m\<close>: from a network with \<open>I\<close>, \<open>m\<close> continues with a value with \<open>Q\<close> and leaves a network with \<open>I'\<close>.\<close>

definition sc_ok :: "('n \<Rightarrow> bool) \<Rightarrow> ('n \<Rightarrow> bool) \<Rightarrow> ('a \<Rightarrow> bool) \<Rightarrow> ('n, 'a) sc \<Rightarrow> bool" where
  "sc_ok I I' Q m \<longleftrightarrow> (\<forall>w. I (sw_net w) \<longrightarrow> (\<exists>w' x. m w = (w', Cont x) \<and> I' (sw_net w') \<and> Q x))"

lemma sc_okD: "sc_ok I I' Q m \<Longrightarrow> I (sw_net w) \<Longrightarrow> \<exists>w' x. m w = (w', Cont x) \<and> I' (sw_net w') \<and> Q x"
  by (simp add: sc_ok_def)

lemma ok_bind: "sc_ok I I1 Q' m \<Longrightarrow> (\<And>x. Q' x \<Longrightarrow> sc_ok I1 I' Q (f x)) \<Longrightarrow> sc_ok I I' Q (sc_bind m f)"
  by (fastforce simp: sc_ok_def sc_bind_def)

lemma ok_return: "Q x \<Longrightarrow> sc_ok I I Q (sc_return x)"
  by (simp add: sc_ok_def sc_return_def)

lemma ok_now: "(\<And>t. sc_ok I I' Q (f t)) \<Longrightarrow> sc_ok I I' Q (sc_bind (sc_now C) f)"
  by (rule ok_bind [where Q' = "\<lambda>_. True" and ?I1.0 = I]) (simp_all add: sc_ok_def sc_now_def Let_def)

lemma ok_publish: "sc_ok I I' Q k \<Longrightarrow> sc_ok I I' Q (sc_seq (publish_step C name step status detail) k)"
  unfolding sc_seq_def
  by (rule ok_bind [where Q' = "\<lambda>_. True" and ?I1.0 = I]) (simp_all add: sc_ok_def publish_step_def Let_def)

lemma ok_index: "i < length xs \<Longrightarrow> sc_ok I I' Q (f (xs ! i)) \<Longrightarrow> sc_ok I I' Q (sc_bind (sc_index xs i) f)"
  by (simp add: sc_ok_def sc_bind_def sc_index_def sc_return_def)

lemma ok_slice: "n \<le> length s \<Longrightarrow> (\<And>x. sc_ok I I' Q (f x)) \<Longrightarrow> sc_ok I I' Q (sc_bind (sc_slice n s) f)"
  by (simp add: sc_ok_def sc_bind_def sc_slice_def sc_return_def)

lemma ok_net:
  "(\<And>n. I n \<Longrightarrow> \<exists>n' x. g n = (n', x) \<and> I1 n' \<and> Q' x) \<Longrightarrow> (\<And>x. Q' x \<Longrightarrow> sc_ok I1 I' Q (f x)) \<Longrightarrow>
   sc_ok I I' Q (sc_bind (sc_net g) f)"
  by (rule ok_bind [where Q' = Q' and ?I1.0 = I1]) (fastforce simp: sc_ok_def sc_net_def)+

lemma ok_ok_step:
  "(\<And>s. ss_name s = step \<Longrightarrow> sc_ok I I' Q (f s)) \<Longrightarrow> sc_ok I I' Q (sc_bind (ok_step C step detail start) f)"
  by (rule ok_bind [where Q' = "\<lambda>s. ss_name s = step" and ?I1.0 = I]) (auto simp: ok_step_def intro!: ok_now ok_return)

lemma ok_pass:
  "(\<And>ms. Q \<lparr>sr_scenario = name, sr_status = Pass, sr_elapsed_ms = ms, sr_steps = steps\<rparr>) \<Longrightarrow> sc_ok I I Q (sc_pass C name start steps)"
  unfolding sc_pass_def by (intro ok_now ok_return)

text \<open>One case of the scenario on such a network: a passed step, and the nodes as they were.\<close>

lemma ok_rejection:
  fixes C :: "(string \<Rightarrow> 's node_state) sc_env"
  assumes "zero_signature_fails (sx_ext C)" and "\<forall>tx. unjson_tx A (json_tx (sx_ext C) tx) = Inr tx"
    and "delivers_errors Env A (sx_rpc C) urls" and "ne_ext Env = sx_ext C"
    and "\<forall>u \<in> set urls. ready_node (sx_ext C) (ne_utxo Env) r amount (net u)" and "tx \<in> crafted (sx_ext C) r amount"
    and "\<And>s. ss_name s = label \<Longrightarrow> sc_ok (same_nodes net) I' Q (f (steps @ [s]))"
  shows "sc_ok (same_nodes net) I' Q (sc_bind (rejection_case C name start steps urls label intro tx) f)"
proof (rule ok_bind)
  have "\<exists>n' x. assert_all_reject (sx_ext C) (sx_rpc C) urls tx label n = (n', x) \<and> same_nodes net n' \<and> (\<exists>d. x = Inr d)"
    if n: "same_nodes net n" for n
  proof -
    have "\<forall>u \<in> set urls. ready_node (sx_ext C) (ne_utxo Env) r amount (n u)"
      using assms(5) same_nodes_ready [OF n] by simp
    then obtain n' rs where "post_all (sx_ext C) (sx_rpc C) (map (\<lambda>u. (u, tx)) urls) n = (n', rs)"
      "accepted_count rs = 0" "same_nodes n n'"
      using crafted_all_rejected [of Env A "sx_rpc C" urls urls r amount n tx] assms(1-4,6) by auto
    then show ?thesis using same_nodes_trans [OF n] by (simp add: assert_all_reject_def)
  qed
  then show "sc_ok (same_nodes net) (same_nodes net) (\<lambda>ss. \<exists>s. ss_name s = label \<and> ss = steps @ [s])
      (rejection_case C name start steps urls label intro tx)"
    unfolding rejection_case_def
    by (intro ok_publish ok_net [where Q' = "\<lambda>x. \<exists>d. x = Inr d" and ?I1.0 = "same_nodes net"])
      (auto intro!: ok_ok_step ok_publish ok_return)
qed (use assms(7) in blast)

text \<open>
  Claim C36: \<open>invalid_tx_rejection\<close> passes on correct nodes.  If the funder has an output with a well-formed hash
  and every node is ready for the test, each of the three malformed transactions is rejected by
  every node; the scenario passes with its four steps, and the store, the pool and the queues of
  every node are as they were after the outputs were fetched.
\<close>

theorem invalid_tx_rejection_passes:
  fixes C :: "(string \<Rightarrow> 's node_state) sc_env"
  assumes "zero_signature_fails (sx_ext C)" and "\<forall>tx. unjson_tx A (json_tx (sx_ext C) tx) = Inr tx"
    and "delivers_errors Env A (sx_rpc C) urls" and "ne_ext Env = sx_ext C" and "urls \<noteq> []"
    and "rpc_get_utxos (sx_rpc C) (urls ! 0) (as_str (funder_addr (sx_ext C))) (sw_net w) = (net, Inr (i # us))"
    and "hex_to_hash (sx_ext C) (ui_tx_hash i) = Inr h" and "8 \<le> length (ui_tx_hash i)"
    and "\<forall>u \<in> set urls. ready_node (sx_ext C) (ne_utxo Env) \<lparr>ref_tx_hash = h, ref_index = ui_index i\<rparr> (ui_amount i) (net u)"
  shows "\<exists>w' r. run_scenario C ''invalid_tx_rejection'' urls w = (w', Cont r) \<and> same_nodes net (sw_net w') \<and>
    sr_status r = Pass \<and> map ss_name (sr_steps r) = [''setup'', ''bad_signature'', ''overspend'', ''phantom_utxo'']"
proof -
  let ?Q = "\<lambda>r. sr_status r = Pass \<and> map ss_name (sr_steps r) = [''setup'', ''bad_signature'', ''overspend'', ''phantom_utxo'']"
  have fetch: "sc_ok (\<lambda>n. n = sw_net w) I' Q
      (sc_bind (sc_net (rpc_get_utxos (sx_rpc C) (urls ! 0) (as_str (funder_addr (sx_ext C))))) f)"
    if "sc_ok (same_nodes net) I' Q (f (Inr (i # us)))" for I' and Q :: "'b \<Rightarrow> bool" and f
    using that assms(6) by (simp add: sc_ok_def sc_bind_def sc_net_def) (simp add: same_nodes_def)
  note case_rule = ok_rejection [OF assms(1-4,9)]
  have first: "0 < length urls" using assms(5) by simp
  have "sc_ok (\<lambda>n. n = sw_net w) (same_nodes net) ?Q (scenario_invalid_tx_rejection C urls)"
    unfolding scenario_invalid_tx_rejection_def Let_def
    by (intro ok_now ok_publish ok_index first fetch, simp only: sum.case list.case assms(7),
      intro ok_slice ok_ok_step ok_publish case_rule ok_pass) (simp_all add: crafted_def assms(8))
  then have call: "sc_ok (\<lambda>n. n = sw_net w) (same_nodes net) ?Q (sc_call (scenario_body C ''invalid_tx_rejection'' urls))"
    by (fastforce simp: sc_ok_def sc_call_def scenario_body_def)
  have "sc_ok (\<lambda>n. n = sw_net w) (same_nodes net) ?Q (run_scenario C ''invalid_tx_rejection'' urls)"
    unfolding run_scenario_def by (intro ok_publish ok_bind [OF call] ok_return)
  from sc_okD [OF this refl] show ?thesis .
qed

text \<open>Two nodes over the sled store that hold an output of the funder; a request goes to the node its URL begins with.\<close>

definition pair_env :: "(string \<Rightarrow> (byte list, byte list) RBT.rbt sled_store node_state) sc_env" where
  "pair_env = \<lparr>sx_ext = ref_ext,
     sx_rpc = \<lparr>http_send = (\<lambda>m url b net. case route sample_env ref_api m (drop 5 url) b (net (take 5 url)) of
          (st', bs) \<Rightarrow> (net(take 5 url := st'), Inr (if bs ! 9 = 0x32 then 200 else 400, response_body bs))),
       resp_text = (\<lambda>_. []), unjson_tip_response = (\<lambda>_. Inl []), unjson_balance_response = (\<lambda>_. Inl []),
       unjson_utxo_items = whole (dec_list dec_utxo_item), unjson_tx_response = (\<lambda>bs. map_sum id as_str (whole dec_address bs))\<rparr>,
     sx_delay = (\<lambda>_. 0), sx_tie = (\<lambda>us. us), sx_split = (\<lambda>n. (sample_split_env, n))\<rparr>"

definition pair_node :: "(byte list, byte list) RBT.rbt sled_store node_state" where
  "pair_node = funded_node (funder_addr ref_ext) 7"

definition pair_world :: "(string \<Rightarrow> (byte list, byte list) RBT.rbt sled_store node_state) sc_world" where
  "pair_world = \<lparr>sw_bus = event_bus_new 100, sw_net = (\<lambda>_. pair_node), sw_now = 0, sw_readings = 0\<rparr>"

lemma response_status:
  "err_response A 400 msg ! 9 = 0x34" "json_ok A j ! 9 = 0x32"
proof -
  have c: "show_nat 400 = ''400''" "show_nat 200 = ''200''" by code_simp+
  show "err_response A 400 msg ! 9 = 0x34" "json_ok A j ! 9 = 0x32"
    by (simp_all add: err_response_def json_ok_def build_response_def response_header_def c str_bytes_def nth_append byte_of_char_def)
qed

lemma pair_laws:
  "zero_signature_fails ref_ext" "\<forall>tx. unjson_tx ref_api (json_tx ref_ext tx) = Inr tx"
  "delivers_errors sample_env ref_api (sx_rpc pair_env) [''node1'', ''node2'']"
proof -
  have "replicate 64 0 \<noteq> funder_key @ take 2 (ref_digest m)" for m
    by (rule notI, drule arg_cong [of _ _ length]) (simp add: funder_key_def FUNDER_SEED_def ref_digest_def Let_def)
  then show "zero_signature_fails ref_ext" by (simp add: zero_signature_fails_def ref_ext_def)
  show "\<forall>tx. unjson_tx ref_api (json_tx ref_ext tx) = Inr tx" using ref_json_agrees [of sample_env 0] by (simp add: json_agrees_def)
  show "delivers_errors sample_env ref_api (sx_rpc pair_env) [''node1'', ''node2'']"
    by (auto simp: delivers_errors_def pair_env_def response_status)
qed

abbreviation pair_ref :: tx_out_ref where
  "pair_ref \<equiv> out_ref_at ref_ext (allocation (funder_addr ref_ext) 7) 0"

lemma pair_ref_hash: "length (ref_tx_hash pair_ref) = 32" "ref_tx_hash pair_ref ! 2 = 0"
  by (simp_all add: out_ref_at_def transaction_hash_def length_sha256d [OF ref_digest_32])
    (simp add: sha256d_def ref_ext_def ref_digest_def Let_def)

lemma pair_ready: "ready_node ref_ext (ne_utxo sample_env) pair_ref 7 pair_node"
proof -
  have "us_get (ne_utxo sample_env) (ns_store pair_node) r = Inr ([pair_ref \<mapsto> \<lparr>out_amount = 7, out_address = funder_addr ref_ext\<rparr>] r)" for r
    using rbt_sled.utxo_get [OF funded_node_ok(1) [of "funder_addr ref_ext" 7], of r] funded_node_ok(2) [of "funder_addr ref_ext" 7]
    by (simp add: pair_node_def sample_env_def sled_node_env_def)
  moreover have "ref_tx_hash phantom_ref ! 2 \<noteq> 0" by (simp add: phantom_ref_def)
  then have "phantom_ref \<noteq> pair_ref" using pair_ref_hash(2) by metis
  ultimately show ?thesis by (simp add: ready_node_def pair_node_def funded_node_pool)
qed

lemma pair_utxos:
  "rpc_get_utxos (sx_rpc pair_env) ''node1'' (as_str (funder_addr ref_ext)) (\<lambda>_. pair_node) =
     (\<lambda>_. pair_node, Inr [item_ref ref_ext (pair_ref, \<lparr>out_amount = 7, out_address = funder_addr ref_ext\<rparr>)])"
proof -
  let ?t = "\<lparr>out_amount = 7, out_address = funder_addr ref_ext\<rparr>"
  have "validate_address (as_str (funder_addr ref_ext)) = Inr (funder_addr ref_ext)"
    using derived_address_validates [OF ref_digest_32 ref_hex_lower] by (simp add: funder_addr_def)
  moreover have "us_list_utxos (ne_utxo sample_env) (ns_store pair_node) (funder_addr ref_ext) = Inr [(pair_ref, ?t)]"
    using funded_node_ok(3) [of "funder_addr ref_ext" 7] by (simp add: pair_node_def sample_env_def sled_node_env_def sled_utxo_store_def)
  ultimately have "route sample_env ref_api ''GET'' (''/utxos/'' @ as_str (funder_addr ref_ext)) [] pair_node =
      (pair_node, json_ok ref_api (JArr (map (utxo_json ref_ext) [(pair_ref, ?t)])))"
    using route_utxos [of "as_str (funder_addr ref_ext)" "funder_addr ref_ext" sample_env pair_node "[(pair_ref, ?t)]" ref_api "[]"]
    by (simp add: sample_env_def sled_node_env_def)
  moreover have "whole (dec_list dec_utxo_item) (json_value ref_api (JArr (map (utxo_json ref_ext) [(pair_ref, ?t)]))) =
      Inr [item_ref ref_ext (pair_ref, ?t)]"
    using ref_json_agrees [of sample_env 0] by (simp add: json_agrees_def ref_rpc_def del: list.map) (metis list.map)
  ultimately show ?thesis
    by (simp add: rpc_get_utxos_def rpc_call_def pair_env_def check_response_def response_status fun_upd_idem)
qed

theorem invalid_tx_rejection_passes_witness:
  "\<exists>w' r. run_scenario pair_env ''invalid_tx_rejection'' [''node1'', ''node2''] pair_world = (w', Cont r) \<and> sr_status r = Pass"
proof -
  let ?i = "item_ref ref_ext (pair_ref, \<lparr>out_amount = 7, out_address = funder_addr ref_ext\<rparr>)"
  have i: "hex_to_hash ref_ext (ui_tx_hash ?i) = Inr (ref_tx_hash pair_ref)" "8 \<le> length (ui_tx_hash ?i)"
    "\<lparr>ref_tx_hash = ref_tx_hash pair_ref, ref_index = ui_index ?i\<rparr> = pair_ref" "ui_amount ?i = 7"
    using ref_hex_roundtrip ref_hex_lower pair_ref_hash(1)
    by (simp_all add: hex_to_hash_def item_ref_def hex_roundtrip_def hex_lower_def)
  have e: "sx_ext pair_env = ref_ext" "ne_ext sample_env = ref_ext" "sw_net pair_world = (\<lambda>_. pair_node)"
    by (simp_all add: pair_env_def sample_env_def sled_node_env_def pair_world_def)
  have ready: "\<forall>u \<in> set [''node1'', ''node2'']. ready_node (sx_ext pair_env) (ne_utxo sample_env)
      \<lparr>ref_tx_hash = ref_tx_hash pair_ref, ref_index = ui_index ?i\<rparr> (ui_amount ?i) ((\<lambda>_. pair_node) u)"
    unfolding e i using pair_ready by simp
  have utxos: "rpc_get_utxos (sx_rpc pair_env) ([''node1'', ''node2''] ! 0) (as_str (funder_addr (sx_ext pair_env))) (sw_net pair_world) =
      (\<lambda>_. pair_node, Inr [?i])"
    unfolding e using pair_utxos by simp
  from invalid_tx_rejection_passes [OF _ _ pair_laws(3) _ _ utxos _ _ ready] pair_laws(1,2) i(1,2) show ?thesis
    by (auto simp: e)
qed

end
