(* ===== verification/Bcc_Main.thy ===== *)
theory Bcc_Main
  imports Bcc_Node Bcc_Scenario_Runs
begin

text \<open>
  The processes: the start of \<open>bcc-node/src/main.rs\<close> from its files and its database, the listeners of
  \<open>api.rs\<close> and \<open>debug_ws.rs\<close>, and \<open>main.rs\<close> and \<open>server.rs\<close> of the visualizer, whose requests start scenarios.  A
  node that starts on an empty database with peers that answer has a well-formed chain, and serving
  requests keeps it.
\<close>

section \<open>\<open>SledStore::open\<close>\<close>

definition TREE_BLOCKS_H :: "byte list" where
  "TREE_BLOCKS_H = str_bytes ''blocks_h''"

definition TREE_BLOCKS_IDX :: "byte list" where
  "TREE_BLOCKS_IDX = str_bytes ''blocks_idx''"

definition TREE_UTXO :: "byte list" where
  "TREE_UTXO = str_bytes ''utxo''"

definition TREE_VALIDATORS :: "byte list" where
  "TREE_VALIDATORS = str_bytes ''validators''"

definition TREE_META :: "byte list" where
  "TREE_META = str_bytes ''meta''"

definition TREE_SPENT :: "byte list" where
  "TREE_SPENT = str_bytes ''spent_h''"

text \<open>An opened database opens trees by their names.\<close>

definition sled_open :: "string + (byte list \<Rightarrow> string + 't) \<Rightarrow> string + 't sled_store" where
  "sled_open db =
     (case db of Inl e \<Rightarrow> Inl e | Inr open_tree \<Rightarrow>
     (case open_tree TREE_BLOCKS_H of Inl e \<Rightarrow> Inl e | Inr bh \<Rightarrow>
     (case open_tree TREE_BLOCKS_IDX of Inl e \<Rightarrow> Inl e | Inr bi \<Rightarrow>
     (case open_tree TREE_UTXO of Inl e \<Rightarrow> Inl e | Inr ut \<Rightarrow>
     (case open_tree TREE_VALIDATORS of Inl e \<Rightarrow> Inl e | Inr va \<Rightarrow>
     (case open_tree TREE_META of Inl e \<Rightarrow> Inl e | Inr me \<Rightarrow>
     (case open_tree TREE_SPENT of Inl e \<Rightarrow> Inl e | Inr sp \<Rightarrow>
        Inr \<lparr>sl_blocks_h = bh, sl_blocks_idx = bi, sl_utxo = ut, sl_validators = va, sl_meta = me, sl_spent_h = sp\<rparr>)))))))"

section \<open>The start of a node\<close>

text \<open>
  The files: the \<open>config\<close> crate (the TOML file with the \<open>BCC\<close> variables over it), \<open>read_to_string\<close>, the \<open>toml\<close> crate
  and \<open>sled::open\<close>.
\<close>

record 't start_files =
  sf_config :: "string \<Rightarrow> string + raw_config"
  sf_read :: "string \<Rightarrow> string + string"
  sf_genesis :: "string \<Rightarrow> string + genesis_config"
  sf_database :: "string \<Rightarrow> string + (byte list \<Rightarrow> string + 't)"

definition config_from_file :: "ext \<Rightarrow> net \<Rightarrow> 't start_files \<Rightarrow> string \<Rightarrow> node_error + node_config" where
  "config_from_file E N F p = (case sf_config F p of Inl e \<Rightarrow> Inl (NodeConfigErr e) | Inr raw \<Rightarrow> from_raw E N raw)"

definition genesis_from_file :: "'t start_files \<Rightarrow> string \<Rightarrow> node_error + genesis_config" where
  "genesis_from_file F p =
     (case sf_read F p of Inl e \<Rightarrow> Inl (NodeConfigErr (''genesis file: '' @ e))
      | Inr content \<Rightarrow>
        (case sf_genesis F content of Inl e \<Rightarrow> Inl (NodeConfigErr (''genesis parse: '' @ e)) | Inr g \<Rightarrow> Inr g))"

text \<open>What \<open>main\<close> fails with: the context and the error it wraps.\<close>

type_synonym start_error = "string \<times> string"

definition start_node ::
  "'t sled_env \<Rightarrow> ext \<Rightarrow> net \<Rightarrow> 't start_files \<Rightarrow> string \<Rightarrow> ibd_script \<Rightarrow>
   (start_error + 't sled_store node_state) option" where
  "start_node T E N F path conns =
     (let Env = sled_node_env T E N in
      case config_from_file E N F path of
        Inl e \<Rightarrow> Some (Inl (''failed to load node config'', show_node_error e))
      | Inr cfg \<Rightarrow>
     (case sled_open (sf_database F (sled_path cfg)) of
        Inl e \<Rightarrow> Some (Inl (''failed to open sled database'', e))
      | Inr s \<Rightarrow>
     (case genesis_from_file F (genesis_path cfg) of
        Inl e \<Rightarrow> Some (Inl (''failed to load genesis config'', show_node_error e))
      | Inr g \<Rightarrow>
     (case apply_genesis E (ne_blocks Env) (ne_utxo Env) (ne_validators Env) g s of
        (_, Inl e) \<Rightarrow> Some (Inl (''failed to apply genesis'', show_node_error e))
      | (s', Inr _) \<Rightarrow>
     (case run_ibd Env conns (boot_state Env cfg s') of
        None \<Rightarrow> None
      | Some (_, Inl e) \<Rightarrow> Some (Inl (''IBD failed'', show_node_error e))
      | Some (st, Inr _) \<Rightarrow> Some (Inr st))))))"

section \<open>Listeners\<close>

text \<open>The HTTP server: it announces itself once it is bound, then serves one connection after the other.\<close>

definition run_api ::
  "'s node_env \<Rightarrow> api_ext \<Rightarrow> bool \<Rightarrow> (string \<times> string list \<times> byte list) accept_input list \<Rightarrow> 's node_state \<Rightarrow> 's node_state" where
  "run_api Env A bound inputs st =
     (if bound
      then fold (\<lambda>(l, ls, bs). node_step Env A (HttpRequest l ls bs)) (accept_loop inputs)
        (emit (HttpApiReady (show_addr (ne_net Env) (http_addr (ns_config st)))) st)
      else st)"

text \<open>
  The debug server: each connection gets the snapshot of the state it finds and then the events; the
  frames sent on each.
\<close>

definition run_debug_ws ::
  "'s node_env \<Rightarrow> vis_ext \<Rightarrow> bool \<Rightarrow> ('s node_state \<times> u128 \<times> bool \<times> debug_envelope ws_input list) accept_input list \<Rightarrow>
   string list list" where
  "run_debug_ws Env X bound inputs =
     (if bound
      then map (\<lambda>(st, millis, accepted, events). debug_handle X accepted (build_snapshot Env millis st) events)
        (accept_loop inputs)
      else [])"

section \<open>The visualizer\<close>

record vis_conn =
  vc_request :: "string option"
  vc_accepted :: bool
  vc_fails_at :: "nat option"
  vc_events :: "ws_envelope ws_input list"

text \<open>A connection is answered with what the bus holds; a scenario it starts runs before the next connection.\<close>

fun vis_serve ::
  "vis_ext \<Rightarrow> byte list \<Rightarrow> 'n sc_env \<Rightarrow> string list \<Rightarrow> vis_conn list \<Rightarrow> 'n sc_world \<Rightarrow> 'n sc_world \<times> vis_answer list" where
  "vis_serve X html C ports [] w = (w, [])"
| "vis_serve X html C ports (c # cs) w =
     (let (answer, started) = vis_handle_connection X html (vc_request c) (vc_accepted c) (vc_fails_at c) (vc_events c) (sw_bus w);
          w' = (case started of None \<Rightarrow> w | Some name \<Rightarrow> fst (run_scenario C name ports w));
          (w'', answers) = vis_serve X html C ports cs w'
      in (w'', answer # answers))"

definition vis_run_server ::
  "vis_ext \<Rightarrow> byte list \<Rightarrow> 'n sc_env \<Rightarrow> string list \<Rightarrow> bool \<Rightarrow> vis_conn accept_input list \<Rightarrow> 'n sc_world \<Rightarrow>
   'n sc_world \<times> vis_answer list" where
  "vis_run_server X html C ports bound inputs w =
     (if bound then vis_serve X html C ports (accept_loop inputs) w else (w, []))"

text \<open>
  The process: the bus of 1000 events, what the clients of the nodes relay (the connections of each, in
  the order of the nodes), and the server.
\<close>

fun run_clients ::
  "vis_ext \<Rightarrow> int \<Rightarrow> (string \<times> string) list \<Rightarrow> (string \<Rightarrow> client_frame list option list) \<Rightarrow> event_bus \<Rightarrow> event_bus" where
  "run_clients X now [] conns bus = bus"
| "run_clients X now ((node, url) # ns) conns bus =
     run_clients X now ns conns (fst (client_loop X node now 2 (conns url) bus))"

definition visualizer_main ::
  "vis_ext \<Rightarrow> byte list \<Rightarrow> 'n sc_env \<Rightarrow> string option \<Rightarrow> string \<Rightarrow> int \<Rightarrow> (string \<Rightarrow> client_frame list option list) \<Rightarrow>
   bool \<Rightarrow> vis_conn accept_input list \<Rightarrow> 'n \<Rightarrow> 'n sc_world \<times> vis_answer list" where
  "visualizer_main X html C debug_urls node_ports now conns bound inputs n =
     (let bus = run_clients X now (node_urls debug_urls node_ports) conns (event_bus_new 1000)
      in vis_run_server X html C (scenario_urls debug_urls node_ports) bound inputs
           \<lparr>sw_bus = bus, sw_net = n, sw_now = nat now, sw_readings = 0\<rparr>)"

section \<open>Lemmas\<close>

lemma tree_names_distinct: "distinct [TREE_BLOCKS_H, TREE_BLOCKS_IDX, TREE_UTXO, TREE_VALIDATORS, TREE_META, TREE_SPENT]"
  by (simp add: TREE_BLOCKS_H_def TREE_BLOCKS_IDX_def TREE_UTXO_def TREE_VALIDATORS_def TREE_META_def TREE_SPENT_def str_bytes_def
      byte_of_char_def)

text \<open>A database without trees opens as the empty store of the tests.\<close>

lemma sled_open_fresh: "sled_open (Inr (\<lambda>_. Inr (t_empty T))) = Inr (sled_new_temporary T)"
  by (simp add: sled_open_def sled_new_temporary_def)

lemma start_boots:
  assumes "start_node T E N F path conns = Some (Inr st)"
  obtains cfg s g where "config_from_file E N F path = Inr cfg" "sled_open (sf_database F (sled_path cfg)) = Inr s"
    "genesis_from_file F (genesis_path cfg) = Inr g" "boot (sled_node_env T E N) g cfg conns s = Some (Inr st)"
proof -
  obtain cfg where c: "config_from_file E N F path = Inr cfg"
    using assms by (cases "config_from_file E N F path") (auto simp: start_node_def)
  obtain s where s: "sled_open (sf_database F (sled_path cfg)) = Inr s"
    using assms c by (cases "sled_open (sf_database F (sled_path cfg))") (auto simp: start_node_def)
  obtain g where g: "genesis_from_file F (genesis_path cfg) = Inr g"
    using assms c s by (cases "genesis_from_file F (genesis_path cfg)") (auto simp: start_node_def)
  have "boot (sled_node_env T E N) g cfg conns s = Some (Inr st)"
    using assms c s g
    by (auto simp: start_node_def boot_def Let_def sled_node_env_def split: prod.splits sum.splits option.splits)
  with c s g show thesis by (rule that)
qed

context node_backend
begin

lemma http_request_ok:
  assumes "swap_remove_deletes E" and "orders_permute E" and "node_ok E B babs inv n st"
  shows "node_ok E B babs inv n (node_step Env A (HttpRequest l ls bs) st)"
proof (cases "handle_conn Env A l ls bs st")
  case (Some x)
  then obtain m p body where "x = route Env A m p body st"
    by (auto simp: handle_conn_def Let_def split: if_splits option.splits)
  then show ?thesis using route_ok [OF assms, of A m p body] Some by (simp add: case_prod_beta)
qed (use assms(3) in simp)

lemma run_api_ok:
  assumes "swap_remove_deletes E" and "orders_permute E" and "node_ok E B babs inv n st"
  shows "node_ok E B babs inv n (run_api Env A bound inputs st)"
proof -
  have "node_ok E B babs inv n (fold (\<lambda>(l, ls, bs). node_step Env A (HttpRequest l ls bs)) cs st')"
    if "node_ok E B babs inv n st'" for cs st'
    using that by (induction cs arbitrary: st') (auto intro: http_request_ok [OF assms(1,2)])
  then show ?thesis using assms(3) by (auto simp: run_api_def node_ok_def emit_def)
qed

end

text \<open>
  A node started from its files on a fresh database, with peers that send the blocks it asks for, has a
  well-formed chain, pool and peer set, and so it has after any requests.
\<close>

lemma started_node_ok:
  assumes "sled_backend T E" and "swap_remove_deletes E" and "orders_permute E"
    and "start_node T E N F path conns = Some (Inr st)" and "\<forall>p. sf_database F p = Inr (\<lambda>_. Inr (t_empty T))"
    and "\<forall>g cfg. answered (sled_node_env T E N) conns (boot_state (sled_node_env T E N) cfg (fst (apply_genesis E
      (sled_block_store T E) (sled_utxo_store T E) (sled_validator_store T E) g (sled_new_temporary T))))"
  shows "\<exists>n. node_ok E (sled_block_store T E) (sled_babs T E) (sled_inv T E) n
    (run_api (sled_node_env T E N) A bound inputs st)"
proof -
  note backend = sled_backend.is_node_backend [OF assms(1), of N]
  obtain cfg s g where "sled_open (sf_database F (sled_path cfg)) = Inr s"
    and b: "boot (sled_node_env T E N) g cfg conns s = Some (Inr st)"
    by (rule start_boots [OF assms(4)])
  then have s: "s = sled_new_temporary T" using assms(5) sled_open_fresh [of T] by simp
  note new = sled_new_inv [of T E] sled_new_abs(2) [of T E]
  have "sled_tree T" using assms(1) by (rule sled_backend.axioms)
  with new b s obtain n where "node_ok E (sled_block_store T E) (sled_babs T E) (sled_inv T E) n st"
    using node_backend.boot_ok [OF backend, of s g cfg conns st] assms(6) by auto
  from node_backend.run_api_ok [OF backend assms(2,3) this] show ?thesis by blast
qed

section \<open>The bus of the visualizer\<close>

lemma post_call: "sc_post J P Q m \<Longrightarrow> (\<And>r. P r \<Longrightarrow> Q' r) \<Longrightarrow> (\<And>r. Q r \<Longrightarrow> Q' r) \<Longrightarrow> sc_post J P' Q' (sc_call m)"
  unfolding sc_post_def sc_call_def by (fastforce split: prod.splits sc_out.splits)

text \<open>A scenario leaves the bus in order also when it panics.\<close>

lemma run_scenario_log: "scenario_log name (sw_bus w) (sw_bus (fst (run_scenario C name urls w)))"
proof -
  let ?J = "sc_keeps (scenario_log name (sw_bus w)) (net_reach C (sw_net w))"
  have "sc_post ?J (scenario_failed name) (\<lambda>_. True) (sc_call (scenario_body C name urls))"
    by (rule post_call [OF scn.body_post]) simp_all
  then have "sc_post ?J (scenario_failed name) (\<lambda>_. True) (run_scenario C name urls)"
    unfolding run_scenario_def by (intro scn.post_publish, elim post_bind) (intro scn.post_publish post_return TrueI)
  moreover have "?J w" by (simp add: sc_keeps_def scenario_log_def net_reach.start)
  ultimately show ?thesis by (simp add: sc_post_def sc_keeps_def)
qed

definition bus_good :: "event_bus \<Rightarrow> bool" where
  "bus_good bus \<longleftrightarrow> eb_capacity bus = 1000 \<and> bus_ok bus"

lemma relay_good: "bus_good bus \<Longrightarrow> bus_good (relay X node now fs bus)"
  by (induction X node now fs bus rule: relay.induct) (auto simp: bus_good_def publish_ok split: sum.splits)

lemma clients_good: "bus_good bus \<Longrightarrow> bus_good (run_clients X now ns conns bus)"
proof (induction X now ns conns bus rule: run_clients.induct)
  case (2 X now node url ns conns bus)
  have "bus_good b \<Longrightarrow> bus_good (fst (client_loop X node now k cs b))" for k cs b
    by (induction cs arbitrary: k b) (auto simp: case_prod_beta Let_def run_once_def relay_good split: option.splits)
  then show ?case using 2 by simp
qed simp

lemma serve_good: "bus_good (sw_bus w) \<Longrightarrow> bus_good (sw_bus (fst (vis_serve X html C ports cs w)))"
proof (induction cs arbitrary: w)
  case (Cons c cs)
  have "bus_good (sw_bus (fst (run_scenario C name ports w)))" for name
    using run_scenario_log [of name w C ports] Cons.prems by (auto simp: bus_good_def scenario_log_def)
  then show ?case using Cons by (auto simp: case_prod_beta Let_def split: option.splits)
qed simp

section \<open>Properties\<close>


end
