(* ===== verification/Spec2Isabelle.thy ===== *)
theory Spec2Isabelle
  imports Bcc_Main
begin

text \<open>
  \<^bold>\<open>BetterCallChain\<close>: a proof-of-stake UTXO block chain in Rust, modelled and verified.

  \<^bold>\<open>The program.\<close>  \<open>bcc-core\<close> holds the data types, hashing and addresses, the proposer election, the
  storage traits with an in-memory store, and the validation of transactions and blocks.
  \<open>bcc-node\<close> is the full node: a sled-backed store, a transaction pool, the peer protocol, block
  production, the initial block download, genesis and an HTTP interface, all over one shared
  \<open>NodeState\<close>.  \<open>bcc-client\<close> is the wallet: coin selection, building and signing transfers, splitting
  outputs.  \<open>bcc-visualizer\<close> shows the debug events of nodes in a browser and runs scripted scenarios
  against them.  A wallet posts a transfer to a node's HTTP interface; the node validates and pools it and
  gossips it; an elected node drains its pool into a block, stores and applies it and sends it to its
  peers; they validate and adopt it, or choose between it and their own tip.

  \<^bold>\<open>Conventions.\<close>  Functions of other crates (SHA-256, Ed25519, hex, serde\_json, hash-map order, sled
  trees, Argon2, AES-GCM, reqwest, sockets) are fields of parameter records (\<open>ext\<close>, \<open>sled_env\<close>, \<open>net\<close>,
  \<open>api_ext\<close>, \<open>split_env\<close>, \<open>keystore_ext\<close>, \<open>rpc_ext\<close>, \<open>vis_ext\<close>, \<open>sc_env\<close>);
  what a theorem needs of them is a named hypothesis such as \<open>sign_verifies\<close> or \<open>json_roundtrip\<close>, and
  \<open>ref_ext\<close> with the red-black trees \<open>rbt_env\<close> is a concrete instance that satisfies them all.
  Integers are words of their Rust width and wrap, as in the release build the Dockerfile makes.
  A Rust \<open>Result\<close> is a sum with the error on the left, a handler takes and returns the state, and the
  text of each error is that of its \<open>Display\<close>.  Log output is left out; debug events are kept.

  \<^bold>\<open>Theories.\<close>
  \<^item> \<open>Bcc_Prelude\<close>: word, byte and list lemmas.  \<open>Bcc_Types\<close>: the types of \<open>bcc-core/src/types\<close> and the
    record \<open>ext\<close>.  \<open>Bcc_Codec\<close>: the concrete instance \<open>ref_ext\<close> used by the witnesses.
  \<^item> \<open>Bcc_Crypto\<close> (\<open>crypto/\<close>, \<open>types/address.rs\<close>, \<open>types/block.rs\<close>): hashes, addresses, Merkle root.
    The root binds the transactions up to hash collisions and the repetition of the last one.
  \<^item> \<open>Bcc_Consensus\<close> (\<open>consensus/pos.rs\<close>): the election gives each validator as many points as stake.
  \<^item> \<open>Bcc_Store\<close> (\<open>store/mod.rs\<close>): the storage traits as records of methods, the abstract UTXO set, and
    the locales \<open>block_iface\<close>, \<open>utxo_iface\<close>, \<open>validator_iface\<close>, \<open>chain_store\<close> with the contract of the
    traits.  \<open>Bcc_Memory_Store\<close> (\<open>store/memory.rs\<close>) and \<open>Bcc_Sled_Store\<close> (\<open>storage/sled_store.rs\<close>)
    provide it; \<open>Bcc_Store_Agreement\<close> shows that both refine an abstract ledger of three maps and so answer
    alike after any writes.  Rollback undoes application, and a failing application is covered by its
    crash sentinel.
  \<^item> \<open>Bcc_Validation\<close> (\<open>validation/\<close>): what acceptance of a transaction and of a block means, and that an
    accepted block creates no money unless it spends an output twice or its sums overflow.
  \<^item> \<open>Bcc_Mempool\<close> (\<open>mempool.rs\<close>): the pool's documented invariants over every sequence of operations,
    eviction and draining.  \<open>Bcc_Wallet\<close> (\<open>wallet.rs\<close>, \<open>split.rs\<close>): what the wallet builds is accepted.
  \<^item> \<open>Bcc_Node_State\<close> (\<open>state.rs\<close>, \<open>config.rs\<close>, \<open>debug_event.rs\<close>, \<open>p2p/protocol.rs\<close>): the shared state, the
    reorg, and \<open>chain_ok\<close>, the well-formed chain up to a tip.
  \<^item> \<open>Bcc_P2p\<close> (\<open>p2p/handler.rs\<close>): \<open>dispatch\<close> and \<open>run_peer\<close>, with the locale \<open>node_backend\<close> of a node over any
    store.  \<open>Bcc_Fork_Choice\<close> and \<open>Bcc_Gossip\<close>: what becomes of announced blocks and transactions, when
    nodes converge and when they do not.  \<open>Bcc_Connector\<close> (\<open>p2p/connector.rs\<close>, \<open>p2p/server.rs\<close>): dialling
    with backoff, and the accepting loop.
  \<^item> \<open>Bcc_Genesis\<close> (\<open>genesis.rs\<close>), \<open>Bcc_Slot_Ticker\<close> (\<open>slot_ticker.rs\<close>), \<open>Bcc_Ibd\<close> (\<open>ibd.rs\<close>), \<open>Bcc_Api\<close>
    (\<open>api.rs\<close>): starting a chain, producing blocks, downloading them, serving HTTP.
  \<^item> \<open>Bcc_Start\<close> and \<open>Bcc_Node\<close> (\<open>main.rs\<close>): the start of a node, and the events of a running one with the states
    they reach.
  \<^item> \<open>Bcc_Keystore\<close> (\<open>keystore.rs\<close>, \<open>config.rs\<close>) and \<open>Bcc_Client\<close> (\<open>rpc.rs\<close>, \<open>cli.rs\<close>): the encrypted key file over a
    file system with faults, and the commands, up to a payment in the pool of the node it was sent to.
  \<^item> \<open>Bcc_Visualizer\<close> (\<open>debug_ws.rs\<close> and \<open>bcc-visualizer\<close>): the way of a debug event from a node to the browser,
    and the addresses of nodes.
  \<^item> \<open>Bcc_Scenarios\<close> (\<open>scenarios.rs\<close>): the scripted demonstrations as state transformers over the event bus, the
    network and the clock, with early returns and panics as values.  \<open>Bcc_Scenario_Runs\<close>: the locale
    \<open>scenario_run\<close> for whatever publishing and sending requests keeps, the shape of every report, what a
    passing scenario has seen, and that the nodes reject what \<open>invalid_tx_rejection\<close> sends them.
  \<^item> \<open>Bcc_Main\<close> (both \<open>main.rs\<close>, \<open>SledStore::open\<close>, the listeners): a node started from its files and database, and
    the visualizer as a whole, whose bus stays in order.

  \<^bold>\<open>Bounds.\<close>  No definition uses fuel: the loops that depend on the outside world consume a list of inputs
  (peer loop, slot loop, download) and the others terminate by a measure; the polling of a scenario
  ends because every round takes at least a millisecond of the time to its deadline.  Heights are 64-bit, so
  the node invariant is stated for runs of fewer than \<open>2^64 - 1\<close> events.

  \<^bold>\<open>Not modelled.\<close>  A handler runs to completion on the shared state; the interleaving of two handlers
  inside their \<open>await\<close> points and across threads is not modelled.  Left out are: the inside of
  sled and of the TOML reader, logging, signals and the shutdown deadline in \<open>main.rs\<close>, sockets and
  timers below the loops that use them, and the parsing of command lines.  Requests that a scenario
  sends together are carried out in the order in which it collects their answers.
\<close>

section \<open>The node as a whole\<close>

text \<open>
  Claim C1: a node never loses its invariants.  Once it has started successfully on an empty store, with
  bootstrap peers that send consecutive blocks from the height it asks for, and after any sequence of
  connections, peer messages, slot turns and HTTP requests, a node has blocks at exactly the heights
  up to its tip, each linked to the one below and with a matching Merkle root; its pool has no double
  spend and keeps its bounds; no two peers share an IP address and no queue exceeds its channel.
\<close>

theorem reachable_node_invariant:
  assumes "node_backend E B babs U uabs V vabs ok Env" and "swap_remove_deletes E" and "orders_permute E"
    and "ok s" and "babs s = Map.empty" and "boot Env g cfg conns s = Some (Inr st0)"
    and "answered Env conns (boot_state Env cfg (fst (apply_genesis E B U V g s)))"
    and "node_reach Env A st0 k st" and "bs_tip B (ns_store st0) = Inr (Some (h, hash))" and "unat h + k < u64_max"
  shows "\<exists>n. unat h \<le> unat n \<and> unat n \<le> unat h + k \<and> node_ok E B babs ok n st"
proof -
  obtain n where n: "node_ok E B babs ok n st0" using node_backend.boot_ok [OF assms(1,4-7)] by blast
  then have "n = h" using assms(9) by (auto simp: node_ok_def chain_ok_def)
  then show ?thesis using node_backend.node_reach_ok [OF assms(1-3,8) n] assms(10) by simp
qed

theorem reachable_node_invariant_witness:
  "\<exists>st0 n. boot sample_env (sample_genesis []) sample_config [] (sled_new_temporary rbt_env) = Some (Inr st0) \<and>
    node_ok ref_ext (sled_block_store rbt_env ref_ext) (sled_babs rbt_env ref_ext) (sled_inv rbt_env ref_ext) n
      (node_step sample_env (sample_api sample_fund) (SlotTurn 12) st0)"
proof -
  let ?g = "apply_genesis ref_ext (sled_block_store rbt_env ref_ext) (sled_utxo_store rbt_env ref_ext)
      (sled_validator_store rbt_env ref_ext) (sample_genesis []) (sled_new_temporary rbt_env)"
  obtain s1 s' where "bs_tip (sled_block_store rbt_env ref_ext) s' =
      Inr (Some (0, hash_of_block ref_ext (build_genesis_block ref_ext (gc_timestamp (sample_genesis [])) [])))"
    "?g = register_validators ref_ext (sled_validator_store rbt_env ref_ext) (gc_validators (sample_genesis [])) s'"
    by (rule rbt_sled.genesis_block_stored [OF rbt_new(1) rbt_new(3), of "sample_genesis []" "[]"])
      (simp_all add: sample_genesis_def)
  then obtain hash where g: "?g = (s', Inr ())" "bs_tip (sled_block_store rbt_env ref_ext) s' = Inr (Some (0, hash))"
    by (simp add: sample_genesis_def)
  let ?st0 = "boot_state sample_env sample_config s'"
  have b: "boot sample_env (sample_genesis []) sample_config [] (sled_new_temporary rbt_env) = Some (Inr ?st0)"
    using g(1) by (simp add: boot_def sample_env_def sled_node_env_def run_ibd_def boot_state_def emit_def
        node_state_new_def sample_config_def)
  have r: "node_reach sample_env (sample_api sample_fund) ?st0 (Suc 0)
      (node_step sample_env (sample_api sample_fund) (SlotTurn 12) ?st0)"
    by (intro node_reach.intros)
  have "bs_tip (sled_block_store rbt_env ref_ext) (ns_store ?st0) = Inr (Some (0, hash))"
    using g(2) by (simp add: boot_state_def emit_def node_state_new_def)
  from reachable_node_invariant [OF rbt_sled.is_node_backend [of "sample_net GetPeers", folded sample_env_def]
      ref_swap_remove ref_orders_permute rbt_new(1) rbt_new(3) b answered_empty r this]
  show ?thesis using b unfolding u64_max_def by fastforce
qed

end
